(* ===== verification/Xv6_Prelude.thy ===== *)
theory Xv6_Prelude
  imports Main "HOL-Library.Word"
begin

text \<open>
  The vocabulary every component of the development shares.

  \<^item> Machine types: \<open>u8\<close>, \<open>u16\<close>, \<open>u32\<close> for \<^verbatim>\<open>uchar\<close>, \<^verbatim>\<open>ushort\<close>/\<^verbatim>\<open>short\<close>
    and \<^verbatim>\<open>uint\<close> of \<^verbatim>\<open>types.h\<close>.
  \<^item> The result of running kernel code: \<open>Ret\<close> (the call returns), \<open>Panic\<close> (it reaches
    \<^verbatim>\<open>panic(msg)\<close>, which never returns), \<open>Sleep\<close> (it parks the process on a wait channel)
    and \<open>Fault\<close> (the C code has no defined behaviour from here on: a null pointer is
    followed, an array is left, or a recursion has no end).
  \<^item> A state monad over these results (\<open>bind\<close>, \<open>ret\<close>, \<open>gets\<close>, \<open>modify\<close>) and its weakest
    preconditions: \<open>wp\<close> (the call returns and the postcondition holds) and \<open>wlp\<close> (if the
    call returns, the postcondition holds).
  \<^item> Byte buffers: reading and overwriting a stretch of a buffer (\<open>bslice\<close>, \<open>bsplice\<close>) and the
    little-endian layout of 16-bit and 32-bit integers in it.
\<close>

unbundle bit_operations_syntax

type_synonym u8 = "8 word"
type_synonym u16 = "16 word"
type_synonym u32 = "32 word"

named_theorems mon "evaluation rules of the kernel monad"
named_theorems wpsimps "weakest preconditions of the operations"

subsection \<open>Results of kernel code\<close>

datatype ('c, 's, 'a) outcome =
    Ret 'a 's
  | Panic string
  | Sleep 'c 's
  | Fault string

type_synonym ('c, 's, 'a) kmonad = "'s \<Rightarrow> ('c, 's, 'a) outcome"

definition ret :: "'a \<Rightarrow> ('c, 's, 'a) kmonad" where
  "ret x = (\<lambda>s. Ret x s)"

definition bind :: "('c, 's, 'a) kmonad \<Rightarrow> ('a \<Rightarrow> ('c, 's, 'b) kmonad) \<Rightarrow> ('c, 's, 'b) kmonad" where
  "bind m f = (\<lambda>s. case m s of
       Ret x s' \<Rightarrow> f x s'
     | Panic msg \<Rightarrow> Panic msg
     | Sleep c s' \<Rightarrow> Sleep c s'
     | Fault msg \<Rightarrow> Fault msg)"

definition gets :: "('s \<Rightarrow> 'a) \<Rightarrow> ('c, 's, 'a) kmonad" where
  "gets f = (\<lambda>s. Ret (f s) s)"

definition modify :: "('s \<Rightarrow> 's) \<Rightarrow> ('c, 's, unit) kmonad" where
  "modify f = (\<lambda>s. Ret () (f s))"

definition panic :: "string \<Rightarrow> ('c, 's, 'a) kmonad" where
  "panic msg = (\<lambda>s. Panic msg)"

definition fault :: "string \<Rightarrow> ('c, 's, 'a) kmonad" where
  "fault msg = (\<lambda>s. Fault msg)"

definition park :: "'c \<Rightarrow> ('c, 's, 'a) kmonad" where
  "park c = (\<lambda>s. Sleep c s)"

definition panic_if :: "bool \<Rightarrow> string \<Rightarrow> ('c, 's, unit) kmonad" where
  "panic_if b msg = (if b then panic msg else ret ())"

definition when_do :: "bool \<Rightarrow> ('c, 's, unit) kmonad \<Rightarrow> ('c, 's, unit) kmonad" where
  "when_do b m = (if b then m else ret ())"

lemma bind_cong [fundef_cong]:
  "m = m' \<Longrightarrow> (\<And>x. f x = f' x) \<Longrightarrow> bind m f = bind m' f'"
  by presburger

lemma ret_run [simp, mon]: "ret x s = Ret x s"
  by (simp add: ret_def)

lemma gets_run [simp, mon]: "gets f s = Ret (f s) s"
  by (simp add: gets_def)

lemma modify_run [simp, mon]: "modify f s = Ret () (f s)"
  by (simp add: modify_def)

lemma panic_run [simp, mon]: "panic msg s = Panic msg"
  by (simp add: panic_def)

lemma fault_run [simp, mon]: "fault msg s = Fault msg"
  by (simp add: fault_def)

lemma park_run [simp, mon]: "park c s = Sleep c s"
  by (simp add: park_def)

lemma panic_if_run [simp, mon]: "panic_if b msg s = (if b then Panic msg else Ret () s)"
  by (simp add: panic_if_def)

lemma when_do_run [simp, mon]: "when_do b m s = (if b then m s else Ret () s)"
  by (simp add: when_do_def)

text \<open>
  Running a sequence: only the result of the first call matters, so the simplifier runs a
  program statement by statement.
\<close>

lemma bind_run [simp, mon]:
  "bind m f s = (case m s of
       Ret x s' \<Rightarrow> f x s'
     | Panic msg \<Rightarrow> Panic msg
     | Sleep c s' \<Rightarrow> Sleep c s'
     | Fault msg \<Rightarrow> Fault msg)"
  by (simp add: bind_def)

lemma bind_RetE:
  assumes "bind m f s = Ret y t"
  obtains x s' where "m s = Ret x s'" and "f x s' = Ret y t"
  using assms by (cases "m s") auto

lemma bind_ret [simp]: "bind (ret x) f = f x"
  by (simp add: bind_def ret_def)

lemma bind_assoc: "bind (bind m f) g = bind m (\<lambda>x. bind (f x) g)"
  by (rule ext) (simp add: bind_def split: outcome.splits)

subsection \<open>Weakest preconditions\<close>

definition wp :: "('c, 's, 'a) kmonad \<Rightarrow> ('a \<Rightarrow> 's \<Rightarrow> bool) \<Rightarrow> 's \<Rightarrow> bool" where
  "wp m Q s = (case m s of Ret x s' \<Rightarrow> Q x s' | _ \<Rightarrow> False)"

definition wlp :: "('c, 's, 'a) kmonad \<Rightarrow> ('a \<Rightarrow> 's \<Rightarrow> bool) \<Rightarrow> 's \<Rightarrow> bool" where
  "wlp m Q s = (case m s of Ret x s' \<Rightarrow> Q x s' | _ \<Rightarrow> True)"

lemma wp_bind [wpsimps]: "wp (bind m f) Q s = wp m (\<lambda>x. wp (f x) Q) s"
  by (simp add: wp_def bind_def split: outcome.splits)

lemma wp_ret [wpsimps]: "wp (ret x) Q s = Q x s"
  by (simp add: wp_def)

lemma wp_gets [wpsimps]: "wp (gets f) Q s = Q (f s) s"
  by (simp add: wp_def)

lemma wp_modify [wpsimps]: "wp (modify f) Q s = Q () (f s)"
  by (simp add: wp_def)

lemma wp_panic [wpsimps]: "wp (panic msg) Q s = False"
  by (simp add: wp_def)

lemma wp_fault [wpsimps]: "wp (fault msg) Q s = False"
  by (simp add: wp_def)

lemma wp_panic_if [wpsimps]: "wp (panic_if b msg) Q s = (\<not> b \<and> Q () s)"
  by (simp add: wp_def)

lemma wp_when_do [wpsimps]: "wp (when_do b m) Q s = (if b then wp m Q s else Q () s)"
  by (simp add: wp_def)

lemma wp_if [wpsimps]: "wp (if b then m else m') Q s = (if b then wp m Q s else wp m' Q s)"
  by simp

lemma wp_mono:
  assumes "wp m P s" and "\<And>x t. P x t \<Longrightarrow> Q x t"
  shows "wp m Q s"
  using assms by (auto simp: wp_def split: outcome.splits)

lemma wp_RetI: "m s = Ret x t \<Longrightarrow> Q x t \<Longrightarrow> wp m Q s"
  by (simp add: wp_def)

lemma wpE:
  assumes "wp m Q s"
  obtains x t where "m s = Ret x t" and "Q x t"
  using assms by (auto simp: wp_def split: outcome.splits)

lemma wlp_bind [wpsimps]: "wlp (bind m f) Q s = wlp m (\<lambda>x. wlp (f x) Q) s"
  by (simp add: wlp_def bind_def split: outcome.splits)

lemma wlp_ret [wpsimps]: "wlp (ret x) Q s = Q x s"
  by (simp add: wlp_def)

lemma wlp_gets [wpsimps]: "wlp (gets f) Q s = Q (f s) s"
  by (simp add: wlp_def)

lemma wlp_modify [wpsimps]: "wlp (modify f) Q s = Q () (f s)"
  by (simp add: wlp_def)

lemma wlp_panic [wpsimps]: "wlp (panic msg) Q s"
  by (simp add: wlp_def)

lemma wlp_fault [wpsimps]: "wlp (fault msg) Q s"
  by (simp add: wlp_def)

lemma wlp_park [wpsimps]: "wlp (park c) Q s"
  by (simp add: wlp_def)

lemma wlp_panic_if [wpsimps]: "wlp (panic_if b msg) Q s = (b \<or> Q () s)"
  by (simp add: wlp_def)

lemma wlp_when_do [wpsimps]: "wlp (when_do b m) Q s = (if b then wlp m Q s else Q () s)"
  by (simp add: wlp_def)

lemma wlp_if [wpsimps]: "wlp (if b then m else m') Q s = (if b then wlp m Q s else wlp m' Q s)"
  by simp

lemma wlp_mono:
  assumes "wlp m P s" and "\<And>x t. P x t \<Longrightarrow> Q x t"
  shows "wlp m Q s"
  using assms by (auto simp: wlp_def split: outcome.splits)

lemma wlpI:
  assumes "\<And>x t. m s = Ret x t \<Longrightarrow> Q x t"
  shows "wlp m Q s"
  using assms by (auto simp: wlp_def split: outcome.splits)

lemma wlpD: "wlp m Q s \<Longrightarrow> m s = Ret x t \<Longrightarrow> Q x t"
  by (simp add: wlp_def)

lemma wp_bind_fun: "wp (bind m f) Q = wp m (\<lambda>x. wp (f x) Q)"
  by (rule ext) (rule wp_bind)

lemma wp_modify_fun: "wp (modify f) Q = (\<lambda>s. Q () (f s))"
  by (rule ext) (rule wp_modify)

lemma wp_unit: "wp m Q s \<Longrightarrow> \<exists>t. m s = Ret () t \<and> Q () t"
  by (auto simp: wp_def split: outcome.splits)

lemma wp_conj: "wp m Q s \<Longrightarrow> wlp m P s \<Longrightarrow> wp m (\<lambda>x t. Q x t \<and> P x t) s"
  by (auto simp: wp_def wlp_def split: outcome.splits)

lemma wp_imp_wlp: "wp m Q s \<Longrightarrow> wlp m Q s"
  by (auto simp: wp_def wlp_def split: outcome.splits)

subsection \<open>Searching a list\<close>

lemma find_SomeD: "find P xs = Some x \<Longrightarrow> x \<in> set xs \<and> P x"
  by (induction xs) (auto split: if_splits)

lemma find_unique:
  assumes "P i" and "i \<in> set xs" and "\<And>j. j \<in> set xs \<Longrightarrow> P j \<Longrightarrow> j = i"
  shows "find P xs = Some i"
proof (cases "find P xs")
  case None
  then show ?thesis using assms(1,2) by (auto simp: find_None_iff)
next
  case (Some j)
  then have "j \<in> set xs" "P j" by (auto dest: find_SomeD)
  with assms(3) Some show ?thesis by blast
qed

lemma find_None_upt: "find P [0..<n] = None \<longleftrightarrow> (\<forall>i<n. \<not> P i)"
  by (auto simp: find_None_iff)

subsection \<open>Byte buffers\<close>

definition bslice :: "'a list \<Rightarrow> nat \<Rightarrow> nat \<Rightarrow> 'a list" where
  "bslice d off n = take n (drop off d)"

definition bsplice :: "'a list \<Rightarrow> nat \<Rightarrow> 'a list \<Rightarrow> 'a list" where
  "bsplice d off xs = take off d @ xs @ drop (off + length xs) d"

lemma length_bslice [simp]: "off + n \<le> length d \<Longrightarrow> length (bslice d off n) = n"
  by (simp add: bslice_def)

lemma length_bsplice [simp]: "off + length xs \<le> length d \<Longrightarrow> length (bsplice d off xs) = length d"
  by (simp add: bsplice_def)

lemma nth_bslice: "i < n \<Longrightarrow> off + n \<le> length d \<Longrightarrow> bslice d off n ! i = d ! (off + i)"
  by (simp add: bslice_def)

lemma nth_bsplice:
  assumes "off + length xs \<le> length d" and "i < length d"
  shows "bsplice d off xs ! i = (if off \<le> i \<and> i < off + length xs then xs ! (i - off) else d ! i)"
  using assms by (auto simp: bsplice_def nth_append min_def)

lemma bslice_bsplice_same [simp]:
  "off + length xs \<le> length d \<Longrightarrow> n = length xs \<Longrightarrow> bslice (bsplice d off xs) off n = xs"
  by (simp add: bslice_def bsplice_def)

lemma bslice_bsplice_other:
  assumes "off + length xs \<le> length d" and "o2 + n \<le> length d"
    and "o2 + n \<le> off \<or> off + length xs \<le> o2"
  shows "bslice (bsplice d off xs) o2 n = bslice d o2 n"
proof (rule nth_equalityI)
  show "length (bslice (bsplice d off xs) o2 n) = length (bslice d o2 n)"
    using assms by simp
next
  fix i assume "i < length (bslice (bsplice d off xs) o2 n)"
  with assms show "bslice (bsplice d off xs) o2 n ! i = bslice d o2 n ! i"
    by (auto simp: nth_bslice nth_bsplice)
qed

lemma bsplice_bslice [simp]:
  assumes "off + n \<le> length d"
  shows "bsplice d off (bslice d off n) = d"
  using assms by (intro nth_equalityI) (auto simp: nth_bsplice nth_bslice)

lemma bsplice_all [simp]: "length xs = length d \<Longrightarrow> bsplice d 0 xs = xs"
  by (simp add: bsplice_def)

definition word16 :: "u8 list \<Rightarrow> u16" where
  "word16 bs = ucast (bs ! 0) OR push_bit 8 (ucast (bs ! 1))"

definition bytes16 :: "u16 \<Rightarrow> u8 list" where
  "bytes16 w = [ucast w, ucast (drop_bit 8 w)]"

definition word32 :: "u8 list \<Rightarrow> u32" where
  "word32 bs = ucast (bs ! 0) OR push_bit 8 (ucast (bs ! 1))
     OR push_bit 16 (ucast (bs ! 2)) OR push_bit 24 (ucast (bs ! 3))"

definition bytes32 :: "u32 \<Rightarrow> u8 list" where
  "bytes32 w = [ucast w, ucast (drop_bit 8 w), ucast (drop_bit 16 w), ucast (drop_bit 24 w)]"

lemma length_bytes16 [simp]: "length (bytes16 w) = 2"
  by (simp add: bytes16_def)

lemma length_bytes32 [simp]: "length (bytes32 w) = 4"
  by (simp add: bytes32_def)

lemma word16_bytes16 [simp]: "word16 (bytes16 w) = w"
  by (rule bit_word_eqI) (auto simp: word16_def bytes16_def bit_simps)

lemma word32_bytes32 [simp]: "word32 (bytes32 w) = w"
proof (rule bit_word_eqI)
  fix n assume "n < LENGTH(32)"
  then consider "n < 8" | "8 \<le> n" "n < 16" | "16 \<le> n" "n < 24" | "24 \<le> n" "n < 32"
    by force
  then show "bit (word32 (bytes32 w)) n = bit w n"
    by cases (auto simp: word32_def bytes32_def bit_simps)
qed

definition get16 :: "u8 list \<Rightarrow> nat \<Rightarrow> u16" where
  "get16 d off = word16 (bslice d off 2)"

definition put16 :: "u8 list \<Rightarrow> nat \<Rightarrow> u16 \<Rightarrow> u8 list" where
  "put16 d off w = bsplice d off (bytes16 w)"

definition get32 :: "u8 list \<Rightarrow> nat \<Rightarrow> u32" where
  "get32 d off = word32 (bslice d off 4)"

definition put32 :: "u8 list \<Rightarrow> nat \<Rightarrow> u32 \<Rightarrow> u8 list" where
  "put32 d off w = bsplice d off (bytes32 w)"

lemma length_put16 [simp]: "off + 2 \<le> length d \<Longrightarrow> length (put16 d off w) = length d"
  by (simp add: put16_def)

lemma length_put32 [simp]: "off + 4 \<le> length d \<Longrightarrow> length (put32 d off w) = length d"
  by (simp add: put32_def)

lemma get16_put16 [simp]: "off + 2 \<le> length d \<Longrightarrow> get16 (put16 d off w) off = w"
  by (simp add: get16_def put16_def)

lemma get32_put32 [simp]: "off + 4 \<le> length d \<Longrightarrow> get32 (put32 d off w) off = w"
  by (simp add: get32_def put32_def)

lemma get32_put32_other [simp]:
  "off + 4 \<le> length d \<Longrightarrow> o2 + 4 \<le> length d \<Longrightarrow> o2 + 4 \<le> off \<or> off + 4 \<le> o2 \<Longrightarrow>
   get32 (put32 d off w) o2 = get32 d o2"
  by (simp add: get32_def put32_def bslice_bsplice_other)

text \<open>An array of consecutive 32-bit integers inside a buffer.\<close>

definition get32s :: "u8 list \<Rightarrow> nat \<Rightarrow> nat \<Rightarrow> u32 list" where
  "get32s d off n = map (\<lambda>i. get32 d (off + 4 * i)) [0..<n]"

definition bytes32s :: "u32 list \<Rightarrow> u8 list" where
  "bytes32s ws = concat (map bytes32 ws)"

lemma length_get32s [simp]: "length (get32s d off n) = n"
  by (simp add: get32s_def)

lemma length_bytes32s [simp]: "length (bytes32s ws) = 4 * length ws"
  by (induction ws) (auto simp: bytes32s_def)

lemma bslice_append_right:
  "bslice (xs @ ys) (length xs + off) n = bslice ys off n"
  by (simp add: bslice_def)

lemma get32s_bytes32s:
  "n = length ws \<Longrightarrow> get32s (pre @ bytes32s ws @ post) (length pre) n = ws"
proof (induction ws arbitrary: pre n)
  case Nil
  then show ?case by (simp add: get32s_def)
next
  case (Cons w ws)
  have n: "n = Suc (length ws)" using Cons.prems by simp
  have hd: "get32 (pre @ bytes32s (w # ws) @ post) (length pre) = w"
    by (simp add: get32_def bslice_def bytes32s_def)
  have "get32s ((pre @ bytes32 w) @ bytes32s ws @ post) (length (pre @ bytes32 w)) (length ws) = ws"
    by (rule Cons.IH) simp
  then have tl: "map (\<lambda>i. get32 (pre @ bytes32s (w # ws) @ post) (length pre + 4 * Suc i)) [0..<length ws] = ws"
    by (simp add: get32s_def bytes32s_def algebra_simps)
  have "get32s (pre @ bytes32s (w # ws) @ post) (length pre) n
      = get32 (pre @ bytes32s (w # ws) @ post) (length pre)
        # map (\<lambda>i. get32 (pre @ bytes32s (w # ws) @ post) (length pre + 4 * Suc i)) [0..<length ws]"
    unfolding get32s_def n upt_conv_Cons [OF zero_less_Suc] map_Suc_upt [symmetric]
    by (simp add: comp_def)
  with hd tl show ?case by simp
qed

subsection \<open>First index of an array\<close>

lemma find_append: "find P (xs @ ys) = (case find P xs of None \<Rightarrow> find P ys | Some x \<Rightarrow> Some x)"
  by (induction xs) auto

lemma find_upt:
  "find P [0..<n] = (if \<exists>i<n. P i then Some (LEAST i. P i) else None)"
proof (induction n)
  case (Suc n)
  have "find P [0..<Suc n] = (case find P [0..<n] of Some i \<Rightarrow> Some i | None \<Rightarrow> if P n then Some n else None)"
    by (simp add: find_append split: option.split)
  also have "\<dots> = (if \<exists>i<Suc n. P i then Some (LEAST i. P i) else None)"
  proof (cases "\<exists>i<n. P i")
    case False
    then have "(LEAST i. P i) = n" if "P n"
      using that by (intro Least_equality) (simp_all, metis not_less)
    with False Suc show ?thesis by (auto simp: less_Suc_eq)
  qed (use Suc in \<open>auto simp: less_Suc_eq\<close>)
  finally show ?case .
qed simp

lemma find_upt_Some: "find P [0..<n] = Some i \<longleftrightarrow> i < n \<and> P i \<and> (\<forall>j<i. \<not> P j)"
  by (auto simp: find_Some_iff)

lemma find_upt_None: "find P [0..<n] = None \<longleftrightarrow> (\<forall>i<n. \<not> P i)"
  by (auto simp: find_upt)

subsection \<open>Signed integers\<close>

lemma sint_u32: "sint (x :: u32) = (if uint x < 2 ^ 31 then uint x else uint x - 2 ^ 32)"
proof -
  have u: "0 \<le> uint x" "uint x < 2 ^ 32" using unsigned_less [of x] by simp_all
  have "sint x = (uint x + 2 ^ 31) mod 2 ^ 32 - 2 ^ 31"
    by (simp add: sint_uint signed_take_bit_eq_take_bit_shift take_bit_eq_mod)
  moreover have "(uint x + 2 ^ 31) mod 2 ^ 32 = (if uint x < 2 ^ 31 then uint x + 2 ^ 31 else uint x - 2 ^ 31)"
  proof (cases "uint x < 2 ^ 31")
    case False
    have "(uint x + 2 ^ 31) mod 2 ^ 32 = (uint x + 2 ^ 31 - 2 ^ 32) mod 2 ^ 32"
      by (rule minus_mod_self2 [symmetric])
    also have "\<dots> = uint x + 2 ^ 31 - 2 ^ 32" using False u by (intro mod_pos_pos_trivial) simp_all
    finally show ?thesis using False by simp
  qed (use u in simp)
  ultimately show ?thesis by simp
qed

end
