(* ===== verification/Kstate.thy ===== *)
theory Kstate
  imports Xv6_Prelude
begin

text \<open>
  The data of the kernel: the constants of \<^verbatim>\<open>param.h\<close> and \<^verbatim>\<open>fs.h\<close>, one record per C
  struct of the headers, and \<open>kstate\<close>, the record of all kernel globals.

  Conventions. A C array of structs is a function from its index; a pointer into such an
  array is the index (\<open>nat\<close>), and a pointer that may be null is a \<open>nat option\<close>. The head of
  the buffer list, \<^verbatim>\<open>bcache.head\<close>, is index \<open>NBUF\<close> of \<open>bufs\<close>. The flag word of a buffer
  is its two bits \<open>b_valid\<close> and \<open>b_dirty\<close>. The name and call-stack fields that locks and
  processes carry for debugging are left out. The field \<open>disk\<close> is the content of the two
  IDE drives, sector by sector; \<open>dtrace\<close> is a history variable that records the sectors
  written, oldest first, for the statements about crashes. The field \<open>held\<close> is the stack of
  spin locks the running CPU holds, so that its length is \<^verbatim>\<open>mycpu()->ncli\<close>. The field \<open>mem\<close>
  is physical memory as the kernel addresses it (the byte at kernel address \<open>a\<close> is \<open>mem a\<close>);
  \<open>kend\<close> and \<open>kdata\<close> are the addresses of the linker symbols \<^verbatim>\<open>end\<close> and \<^verbatim>\<open>data\<close>. A pipe
  occupies a page of its own and is kept as a record under that page's address. The display is
  \<open>crt\<close> with the cursor at \<open>crt_pos\<close>, and \<open>uart_out\<close> lists the bytes sent to the serial port.
\<close>

subsection \<open>Constants\<close>

abbreviation (input) NPROC :: nat where "NPROC \<equiv> 64"
abbreviation (input) NOFILE :: nat where "NOFILE \<equiv> 16"
abbreviation (input) NFILE :: nat where "NFILE \<equiv> 100"
abbreviation (input) NINODE :: nat where "NINODE \<equiv> 50"
abbreviation (input) NDEV :: nat where "NDEV \<equiv> 10"
abbreviation (input) ROOTDEV :: u32 where "ROOTDEV \<equiv> 1"
abbreviation (input) MAXOPBLOCKS :: int where "MAXOPBLOCKS \<equiv> 10"
abbreviation (input) LOGSIZE :: int where "LOGSIZE \<equiv> 30"
abbreviation (input) NBUF :: nat where "NBUF \<equiv> 30"
abbreviation (input) FSSIZE :: nat where "FSSIZE \<equiv> 1000"
abbreviation (input) NNAMESPACE :: nat where "NNAMESPACE \<equiv> 10"
abbreviation (input) PID_NAMESPACE_MAX_DEPTH :: nat where "PID_NAMESPACE_MAX_DEPTH \<equiv> 4"
abbreviation (input) NMNT :: nat where "NMNT \<equiv> 10"
abbreviation (input) NLOOPDEV :: nat where "NLOOPDEV \<equiv> 1"
abbreviation (input) LOOPDEV_MASK :: u32 where "LOOPDEV_MASK \<equiv> 32"
abbreviation (input) ROOTINO :: u32 where "ROOTINO \<equiv> 1"
abbreviation (input) BSIZE :: nat where "BSIZE \<equiv> 512"
abbreviation (input) NDIRECT :: nat where "NDIRECT \<equiv> 12"
abbreviation (input) NINDIRECT :: nat where "NINDIRECT \<equiv> 128"
abbreviation (input) MAXFILE :: nat where "MAXFILE \<equiv> 140"
abbreviation (input) DIRSIZ :: nat where "DIRSIZ \<equiv> 14"
abbreviation (input) T_DIR :: u16 where "T_DIR \<equiv> 1"
abbreviation (input) T_FILE :: u16 where "T_FILE \<equiv> 2"
abbreviation (input) T_DEV :: u16 where "T_DEV \<equiv> 3"
abbreviation (input) INPUT_BUF :: nat where "INPUT_BUF \<equiv> 128"

subsection \<open>Locks and wait channels\<close>

text \<open>
  A sleep lock is embedded in a buffer or an inode, and is named by its owner. Spin locks and
  wait channels are named by the object whose address the code uses.
\<close>

datatype slref = SlBuf nat | SlInode nat

datatype lockid =
    Lk_cons | Lk_bcache | Lk_ide | Lk_log | Lk_icache | Lk_gmnt | Lk_loopdev | Lk_ftable
  | Lk_ptable | Lk_nstable | Lk_pid_ns_table | Lk_pid_ns nat | Lk_pipe nat | Lk_ticks
  | Lk_kmem | Lk_sleeplk slref

datatype chan =
    Ch_sleeplock slref | Ch_buf nat | Ch_log | Ch_proc nat | Ch_nread nat | Ch_nwrite nat
  | Ch_ticks | Ch_input

record sleeplock =
  sl_locked :: bool
  sl_pid :: int

subsection \<open>Structs of the file system\<close>

record buf =
  b_valid :: bool
  b_dirty :: bool
  b_dev :: u32
  b_blockno :: u32
  b_lock :: sleeplock
  b_refcnt :: u32
  b_prev :: nat
  b_next :: nat
  b_data :: "u8 list"

record superblock =
  sb_size :: u32
  sb_nblocks :: u32
  sb_ninodes :: u32
  sb_nlog :: u32
  sb_logstart :: u32
  sb_inodestart :: u32
  sb_bmapstart :: u32

record log =
  l_start :: u32
  l_size :: int
  l_outstanding :: int
  l_committing :: bool
  l_dev :: u32
  lh_n :: int
  lh_block :: "nat \<Rightarrow> u32"

record inode =
  i_dev :: u32
  i_inum :: u32
  i_ref :: int
  i_lock :: sleeplock
  i_valid :: bool
  i_type :: u16
  i_major :: u16
  i_minor :: u16
  i_nlink :: u16
  i_size :: u32
  i_addrs :: "u32 list"

record loopdev =
  ld_used :: bool
  ld_ip :: "nat option"

record mntent =
  m_devno :: u32
  m_mnti :: "nat option"
  m_refcnt :: u32
  m_next :: "nat option"

datatype ftype = FD_NONE | FD_PIPE | FD_INODE

record file_t =
  f_type :: ftype
  f_ref :: int
  f_readable :: bool
  f_writable :: bool
  f_pipe :: "nat option"
  f_ip :: "nat option"
  f_off :: u32

record pipe_t =
  pi_data :: "nat \<Rightarrow> u8"
  pi_nread :: u32
  pi_nwrite :: u32
  pi_readopen :: bool
  pi_writeopen :: bool

datatype devfun = Fn_consoleread | Fn_consolewrite

subsection \<open>Structs of the process system\<close>

record pid_namespace =
  pn_count :: int
  pn_parent :: "nat option"
  pn_next_pid :: int
  pn_depth :: int
  pn_is_pid_1_killed :: bool

record nsproxy =
  ns_count :: int
  ns_pid_ns :: "nat option"

datatype procstate = UNUSED | EMBRYO | SLEEPING | RUNNABLE | RUNNING | ZOMBIE

record pid_entry =
  pe_pid_ns :: "nat option"
  pe_pid :: int

text \<open>The registers of a trap frame that kernel code reads or sets; the others are only saved and restored.\<close>

record trapframe =
  tf_eax :: u32
  tf_es :: u16
  tf_ds :: u16
  tf_trapno :: u32
  tf_err :: u32
  tf_eip :: u32
  tf_cs :: u16
  tf_eflags :: u32
  tf_esp :: u32
  tf_ss :: u16

record proc =
  p_sz :: u32
  p_pgdir :: u32
  p_kstack :: u32
  p_state :: procstate
  p_pid :: int
  p_parent :: "nat option"
  p_chan :: "chan option"
  p_killed :: bool
  p_ofile :: "nat \<Rightarrow> nat option"
  p_cwd :: "nat option"
  p_tf :: trapframe
  p_name :: "u8 list"
  p_nsproxy :: "nat option"
  p_child_pid_namespace :: "nat option"
  p_pids :: "nat \<Rightarrow> pid_entry"
  p_exit_state :: int

subsection \<open>The kernel's globals\<close>

record kstate =
  held :: "lockid list"
  curproc :: nat
  ptable :: "nat \<Rightarrow> proc"
  initproc :: "nat option"
  nextpid :: int
  nstable :: "nat \<Rightarrow> nsproxy"
  pid_ns_table :: "nat \<Rightarrow> pid_namespace"
  bufs :: "nat \<Rightarrow> buf"
  idequeue :: "nat list"
  havedisk1 :: bool
  ide_err :: bool
  disk :: "nat \<Rightarrow> nat \<Rightarrow> u8 list"
  dtrace :: "(nat \<times> nat \<times> u8 list) list"
  sb :: superblock
  log :: log
  loop_log :: log
  is_loop_mounted :: bool
  icache :: "nat \<Rightarrow> inode"
  loopdevtable :: "nat \<Rightarrow> loopdev"
  gmnttable :: "nat \<Rightarrow> mntent"
  pmntlist :: "nat option"
  prootmnt :: "nat option"
  ftable :: "nat \<Rightarrow> file_t"
  devsw_read :: "nat \<Rightarrow> devfun option"
  devsw_write :: "nat \<Rightarrow> devfun option"
  input_buf :: "nat \<Rightarrow> u8"
  input_r :: u32
  input_w :: u32
  input_e :: u32
  uart_out :: "u8 list"
  crt :: "nat \<Rightarrow> u16"
  crt_pos :: int
  cons_locking :: bool
  ticks :: u32
  mem :: "u32 \<Rightarrow> u8"
  freelist :: u32
  use_lock :: bool
  kend :: u32
  kdata :: u32
  kpgdir :: u32
  pipes :: "nat \<Rightarrow> pipe_t"

type_synonym 'a kM = "(chan, kstate, 'a) kmonad"

subsection \<open>Zeroed memory\<close>

text \<open>
  C zeroes its globals, and the linker the kernel's \<^verbatim>\<open>.bss\<close>: these are the structs with every
  field 0, and the state in which the kernel starts on a machine with the given drives.
\<close>

definition buf0 :: buf where
  "buf0 = \<lparr>b_valid = False, b_dirty = False, b_dev = 0, b_blockno = 0,
     b_lock = \<lparr>sl_locked = False, sl_pid = 0\<rparr>, b_refcnt = 0, b_prev = 0, b_next = 0,
     b_data = replicate BSIZE 0\<rparr>"

definition log0 :: log where
  "log0 = \<lparr>l_start = 0, l_size = 0, l_outstanding = 0, l_committing = False, l_dev = 0,
     lh_n = 0, lh_block = (\<lambda>_. 0)\<rparr>"

definition superblock0 :: superblock where
  "superblock0 = \<lparr>sb_size = 0, sb_nblocks = 0, sb_ninodes = 0, sb_nlog = 0, sb_logstart = 0,
     sb_inodestart = 0, sb_bmapstart = 0\<rparr>"

definition inode0 :: inode where
  "inode0 = \<lparr>i_dev = 0, i_inum = 0, i_ref = 0, i_lock = \<lparr>sl_locked = False, sl_pid = 0\<rparr>,
     i_valid = False, i_type = 0, i_major = 0, i_minor = 0, i_nlink = 0, i_size = 0,
     i_addrs = replicate (NDIRECT + 1) 0\<rparr>"

definition mntent0 :: mntent where
  "mntent0 = \<lparr>m_devno = 0, m_mnti = None, m_refcnt = 0, m_next = None\<rparr>"

definition file0 :: file_t where
  "file0 = \<lparr>f_type = FD_NONE, f_ref = 0, f_readable = False, f_writable = False,
     f_pipe = None, f_ip = None, f_off = 0\<rparr>"

definition pid_namespace0 :: pid_namespace where
  "pid_namespace0 = \<lparr>pn_count = 0, pn_parent = None, pn_next_pid = 0, pn_depth = 0,
     pn_is_pid_1_killed = False\<rparr>"

definition trapframe0 :: trapframe where
  "trapframe0 = \<lparr>tf_eax = 0, tf_es = 0, tf_ds = 0, tf_trapno = 0, tf_err = 0, tf_eip = 0, tf_cs = 0,
     tf_eflags = 0, tf_esp = 0, tf_ss = 0\<rparr>"

definition pipe0 :: pipe_t where
  "pipe0 = \<lparr>pi_data = (\<lambda>_. 0), pi_nread = 0, pi_nwrite = 0, pi_readopen = False, pi_writeopen = False\<rparr>"

definition proc0 :: proc where
  "proc0 = \<lparr>p_sz = 0, p_pgdir = 0, p_kstack = 0, p_state = UNUSED, p_pid = 0, p_parent = None, p_chan = None,
     p_killed = False, p_ofile = (\<lambda>_. None), p_cwd = None, p_tf = trapframe0,
     p_name = replicate 16 0, p_nsproxy = None,
     p_child_pid_namespace = None, p_pids = (\<lambda>_. \<lparr>pe_pid_ns = None, pe_pid = 0\<rparr>),
     p_exit_state = 0\<rparr>"

definition kstate0 :: "(nat \<Rightarrow> nat \<Rightarrow> u8 list) \<Rightarrow> kstate" where
  "kstate0 drives = \<lparr>held = [], curproc = 0, ptable = (\<lambda>_. proc0), initproc = None, nextpid = 1,
     nstable = (\<lambda>_. \<lparr>ns_count = 0, ns_pid_ns = None\<rparr>), pid_ns_table = (\<lambda>_. pid_namespace0),
     bufs = (\<lambda>_. buf0), idequeue = [], havedisk1 = True, ide_err = False,
     disk = drives, dtrace = [], sb = superblock0, log = log0, loop_log = log0,
     is_loop_mounted = False, icache = (\<lambda>_. inode0),
     loopdevtable = (\<lambda>_. \<lparr>ld_used = False, ld_ip = None\<rparr>),
     gmnttable = (\<lambda>_. mntent0), pmntlist = None, prootmnt = None, ftable = (\<lambda>_. file0),
     devsw_read = (\<lambda>_. None), devsw_write = (\<lambda>_. None), input_buf = (\<lambda>_. 0),
     input_r = 0, input_w = 0, input_e = 0, uart_out = [], crt = (\<lambda>_. 0), crt_pos = 0, cons_locking = False,
     ticks = 0, mem = (\<lambda>_. 0), freelist = 0, use_lock = False, kend = 0x80115000, kdata = 0x80108000,
     kpgdir = 0, pipes = (\<lambda>_. pipe0)\<rparr>"

subsection \<open>Field access\<close>

text \<open>\<open>upd_buf b f\<close> is an assignment to fields of \<^verbatim>\<open>*b\<close>, and so on for the other tables.\<close>

definition upd_buf :: "nat \<Rightarrow> (buf \<Rightarrow> buf) \<Rightarrow> unit kM" where
  "upd_buf b f = modify (\<lambda>s. s\<lparr>bufs := (bufs s)(b := f (bufs s b))\<rparr>)"

definition upd_inode :: "nat \<Rightarrow> (inode \<Rightarrow> inode) \<Rightarrow> unit kM" where
  "upd_inode ip f = modify (\<lambda>s. s\<lparr>icache := (icache s)(ip := f (icache s ip))\<rparr>)"

definition upd_proc :: "nat \<Rightarrow> (proc \<Rightarrow> proc) \<Rightarrow> unit kM" where
  "upd_proc p f = modify (\<lambda>s. s\<lparr>ptable := (ptable s)(p := f (ptable s p))\<rparr>)"

definition upd_mnt :: "nat \<Rightarrow> (mntent \<Rightarrow> mntent) \<Rightarrow> unit kM" where
  "upd_mnt m f = modify (\<lambda>s. s\<lparr>gmnttable := (gmnttable s)(m := f (gmnttable s m))\<rparr>)"

definition upd_loopdev :: "nat \<Rightarrow> (loopdev \<Rightarrow> loopdev) \<Rightarrow> unit kM" where
  "upd_loopdev i f = modify (\<lambda>s. s\<lparr>loopdevtable := (loopdevtable s)(i := f (loopdevtable s i))\<rparr>)"

definition upd_file :: "nat \<Rightarrow> (file_t \<Rightarrow> file_t) \<Rightarrow> unit kM" where
  "upd_file i f = modify (\<lambda>s. s\<lparr>ftable := (ftable s)(i := f (ftable s i))\<rparr>)"

definition upd_pipe :: "nat \<Rightarrow> (pipe_t \<Rightarrow> pipe_t) \<Rightarrow> unit kM" where
  "upd_pipe i f = modify (\<lambda>s. s\<lparr>pipes := (pipes s)(i := f (pipes s i))\<rparr>)"

definition upd_ns :: "nat \<Rightarrow> (nsproxy \<Rightarrow> nsproxy) \<Rightarrow> unit kM" where
  "upd_ns i f = modify (\<lambda>s. s\<lparr>nstable := (nstable s)(i := f (nstable s i))\<rparr>)"

definition upd_pid_ns :: "nat \<Rightarrow> (pid_namespace \<Rightarrow> pid_namespace) \<Rightarrow> unit kM" where
  "upd_pid_ns i f = modify (\<lambda>s. s\<lparr>pid_ns_table := (pid_ns_table s)(i := f (pid_ns_table s i))\<rparr>)"

lemmas upd_defs [simp, mon] =
  upd_buf_def upd_inode_def upd_proc_def upd_mnt_def upd_loopdev_def upd_file_def
  upd_pipe_def upd_ns_def upd_pid_ns_def

text \<open>\<^verbatim>\<open>myproc()\<close>: the process running on this CPU.\<close>

definition myproc :: "nat kM" where
  "myproc = gets curproc"

lemma myproc_run [simp, mon]: "myproc s = Ret (curproc s) s"
  by (simp add: myproc_def)

text \<open>
  Following a pointer that the code does not check: defined behaviour only if it is not null.
\<close>

definition deref :: "'p option \<Rightarrow> 'p kM" where
  "deref p = (case p of None \<Rightarrow> fault ''null pointer'' | Some x \<Rightarrow> ret x)"

lemma deref_Some [simp, mon]: "deref (Some x) s = Ret x s"
  by (simp add: deref_def)

lemma deref_None [simp, mon]: "deref None s = Fault ''null pointer''"
  by (simp add: deref_def)

end
