(* ===== verification/Locks.thy ===== *)
theory Locks
  imports Kstate
begin

text \<open>
  Locks and sleeping, as one CPU sees them (\<^verbatim>\<open>spinlock.c\<close>, \<^verbatim>\<open>sleeplock.c\<close> and the
  sleep/wakeup part of \<^verbatim>\<open>proc.c\<close>).

  A run of kernel code is followed on one CPU from its start to its return or to the point
  where it gives up the CPU. Spinning on a lock that another CPU holds delays such a run but
  does not change what it does, so \<open>acquire\<close> only pushes the lock on \<open>held\<close>; the two checks
  that can panic (acquiring a lock twice, releasing a lock not held) are kept. A call of
  \<open>sleep\<close> ends the run with the outcome \<open>Sleep\<close> in the state in which the process is parked
  (state \<open>SLEEPING\<close>, channel set, the lock given back and \<^verbatim>\<open>ptable.lock\<close> left to the
  scheduler); when the process is woken it starts again at the test of its waiting loop.
\<close>

subsection \<open>Spin locks\<close>

definition acquire :: "lockid \<Rightarrow> unit kM" where
  "acquire lk =
     bind (gets held) (\<lambda>h.
     bind (panic_if (lk \<in> set h) ''acquire'') (\<lambda>_.
     modify (\<lambda>s. s\<lparr>held := lk # held s\<rparr>)))"

definition release :: "lockid \<Rightarrow> unit kM" where
  "release lk =
     bind (gets held) (\<lambda>h.
     bind (panic_if (lk \<notin> set h) ''release'') (\<lambda>_.
     modify (\<lambda>s. s\<lparr>held := remove1 lk (held s)\<rparr>)))"

lemma acquire_run [simp, mon]:
  "acquire lk s = (if lk \<in> set (held s) then Panic ''acquire'' else Ret () (s\<lparr>held := lk # held s\<rparr>))"
  by (simp add: acquire_def)

lemma release_run [simp, mon]:
  "release lk s = (if lk \<in> set (held s) then Ret () (s\<lparr>held := remove1 lk (held s)\<rparr>) else Panic ''release'')"
  by (simp add: release_def)

lemma wp_acquire [wpsimps]:
  "wp (acquire lk) Q s = (lk \<notin> set (held s) \<and> Q () (s\<lparr>held := lk # held s\<rparr>))"
  by (simp add: wp_def)

lemma wp_release [wpsimps]:
  "wp (release lk) Q s = (lk \<in> set (held s) \<and> Q () (s\<lparr>held := remove1 lk (held s)\<rparr>))"
  by (simp add: wp_def)

lemma wlp_acquire [wpsimps]:
  "wlp (acquire lk) Q s = (lk \<notin> set (held s) \<longrightarrow> Q () (s\<lparr>held := lk # held s\<rparr>))"
  by (simp add: wlp_def)

lemma wlp_release [wpsimps]:
  "wlp (release lk) Q s = (lk \<in> set (held s) \<longrightarrow> Q () (s\<lparr>held := remove1 lk (held s)\<rparr>))"
  by (simp add: wlp_def)

subsection \<open>Sleep and wakeup\<close>

definition wake_proc :: "chan \<Rightarrow> proc \<Rightarrow> proc" where
  "wake_proc c p = (if p_state p = SLEEPING \<and> p_chan p = Some c then p\<lparr>p_state := RUNNABLE\<rparr> else p)"

definition wake_tab :: "chan \<Rightarrow> (nat \<Rightarrow> proc) \<Rightarrow> nat \<Rightarrow> proc" where
  "wake_tab c t i = (if i < NPROC then wake_proc c (t i) else t i)"

definition wakeup1 :: "chan \<Rightarrow> unit kM" where
  "wakeup1 c = modify (\<lambda>s. s\<lparr>ptable := wake_tab c (ptable s)\<rparr>)"

definition wakeup :: "chan \<Rightarrow> unit kM" where
  "wakeup c =
     bind (acquire Lk_ptable) (\<lambda>_.
     bind (wakeup1 c) (\<lambda>_.
     release Lk_ptable))"

text \<open>
  The interrupt flag \<^verbatim>\<open>readeflags() & FL_IF\<close>: \<^verbatim>\<open>acquire\<close> turns interrupts off and the release of the last lock turns them on again
  (\<^verbatim>\<open>pushcli\<close>, \<^verbatim>\<open>popcli\<close>), so they are on when the CPU holds no lock.
\<close>

definition intr_on :: "kstate \<Rightarrow> bool" where
  "intr_on s \<longleftrightarrow> held s = []"

text \<open>
  \<^verbatim>\<open>sched()\<close>: the checks before the switch to the scheduler. The scheduler side releases
  \<^verbatim>\<open>ptable.lock\<close>, so the parked state holds no lock.
\<close>

definition sched :: "chan \<Rightarrow> 'a kM" where
  "sched c =
     bind (gets held) (\<lambda>h.
     bind (panic_if (Lk_ptable \<notin> set h) ''sched ptable.lock'') (\<lambda>_.
     bind (panic_if (length h \<noteq> 1) ''sched locks'') (\<lambda>_.
     bind myproc (\<lambda>p.
     bind (gets (\<lambda>s. p_state (ptable s p))) (\<lambda>st.
     bind (panic_if (st = RUNNING) ''sched running'') (\<lambda>_.
     bind (gets intr_on) (\<lambda>on.
     bind (panic_if on ''sched interruptible'') (\<lambda>_.
     bind (modify (\<lambda>s. s\<lparr>held := []\<rparr>)) (\<lambda>_.
     park c)))))))))"

text \<open>
  \<^verbatim>\<open>sleep()\<close> up to the switch. There is always a current process and a lock here, so the panics on a null process or lock have no counterpart; what follows the
  switch is the caller's loop, which starts again.
\<close>

definition sleep :: "chan \<Rightarrow> lockid \<Rightarrow> 'a kM" where
  "sleep c lk =
     bind myproc (\<lambda>p.
     bind (when_do (lk \<noteq> Lk_ptable)
             (bind (acquire Lk_ptable) (\<lambda>_. release lk))) (\<lambda>_.
     bind (upd_proc p (\<lambda>q. q\<lparr>p_chan := Some c, p_state := SLEEPING\<rparr>)) (\<lambda>_.
     sched c)))"

definition wake :: "chan \<Rightarrow> kstate \<Rightarrow> kstate" where
  "wake c s = s\<lparr>ptable := wake_tab c (ptable s)\<rparr>"

lemma wakeup1_run [simp, mon]: "wakeup1 c s = Ret () (wake c s)"
  by (simp add: wakeup1_def wake_def)

lemma wakeup_run [simp, mon]:
  "Lk_ptable \<notin> set (held s) \<Longrightarrow> wakeup c s = Ret () (wake c s)"
  by (simp add: wakeup_def wake_def)

lemma wake_proc_fields [simp]:
  "p_pid (wake_proc c p) = p_pid p" "p_killed (wake_proc c p) = p_killed p"
  "p_cwd (wake_proc c p) = p_cwd p" "p_ofile (wake_proc c p) = p_ofile p"
  "p_parent (wake_proc c p) = p_parent p" "p_pids (wake_proc c p) = p_pids p"
  "p_nsproxy (wake_proc c p) = p_nsproxy p"
  "p_child_pid_namespace (wake_proc c p) = p_child_pid_namespace p"
  "p_sz (wake_proc c p) = p_sz p" "p_chan (wake_proc c p) = p_chan p"
  "p_exit_state (wake_proc c p) = p_exit_state p"
  by (simp_all add: wake_proc_def)

lemma wake_simps [simp]:
  "held (wake c s) = held s" "curproc (wake c s) = curproc s" "bufs (wake c s) = bufs s"
  "disk (wake c s) = disk s" "dtrace (wake c s) = dtrace s" "log (wake c s) = log s"
  "loop_log (wake c s) = loop_log s" "icache (wake c s) = icache s" "sb (wake c s) = sb s"
  "idequeue (wake c s) = idequeue s" "havedisk1 (wake c s) = havedisk1 s"
  "ide_err (wake c s) = ide_err s" "is_loop_mounted (wake c s) = is_loop_mounted s"
  "loopdevtable (wake c s) = loopdevtable s" "gmnttable (wake c s) = gmnttable s"
  "pmntlist (wake c s) = pmntlist s" "ftable (wake c s) = ftable s"
  "nstable (wake c s) = nstable s" "pid_ns_table (wake c s) = pid_ns_table s"
  "initproc (wake c s) = initproc s" "prootmnt (wake c s) = prootmnt s"
  by (simp_all add: wake_def)

lemma ptable_wake [simp]:
  "p_pid (ptable (wake c s) p) = p_pid (ptable s p)"
  "p_killed (ptable (wake c s) p) = p_killed (ptable s p)"
  "p_cwd (ptable (wake c s) p) = p_cwd (ptable s p)"
  "p_ofile (ptable (wake c s) p) = p_ofile (ptable s p)"
  "p_parent (ptable (wake c s) p) = p_parent (ptable s p)"
  "p_pids (ptable (wake c s) p) = p_pids (ptable s p)"
  "p_nsproxy (ptable (wake c s) p) = p_nsproxy (ptable s p)"
  "p_child_pid_namespace (ptable (wake c s) p) = p_child_pid_namespace (ptable s p)"
  by (simp_all add: wake_def wake_tab_def)

text \<open>
  A sleeper never loses the lock it hands over: it parks holding no spin lock, and only if the
  lock it gave up was the only one it held.
\<close>

lemma sleep_run:
  assumes "held s = [lk]"
  shows "sleep c lk s =
     Sleep c (s\<lparr>ptable := (ptable s)(curproc s := (ptable s (curproc s))
                 \<lparr>p_chan := Some c, p_state := SLEEPING\<rparr>), held := []\<rparr>)"
  using assms by (cases "lk = Lk_ptable") (simp_all add: sleep_def sched_def intr_on_def)

lemma wp_sleep [wpsimps]: "wp (sleep c lk) Q s = False"
  by (simp add: wp_def sleep_def sched_def bind_def split: outcome.splits)

lemma wlp_sleep [wpsimps]: "wlp (sleep c lk) Q s"
  by (simp add: wlp_def sleep_def sched_def bind_def split: outcome.splits)

subsection \<open>Sleep locks\<close>

fun get_sl :: "slref \<Rightarrow> kstate \<Rightarrow> sleeplock" where
  "get_sl (SlBuf b) s = b_lock (bufs s b)"
| "get_sl (SlInode i) s = i_lock (icache s i)"

fun set_sl :: "slref \<Rightarrow> sleeplock \<Rightarrow> kstate \<Rightarrow> kstate" where
  "set_sl (SlBuf b) l s = s\<lparr>bufs := (bufs s)(b := (bufs s b)\<lparr>b_lock := l\<rparr>)\<rparr>"
| "set_sl (SlInode i) l s = s\<lparr>icache := (icache s)(i := (icache s i)\<lparr>i_lock := l\<rparr>)\<rparr>"

definition initsleeplock :: "slref \<Rightarrow> unit kM" where
  "initsleeplock r = modify (set_sl r \<lparr>sl_locked = False, sl_pid = 0\<rparr>)"

definition acquiresleep :: "slref \<Rightarrow> unit kM" where
  "acquiresleep r =
     bind (acquire (Lk_sleeplk r)) (\<lambda>_.
     bind (gets (get_sl r)) (\<lambda>l.
     if sl_locked l then sleep (Ch_sleeplock r) (Lk_sleeplk r)
     else
       bind (gets (\<lambda>s. p_pid (ptable s (curproc s)))) (\<lambda>pid.
       bind (modify (set_sl r \<lparr>sl_locked = True, sl_pid = pid\<rparr>)) (\<lambda>_.
       release (Lk_sleeplk r)))))"

definition releasesleep :: "slref \<Rightarrow> unit kM" where
  "releasesleep r =
     bind (acquire (Lk_sleeplk r)) (\<lambda>_.
     bind (modify (set_sl r \<lparr>sl_locked = False, sl_pid = 0\<rparr>)) (\<lambda>_.
     bind (wakeup (Ch_sleeplock r)) (\<lambda>_.
     release (Lk_sleeplk r))))"

definition holdingsleep :: "slref \<Rightarrow> bool kM" where
  "holdingsleep r =
     bind (acquire (Lk_sleeplk r)) (\<lambda>_.
     bind (gets (\<lambda>s. sl_locked (get_sl r s) \<and> sl_pid (get_sl r s) = p_pid (ptable s (curproc s)))) (\<lambda>b.
     bind (release (Lk_sleeplk r)) (\<lambda>_.
     ret b)))"

lemma get_sl_held [simp]: "get_sl r (s\<lparr>held := h\<rparr>) = get_sl r s"
  by (cases r) simp_all

lemma set_sl_held: "set_sl r l (s\<lparr>held := h\<rparr>) = (set_sl r l s)\<lparr>held := h\<rparr>"
  by (cases r) simp_all

lemma set_sl_simps [simp]:
  "held (set_sl r l s) = held s" "curproc (set_sl r l s) = curproc s"
  "ptable (set_sl r l s) = ptable s"
  by (cases r; simp)+

lemma held_triv [simp]: "held s = h \<Longrightarrow> s\<lparr>held := h\<rparr> = s"
  by simp

lemma idequeue_triv [simp]: "idequeue s = q \<Longrightarrow> s\<lparr>idequeue := q\<rparr> = s"
  by simp

lemma b_dirty_triv [simp]: "b_dirty bf = x \<Longrightarrow> bf\<lparr>b_dirty := x\<rparr> = bf"
  by simp

text \<open>The lock word the holder writes: locked, with the holder's pid.\<close>

definition mylock :: "kstate \<Rightarrow> sleeplock" where
  "mylock s = \<lparr>sl_locked = True, sl_pid = p_pid (ptable s (curproc s))\<rparr>"

abbreviation unlocked :: sleeplock where
  "unlocked \<equiv> \<lparr>sl_locked = False, sl_pid = 0\<rparr>"

lemma acquiresleep_free [simp, mon]:
  assumes "Lk_sleeplk r \<notin> set (held s)" and "\<not> sl_locked (get_sl r s)"
  shows "acquiresleep r s = Ret () (set_sl r (mylock s) s)"
  using assms by (simp add: acquiresleep_def mylock_def set_sl_held)

lemma acquiresleep_busy:
  assumes "held s = []" and "sl_locked (get_sl r s)"
  shows "acquiresleep r s =
     Sleep (Ch_sleeplock r) (s\<lparr>ptable := (ptable s)(curproc s := (ptable s (curproc s))
                 \<lparr>p_chan := Some (Ch_sleeplock r), p_state := SLEEPING\<rparr>)\<rparr>)"
  using assms by (simp add: acquiresleep_def sleep_run)

lemma wake_held: "wake c (s\<lparr>held := h\<rparr>) = (wake c s)\<lparr>held := h\<rparr>"
  by (simp add: wake_def)

lemma releasesleep_run [simp, mon]:
  assumes "Lk_sleeplk r \<notin> set (held s)" and "Lk_ptable \<notin> set (held s)"
  shows "releasesleep r s = Ret () (wake (Ch_sleeplock r) (set_sl r unlocked s))"
  using assms by (simp add: releasesleep_def set_sl_held wake_held)

lemma holdingsleep_run [simp, mon]:
  assumes "Lk_sleeplk r \<notin> set (held s)"
  shows "holdingsleep r s =
     Ret (sl_locked (get_sl r s) \<and> sl_pid (get_sl r s) = p_pid (ptable s (curproc s))) s"
  using assms by (simp add: holdingsleep_def)

end
