(* ===== verification/Ide.thy ===== *)
theory Ide
  imports Locks
begin

text \<open>
  The disk driver \<^verbatim>\<open>ide.c\<close>. The queue of buffers chained through \<^verbatim>\<open>qnext\<close> is the list
  \<open>idequeue\<close>; its head is the request the controller works on. Programming the controller
  with a write command transfers the buffer to the sector at once (\<^verbatim>\<open>outsl\<close>); a read
  command transfers the sector when the completion interrupt is handled (\<^verbatim>\<open>insl\<close>), unless
  the controller reports an error then (\<open>ide_err\<close>). The drive is the low bit of the device
  number, and a block is one sector.

  A process that waits in \<open>iderw\<close> sleeps until the interrupt for its buffer; \<open>ide_wait\<close> lets
  the interrupts of the requests queued so far happen, one after the other, during that sleep.
\<close>

definition sector_of :: "buf \<Rightarrow> nat \<times> nat" where
  "sector_of bf = (unat (b_dev bf AND 1), unat (b_blockno bf))"

definition write_sector :: "nat \<Rightarrow> nat \<Rightarrow> u8 list \<Rightarrow> kstate \<Rightarrow> kstate" where
  "write_sector d n x s =
     s\<lparr>disk := (disk s)(d := (disk s d)(n := x)), dtrace := dtrace s @ [(d, n, x)]\<rparr>"

definition idestart :: "nat \<Rightarrow> unit kM" where
  "idestart b =
     bind (gets (\<lambda>s. bufs s b)) (\<lambda>bf.
     bind (panic_if (FSSIZE \<le> unat (b_blockno bf)) ''incorrect blockno'') (\<lambda>_.
     when_do (b_dirty bf)
       (modify (write_sector (fst (sector_of bf)) (snd (sector_of bf)) (b_data bf)))))"

definition ideintr :: "unit kM" where
  "ideintr =
     bind (acquire Lk_ide) (\<lambda>_.
     bind (gets idequeue) (\<lambda>q.
     case q of
       [] \<Rightarrow> release Lk_ide
     | b # q' \<Rightarrow>
         bind (modify (\<lambda>s. s\<lparr>idequeue := q'\<rparr>)) (\<lambda>_.
         bind (gets (\<lambda>s. bufs s b)) (\<lambda>bf.
         bind (gets ide_err) (\<lambda>err.
         bind (gets (\<lambda>s. disk s (fst (sector_of bf)) (snd (sector_of bf)))) (\<lambda>x.
         bind (when_do (\<not> b_dirty bf \<and> \<not> err) (upd_buf b (\<lambda>bf. bf\<lparr>b_data := x\<rparr>))) (\<lambda>_.
         bind (upd_buf b (\<lambda>bf. bf\<lparr>b_valid := True, b_dirty := False\<rparr>)) (\<lambda>_.
         bind (wakeup (Ch_buf b)) (\<lambda>_.
         bind (case q' of [] \<Rightarrow> ret () | b' # _ \<Rightarrow> idestart b') (\<lambda>_.
         release Lk_ide))))))))))"

primrec ide_wait :: "nat \<Rightarrow> nat \<Rightarrow> unit kM" where
  "ide_wait 0 b =
     bind (gets (\<lambda>s. b_valid (bufs s b) \<and> \<not> b_dirty (bufs s b))) (\<lambda>done.
     if done then ret () else sleep (Ch_buf b) Lk_ide)"
| "ide_wait (Suc n) b =
     bind (gets (\<lambda>s. b_valid (bufs s b) \<and> \<not> b_dirty (bufs s b))) (\<lambda>done.
     if done then ret ()
     else
       bind (release Lk_ide) (\<lambda>_.
       bind ideintr (\<lambda>_.
       bind (acquire Lk_ide) (\<lambda>_.
       ide_wait n b))))"

definition iderw :: "nat \<Rightarrow> unit kM" where
  "iderw b =
     bind (holdingsleep (SlBuf b)) (\<lambda>h.
     bind (panic_if (\<not> h) ''iderw: buf not locked'') (\<lambda>_.
     bind (gets (\<lambda>s. bufs s b)) (\<lambda>bf.
     bind (panic_if (b_valid bf \<and> \<not> b_dirty bf) ''iderw: nothing to do'') (\<lambda>_.
     bind (gets havedisk1) (\<lambda>hd1.
     bind (panic_if (b_dev bf \<noteq> 0 \<and> \<not> hd1) ''iderw: ide disk 1 not present'') (\<lambda>_.
     bind (acquire Lk_ide) (\<lambda>_.
     bind (modify (\<lambda>s. s\<lparr>idequeue := idequeue s @ [b]\<rparr>)) (\<lambda>_.
     bind (gets idequeue) (\<lambda>q.
     bind (when_do (hd q = b) (idestart b)) (\<lambda>_.
     bind (ide_wait (length q) b) (\<lambda>_.
     release Lk_ide)))))))))))"

subsection \<open>One request at a time\<close>

text \<open>The sector that backs block \<open>bn\<close> of device \<open>dev\<close>.\<close>

definition dsk :: "kstate \<Rightarrow> u32 \<Rightarrow> u32 \<Rightarrow> u8 list" where
  "dsk s dev bn = disk s (unat (dev AND 1)) (unat bn)"

text \<open>What \<open>iderw\<close> needs of the machine: no spin lock held, no request pending, the drive
  present and no error reported.\<close>

definition ide_ready :: "kstate \<Rightarrow> bool" where
  "ide_ready s \<longleftrightarrow> held s = [] \<and> idequeue s = [] \<and> havedisk1 s \<and> \<not> ide_err s"

definition my_buf :: "kstate \<Rightarrow> nat \<Rightarrow> bool" where
  "my_buf s b \<longleftrightarrow> b_lock (bufs s b) = mylock s"

lemma my_bufD [simp]:
  "my_buf s b \<Longrightarrow> sl_locked (b_lock (bufs s b))"
  "my_buf s b \<Longrightarrow> sl_pid (b_lock (bufs s b)) = p_pid (ptable s (curproc s))"
  by (simp_all add: my_buf_def mylock_def)

lemma iderw_read:
  assumes "ide_ready s" and "my_buf s b" and "\<not> b_valid (bufs s b)" and "\<not> b_dirty (bufs s b)"
    and "unat (b_blockno (bufs s b)) < FSSIZE"
  shows "iderw b s = Ret () (wake (Ch_buf b) (s\<lparr>bufs := (bufs s)(b := (bufs s b)
      \<lparr>b_data := dsk s (b_dev (bufs s b)) (b_blockno (bufs s b)), b_valid := True\<rparr>)\<rparr>))"
  using assms unfolding ide_ready_def
  by (simp add: iderw_def idestart_def ideintr_def sector_of_def dsk_def wake_held
      wake_def)

lemma iderw_write:
  assumes "ide_ready s" and "my_buf s b" and "b_dirty (bufs s b)"
    and "unat (b_blockno (bufs s b)) < FSSIZE"
  shows "iderw b s = Ret () (wake (Ch_buf b)
      (write_sector (unat (b_dev (bufs s b) AND 1)) (unat (b_blockno (bufs s b))) (b_data (bufs s b))
        (s\<lparr>bufs := (bufs s)(b := (bufs s b)\<lparr>b_valid := True, b_dirty := False\<rparr>)\<rparr>)))"
  using assms unfolding ide_ready_def
  by (simp add: iderw_def idestart_def ideintr_def sector_of_def write_sector_def wake_held
      wake_def)

lemma iderw_range:
  assumes "ide_ready s" and "my_buf s b" and "\<not> (b_valid (bufs s b) \<and> \<not> b_dirty (bufs s b))"
    and "FSSIZE \<le> unat (b_blockno (bufs s b))"
  shows "iderw b s = Panic ''incorrect blockno''"
  using assms unfolding ide_ready_def
  by (auto simp add: iderw_def idestart_def)

text \<open>
  A read that the controller fails leaves the buffer's bytes as they were, and marks them valid.
\<close>

lemma iderw_read_error:
  assumes "held s = []" "idequeue s = []" "havedisk1 s" "ide_err s" and "my_buf s b"
    and "\<not> b_valid (bufs s b)" and "\<not> b_dirty (bufs s b)" and "unat (b_blockno (bufs s b)) < FSSIZE"
  shows "iderw b s = Ret () (wake (Ch_buf b) (s\<lparr>bufs := (bufs s)(b := (bufs s b)\<lparr>b_valid := True\<rparr>)\<rparr>))"
  using assms
  by (simp add: iderw_def idestart_def ideintr_def sector_of_def wake_held wake_def)

end
