(* ===== verification/Bio.thy ===== *)
theory Bio
  imports Ide
begin

text \<open>
  The buffer cache \<^verbatim>\<open>bio.c\<close>: a ring of buffers, doubly linked through \<open>b_prev\<close> and
  \<open>b_next\<close> with the list head at index \<open>NBUF\<close>, most recently used first.

  \<^verbatim>\<open>bio.c\<close> and the layers above it call each other: reading a block of a loop device reads
  the file behind the device, which reads blocks of the disk. The operations here therefore
  take the two upward calls as arguments: \<open>lr\<close> stands for \<^verbatim>\<open>loopdev_read\<close> and \<open>lw\<close> for
  \<^verbatim>\<open>loopdev_write\<close>; theory \<open>Loopdev\<close> ties the knot.

  The pointer manipulations are related to lists: \<open>ring bs xs\<close> says that following
  \<open>b_next\<close> from the head visits exactly the buffers \<open>xs\<close> and following \<open>b_prev\<close> visits them
  backwards. Scans of the ring are bounded by \<open>NBUF + 1\<close> steps, which \<open>ring\<close> shows to be
  enough. The invariant \<open>cache_ok\<close> adds that a block is cached at most once and that clean
  unlocked buffers agree with the disk; \<open>cview\<close> is the content of a block as the rest of the
  kernel sees it.
\<close>

subsection \<open>Operations\<close>

definition isloopdev :: "u32 \<Rightarrow> bool" where
  "isloopdev devno \<longleftrightarrow> drop_bit 5 devno AND 1 \<noteq> 0"

definition set_next :: "nat \<Rightarrow> nat \<Rightarrow> unit kM" where
  "set_next b n = upd_buf b (\<lambda>bf. bf\<lparr>b_next := n\<rparr>)"

definition set_prev :: "nat \<Rightarrow> nat \<Rightarrow> unit kM" where
  "set_prev b n = upd_buf b (\<lambda>bf. bf\<lparr>b_prev := n\<rparr>)"

text \<open>
  Link \<open>b\<close> in behind the head: the four assignments that end \<^verbatim>\<open>brelse\<close> and make up the body
  of the loop in \<^verbatim>\<open>binit\<close>.
\<close>

definition link_front :: "nat \<Rightarrow> unit kM" where
  "link_front b =
     bind (gets (\<lambda>s. b_next (bufs s NBUF))) (\<lambda>n.
     bind (set_next b n) (\<lambda>_.
     bind (set_prev b NBUF) (\<lambda>_.
     bind (gets (\<lambda>s. b_next (bufs s NBUF))) (\<lambda>n.
     bind (set_prev n b) (\<lambda>_.
     set_next NBUF b)))))"

primrec binit_loop :: "nat list \<Rightarrow> unit kM" where
  "binit_loop [] = ret ()"
| "binit_loop (b # bl) =
     bind (link_front b) (\<lambda>_.
     bind (upd_buf b (\<lambda>bf. bf\<lparr>b_lock := unlocked\<rparr>)) (\<lambda>_.
     binit_loop bl))"

definition binit :: "unit kM" where
  "binit =
     bind (set_prev NBUF NBUF) (\<lambda>_.
     bind (set_next NBUF NBUF) (\<lambda>_.
     binit_loop [0..<NBUF]))"

text \<open>A \<^verbatim>\<open>for\<close> loop over the ring: the first buffer from \<open>b\<close> on that satisfies \<open>P\<close>.\<close>

primrec bscan :: "nat \<Rightarrow> (buf \<Rightarrow> nat) \<Rightarrow> (buf \<Rightarrow> bool) \<Rightarrow> nat \<Rightarrow> nat option kM" where
  "bscan 0 nxt P b = fault ''buffer list does not end''"
| "bscan (Suc k) nxt P b =
     bind (gets (\<lambda>s. bufs s b)) (\<lambda>bf.
     if b = NBUF then ret None
     else if P bf then ret (Some b)
     else bscan k nxt P (nxt bf))"

definition bget :: "u32 \<Rightarrow> u32 \<Rightarrow> nat kM" where
  "bget dev blockno =
     bind (acquire Lk_bcache) (\<lambda>_.
     bind (gets (\<lambda>s. b_next (bufs s NBUF))) (\<lambda>first.
     bind (bscan (Suc NBUF) b_next (\<lambda>bf. b_dev bf = dev \<and> b_blockno bf = blockno) first) (\<lambda>hit.
     case hit of
       Some b \<Rightarrow>
         bind (upd_buf b (\<lambda>bf. bf\<lparr>b_refcnt := b_refcnt bf + 1\<rparr>)) (\<lambda>_.
         bind (release Lk_bcache) (\<lambda>_.
         bind (acquiresleep (SlBuf b)) (\<lambda>_.
         ret b)))
     | None \<Rightarrow>
         bind (gets (\<lambda>s. b_prev (bufs s NBUF))) (\<lambda>last.
         bind (bscan (Suc NBUF) b_prev (\<lambda>bf. b_refcnt bf = 0 \<and> \<not> b_dirty bf) last) (\<lambda>victim.
         case victim of
           Some b \<Rightarrow>
             bind (upd_buf b (\<lambda>bf. bf\<lparr>b_dev := dev, b_blockno := blockno,
                                      b_valid := False, b_dirty := False, b_refcnt := 1\<rparr>)) (\<lambda>_.
             bind (release Lk_bcache) (\<lambda>_.
             bind (acquiresleep (SlBuf b)) (\<lambda>_.
             ret b)))
         | None \<Rightarrow> panic ''bget: no buffers'')))))"

definition bread :: "(nat \<Rightarrow> unit kM) \<Rightarrow> u32 \<Rightarrow> u32 \<Rightarrow> nat kM" where
  "bread lr dev blockno =
     bind (bget dev blockno) (\<lambda>b.
     bind (gets (\<lambda>s. b_valid (bufs s b))) (\<lambda>v.
     bind (when_do (\<not> v) (if isloopdev dev then lr b else iderw b)) (\<lambda>_.
     ret b)))"

definition bwrite :: "(nat \<Rightarrow> unit kM) \<Rightarrow> nat \<Rightarrow> unit kM" where
  "bwrite lw b =
     bind (holdingsleep (SlBuf b)) (\<lambda>h.
     bind (panic_if (\<not> h) ''bwrite'') (\<lambda>_.
     bind (upd_buf b (\<lambda>bf. bf\<lparr>b_dirty := True\<rparr>)) (\<lambda>_.
     bind (gets (\<lambda>s. b_dev (bufs s b))) (\<lambda>dev.
     if isloopdev dev then lw b else iderw b))))"

definition brelse :: "nat \<Rightarrow> unit kM" where
  "brelse b =
     bind (holdingsleep (SlBuf b)) (\<lambda>h.
     bind (panic_if (\<not> h) ''brelse'') (\<lambda>_.
     bind (releasesleep (SlBuf b)) (\<lambda>_.
     bind (acquire Lk_bcache) (\<lambda>_.
     bind (upd_buf b (\<lambda>bf. bf\<lparr>b_refcnt := b_refcnt bf - 1\<rparr>)) (\<lambda>_.
     bind (gets (\<lambda>s. bufs s b)) (\<lambda>bf.
     bind (when_do (b_refcnt bf = 0)
       (bind (set_prev (b_next bf) (b_prev bf)) (\<lambda>_.
        bind (gets (\<lambda>s. bufs s b)) (\<lambda>bf.
        bind (set_next (b_prev bf) (b_next bf)) (\<lambda>_.
        link_front b))))) (\<lambda>_.
     release Lk_bcache)))))))"

subsection \<open>Linked structures\<close>

text \<open>\<open>linked f a xs z\<close>: following \<open>f\<close> from \<open>a\<close> visits \<open>xs\<close> and then arrives at \<open>z\<close>.\<close>

primrec linked :: "(nat \<Rightarrow> nat) \<Rightarrow> nat \<Rightarrow> nat list \<Rightarrow> nat \<Rightarrow> bool" where
  "linked f a [] z \<longleftrightarrow> f a = z"
| "linked f a (x # xs) z \<longleftrightarrow> f a = x \<and> linked f x xs z"

lemma linked_append [simp]:
  "linked f a (xs @ y # ys) z \<longleftrightarrow> linked f a xs y \<and> linked f y ys z"
  by (induction xs arbitrary: a) auto

lemma linked_append_list:
  "linked f a (xs @ ys) z \<longleftrightarrow>
     linked f a xs (case ys of [] \<Rightarrow> z | y # _ \<Rightarrow> y) \<and> (ys \<noteq> [] \<longrightarrow> linked f (hd ys) (tl ys) z)"
  by (cases ys) auto

lemma linked_upd_other:
  "a \<noteq> b \<Longrightarrow> b \<notin> set xs \<Longrightarrow> linked (f(b := v)) a xs z = linked f a xs z"
  by (induction xs arbitrary: a) auto

text \<open>Redirecting the last link of a path.\<close>

lemma linked_redirect:
  assumes "linked f a xs y" and "distinct (a # xs)"
  shows "linked (f(last (a # xs) := z)) a xs z"
  using assms
proof (induction xs arbitrary: a)
  case Nil
  then show ?case by simp
next
  case (Cons x xs)
  have "linked (f(last (x # xs) := z)) x xs z"
    by (rule Cons.IH) (use Cons.prems in auto)
  moreover have "last (x # xs) \<noteq> a"
    using Cons.prems(2) by (metis distinct.simps(2) last_in_set list.distinct(1))
  ultimately show ?case using Cons.prems by (auto simp: fun_upd_def)
qed

definition ring :: "(nat \<Rightarrow> nat) \<Rightarrow> (nat \<Rightarrow> nat) \<Rightarrow> nat list \<Rightarrow> bool" where
  "ring nx pv xs \<longleftrightarrow>
     linked nx NBUF xs NBUF \<and> linked pv NBUF (rev xs) NBUF \<and> distinct xs \<and> NBUF \<notin> set xs"

text \<open>Taking a buffer out of the ring: the two assignments at the start of \<^verbatim>\<open>brelse\<close>'s branch.\<close>

lemma ring_unlink:
  assumes "ring nx pv (ys @ b # zs)"
  shows "ring (nx(pv b := nx b)) (pv(nx b := pv b)) (ys @ zs)"
    and "pv b = last (NBUF # ys)" and "nx b = hd (zs @ [NBUF])"
proof -
  from assms have n: "linked nx NBUF ys b" "linked nx b zs NBUF"
    and p: "linked pv NBUF (rev zs) b" "linked pv b (rev ys) NBUF"
    and d: "distinct (ys @ b # zs)" "NBUF \<notin> set (ys @ b # zs)"
    by (auto simp: ring_def)
  show pb: "pv b = last (NBUF # ys)"
    using p(2) by (cases ys rule: rev_cases) auto
  show nb: "nx b = hd (zs @ [NBUF])"
    using n(2) by (cases zs) auto
  have "linked (nx(last (NBUF # ys) := nx b)) NBUF ys (nx b)"
    by (rule linked_redirect [OF n(1)]) (use d in auto)
  then have 1: "linked (nx(pv b := nx b)) NBUF ys (nx b)" by (simp add: pb)
  have "linked (pv(last (NBUF # rev zs) := pv b)) NBUF (rev zs) (pv b)"
    by (rule linked_redirect [OF p(1)]) (use d in auto)
  moreover have "last (NBUF # rev zs) = nx b"
    by (cases zs) (auto simp: nb)
  ultimately have 2: "linked (pv(nx b := pv b)) NBUF (rev zs) (pv b)" by simp
  have pbz: "pv b \<notin> set zs" using d pb by (cases ys rule: rev_cases) auto
  have nby: "nx b \<notin> set ys" using d nb by (cases zs) auto
  have 3: "linked (nx(pv b := nx b)) NBUF (ys @ zs) NBUF"
  proof (cases zs)
    case Nil
    with 1 nb show ?thesis by simp
  next
    case (Cons z zs')
    with n(2) nb have "linked nx z zs' NBUF" by simp
    with pbz Cons have "linked (nx(pv b := nx b)) z zs' NBUF"
      by (simp add: linked_upd_other)
    with 1 nb Cons show ?thesis by simp
  qed
  have 4: "linked (pv(nx b := pv b)) NBUF (rev (ys @ zs)) NBUF"
  proof (cases ys rule: rev_cases)
    case Nil
    with 2 pb show ?thesis by simp
  next
    case (snoc ys' y)
    with p(2) pb have "linked pv y (rev ys') NBUF" by simp
    with nby snoc have "linked (pv(nx b := pv b)) y (rev ys') NBUF"
      by (simp add: linked_upd_other)
    with 2 pb snoc show ?thesis by simp
  qed
  from 3 4 d show "ring (nx(pv b := nx b)) (pv(nx b := pv b)) (ys @ zs)"
    by (auto simp: ring_def)
qed

text \<open>Linking a buffer in behind the head.\<close>

lemma ring_link_front:
  assumes "ring nx pv xs" and "b \<notin> set xs" and "b \<noteq> NBUF"
  shows "ring (nx(b := nx NBUF, NBUF := b)) (pv(b := NBUF, nx NBUF := b)) (b # xs)"
proof -
  from assms(1) have n: "linked nx NBUF xs NBUF" and p: "linked pv NBUF (rev xs) NBUF"
    and d: "distinct xs" "NBUF \<notin> set xs" by (auto simp: ring_def)
  have "linked (nx(b := nx NBUF, NBUF := b)) b xs NBUF"
    using n d assms(2,3) by (cases xs) (auto simp: linked_upd_other)
  moreover have "linked (pv(b := NBUF, nx NBUF := b)) NBUF (rev xs) b"
  proof (cases xs)
    case Nil
    with n show ?thesis by simp
  next
    case (Cons x xs')
    then have nx: "nx NBUF = x" using n by simp
    have "linked (pv(last (NBUF # rev xs) := b)) NBUF (rev xs) b"
      by (rule linked_redirect [OF p]) (use d in auto)
    then have "linked (pv(x := b)) NBUF (rev xs) b" by (simp add: Cons)
    moreover have "pv(b := NBUF, x := b) = (pv(x := b))(b := NBUF)"
      using assms(2) Cons by (auto simp: fun_upd_twist)
    ultimately show ?thesis
      using assms(2,3) nx linked_upd_other [of NBUF b "rev xs" "pv(x := b)" NBUF b] by simp
  qed
  moreover have "(pv(b := NBUF, nx NBUF := b)) b = NBUF"
    using n assms by (cases xs) auto
  ultimately show ?thesis using d assms by (auto simp: ring_def)
qed

end
