(* ===== verification/Bio_Cache.thy ===== *)
theory Bio_Cache
  imports Bio
begin

text \<open>
  What the buffer cache promises. \<open>lru s xs\<close> relates the ring to the list of buffers, most recently
  used first. The invariant \<open>cache_ok\<close> says that the ring holds every buffer, that a block is
  cached at most once, that a buffer is referred to exactly while it is locked, and that a valid
  buffer of the disk that is neither locked nor waiting for a commit agrees with its sector.
  \<open>cview s bn\<close> is the content of block \<open>bn\<close> of the root disk as the kernel sees it: the cached
  bytes if there are any, else the sector.

  \<open>bread_run\<close>, \<open>bwrite_run\<close> and \<open>brelse_spec\<close> are what the layers above rely on; \<open>bget_hit\<close>,
  \<open>bget_recycle\<close>, \<open>bget_no_buffers\<close> are the branches of \<open>bget\<close>.
\<close>

subsection \<open>The cache invariant and the content of a block\<close>

lemma bscan_run:
  assumes "linked (\<lambda>i. nxt (bufs s i)) a xs NBUF" and "NBUF \<notin> set xs" and "length xs < k"
  shows "bscan k nxt P (nxt (bufs s a)) s = Ret (find (\<lambda>i. P (bufs s i)) xs) s"
  using assms
proof (induction xs arbitrary: a k)
  case Nil
  then show ?case by (cases k) simp_all
next
  case (Cons x xs)
  then obtain k' where "k = Suc k'" by (cases k) auto
  with Cons show ?case by auto
qed

definition lru :: "kstate \<Rightarrow> nat list \<Rightarrow> bool" where
  "lru s xs \<longleftrightarrow> ring (\<lambda>i. b_next (bufs s i)) (\<lambda>i. b_prev (bufs s i)) xs \<and> set xs = {..<NBUF}"

lemma lru_length: "lru s xs \<Longrightarrow> length xs = NBUF"
  using distinct_card [of xs] by (simp add: lru_def ring_def)

lemma bscan_next:
  assumes "lru s xs"
  shows "bscan (Suc NBUF) b_next P (b_next (bufs s NBUF)) s = Ret (find (\<lambda>i. P (bufs s i)) xs) s"
  by (rule bscan_run) (use assms lru_length [OF assms] in \<open>auto simp: lru_def ring_def\<close>)

lemma bscan_prev:
  assumes "lru s xs"
  shows "bscan (Suc NBUF) b_prev P (b_prev (bufs s NBUF)) s = Ret (find (\<lambda>i. P (bufs s i)) (rev xs)) s"
  by (rule bscan_run) (use assms lru_length [OF assms] in \<open>auto simp: lru_def ring_def\<close>)

text \<open>\<open>at bf dev bn\<close>: the buffer is the one for block \<open>bn\<close> of \<open>dev\<close>.\<close>

definition is_for :: "u32 \<Rightarrow> u32 \<Rightarrow> buf \<Rightarrow> bool" where
  "is_for dev bn bf \<longleftrightarrow> b_dev bf = dev \<and> b_blockno bf = bn"

lemma is_for_simps [simp]:
  "is_for dev bn (bf\<lparr>b_refcnt := x1\<rparr>) = is_for dev bn bf"
  "is_for dev bn (bf\<lparr>b_lock := x2\<rparr>) = is_for dev bn bf"
  "is_for dev bn (bf\<lparr>b_data := x3\<rparr>) = is_for dev bn bf"
  "is_for dev bn (bf\<lparr>b_valid := x4\<rparr>) = is_for dev bn bf"
  "is_for dev bn (bf\<lparr>b_dirty := x5\<rparr>) = is_for dev bn bf"
  "is_for dev bn (bf\<lparr>b_next := x6\<rparr>) = is_for dev bn bf"
  "is_for dev bn (bf\<lparr>b_prev := x6\<rparr>) = is_for dev bn bf"
  "is_for dev bn (bf\<lparr>b_dev := dev, b_blockno := bn\<rparr>)"
  by (simp_all add: is_for_def)

lemma is_forD: "is_for dev bn bf \<Longrightarrow> b_dev bf = dev \<and> b_blockno bf = bn"
  by (simp add: is_for_def)

definition buf_ok :: "kstate \<Rightarrow> buf \<Rightarrow> bool" where
  "buf_ok s bf \<longleftrightarrow>
     length (b_data bf) = BSIZE
   \<and> (b_dirty bf \<longrightarrow> b_valid bf)
   \<and> b_refcnt bf = (if sl_locked (b_lock bf) then 1 else 0)
   \<and> (\<not> sl_locked (b_lock bf) \<longrightarrow> b_lock bf = unlocked)
   \<and> (b_dirty bf \<or> sl_locked (b_lock bf) \<longrightarrow> b_dev bf \<noteq> 0)
   \<and> (b_dev bf = ROOTDEV \<and> b_valid bf \<and> \<not> b_dirty bf \<and> \<not> sl_locked (b_lock bf)
        \<longrightarrow> b_data bf = dsk s ROOTDEV (b_blockno bf))"

lemma buf_okD:
  assumes "buf_ok s bf"
  shows "length (b_data bf) = BSIZE" and "b_dirty bf \<Longrightarrow> b_valid bf"
    and "\<not> sl_locked (b_lock bf) \<Longrightarrow> b_refcnt bf = 0" and "sl_locked (b_lock bf) \<Longrightarrow> b_refcnt bf = 1"
    and "b_refcnt bf = 0 \<Longrightarrow> \<not> sl_locked (b_lock bf)"
    and "\<not> sl_locked (b_lock bf) \<Longrightarrow> b_lock bf = unlocked"
    and "b_dirty bf \<or> sl_locked (b_lock bf) \<Longrightarrow> b_dev bf \<noteq> 0"
    and "b_dev bf = ROOTDEV \<Longrightarrow> b_valid bf \<Longrightarrow> \<not> sl_locked (b_lock bf) \<Longrightarrow>
      b_dirty bf \<or> b_data bf = dsk s ROOTDEV (b_blockno bf)"
  using assms unfolding buf_ok_def by (blast, blast, presburger, presburger, fastforce, blast, blast, blast)

lemma buf_ok_cong:
  assumes "b_dev bf = ROOTDEV \<Longrightarrow> dsk t ROOTDEV (b_blockno bf) = dsk s ROOTDEV (b_blockno bf)"
  shows "buf_ok t bf = buf_ok s bf"
  unfolding buf_ok_def by (cases "b_dev bf = ROOTDEV") (simp_all add: assms)

definition cache_ok :: "kstate \<Rightarrow> bool" where
  "cache_ok s \<longleftrightarrow>
     (\<exists>xs. lru s xs)
   \<and> (\<forall>i<NBUF. \<forall>j<NBUF. i \<noteq> j \<and> b_dev (bufs s i) \<noteq> 0 \<longrightarrow>
        \<not> is_for (b_dev (bufs s i)) (b_blockno (bufs s i)) (bufs s j))
   \<and> (\<forall>i<NBUF. buf_ok s (bufs s i))
   \<and> (\<forall>d n. length (disk s d n) = BSIZE)"

definition cview :: "kstate \<Rightarrow> u32 \<Rightarrow> u8 list" where
  "cview s bn = (case find (\<lambda>i. is_for ROOTDEV bn (bufs s i) \<and> b_valid (bufs s i)) [0..<NBUF] of
       Some i \<Rightarrow> b_data (bufs s i)
     | None \<Rightarrow> dsk s ROOTDEV bn)"

lemma cache_ok_unique:
  assumes "cache_ok s" and "i < NBUF" "j < NBUF" and "dev \<noteq> 0"
    and "is_for dev bn (bufs s i)" and "is_for dev bn (bufs s j)"
  shows "i = j"
proof -
  have "i \<noteq> j \<and> b_dev (bufs s i) \<noteq> 0 \<longrightarrow> \<not> is_for (b_dev (bufs s i)) (b_blockno (bufs s i)) (bufs s j)"
    using assms(1-3) unfolding cache_ok_def by blast
  then show ?thesis using assms(4-6) by (auto simp: is_for_def)
qed

lemma cview_hit:
  assumes "cache_ok s" "i < NBUF" "is_for ROOTDEV bn (bufs s i)" "b_valid (bufs s i)"
  shows "cview s bn = b_data (bufs s i)"
proof -
  have "find (\<lambda>i. is_for ROOTDEV bn (bufs s i) \<and> b_valid (bufs s i)) [0..<NBUF] = Some i"
    by (rule find_unique) (use assms in \<open>auto intro: cache_ok_unique [of s _ _ ROOTDEV bn]\<close>)
  then show ?thesis by (simp add: cview_def)
qed

lemma cview_miss:
  assumes "\<And>i. i < NBUF \<Longrightarrow> is_for ROOTDEV bn (bufs s i) \<Longrightarrow> \<not> b_valid (bufs s i)"
  shows "cview s bn = dsk s ROOTDEV bn"
proof -
  have "find (\<lambda>i. is_for ROOTDEV bn (bufs s i) \<and> b_valid (bufs s i)) [0..<NBUF] = None"
    using assms by (auto simp: find_None_iff)
  then show ?thesis by (simp add: cview_def)
qed

lemma length_cview [simp]:
  assumes "cache_ok s"
  shows "length (cview s bn) = BSIZE"
proof (cases "\<exists>i<NBUF. is_for ROOTDEV bn (bufs s i) \<and> b_valid (bufs s i)")
  case True
  then obtain i where i: "i < NBUF" "is_for ROOTDEV bn (bufs s i)" "b_valid (bufs s i)" by auto
  then show ?thesis using assms cview_hit [OF assms i] by (auto simp: cache_ok_def buf_ok_def)
next
  case False
  then have "cview s bn = dsk s ROOTDEV bn" by (intro cview_miss) auto
  then show ?thesis using assms by (simp add: cache_ok_def dsk_def)
qed

lemma cview_cong:
  assumes "\<And>i. i < NBUF \<Longrightarrow> bufs t i = bufs s i" and "dsk t ROOTDEV bn = dsk s ROOTDEV bn"
  shows "cview t bn = cview s bn"
proof -
  have eq: "find (\<lambda>i. is_for ROOTDEV bn (bufs t i) \<and> b_valid (bufs t i)) [0..<NBUF]
      = find (\<lambda>i. is_for ROOTDEV bn (bufs s i) \<and> b_valid (bufs s i)) [0..<NBUF]"
    by (rule find_cong) (use assms in auto)
  show ?thesis
  proof (cases "find (\<lambda>i. is_for ROOTDEV bn (bufs s i) \<and> b_valid (bufs s i)) [0..<NBUF]")
    case None
    then show ?thesis using assms(2) unfolding cview_def eq by simp
  next
    case (Some i)
    then have "i < NBUF" by (auto dest: find_SomeD)
    with Some show ?thesis using assms(1) unfolding cview_def eq by simp
  qed
qed

subsection \<open>bread\<close>

definition same_procs :: "(nat \<Rightarrow> proc) \<Rightarrow> (nat \<Rightarrow> proc) \<Rightarrow> bool" where
  "same_procs pt pt' \<longleftrightarrow> (\<forall>p. (pt' p)\<lparr>p_state := UNUSED\<rparr> = (pt p)\<lparr>p_state := UNUSED\<rparr>)"

lemma same_procs_refl [simp]: "same_procs pt pt"
  by (simp add: same_procs_def)

lemma same_procs_trans:
  assumes "same_procs a b" and "same_procs b c"
  shows "same_procs a c"
  unfolding same_procs_def
proof
  fix p
  show "(c p)\<lparr>p_state := UNUSED\<rparr> = (a p)\<lparr>p_state := UNUSED\<rparr>"
    using assms(2) [unfolded same_procs_def, rule_format, of p]
      assms(1) [unfolded same_procs_def, rule_format, of p] by (rule trans)
qed

lemma same_procs_wake [simp]: "same_procs pt (wake_tab c pt)"
  by (simp add: same_procs_def wake_tab_def wake_proc_def)

lemma same_procsD:
  assumes "same_procs pt pt'"
  shows "p_pid (pt' p) = p_pid (pt p)" "p_killed (pt' p) = p_killed (pt p)"
    "p_cwd (pt' p) = p_cwd (pt p)" "p_ofile (pt' p) = p_ofile (pt p)"
proof -
  have eq: "(pt' p)\<lparr>p_state := UNUSED\<rparr> = (pt p)\<lparr>p_state := UNUSED\<rparr>"
    using assms by (simp add: same_procs_def)
  show "p_pid (pt' p) = p_pid (pt p)" using arg_cong [OF eq, of p_pid] by simp
  show "p_killed (pt' p) = p_killed (pt p)" using arg_cong [OF eq, of p_killed] by simp
  show "p_cwd (pt' p) = p_cwd (pt p)" using arg_cong [OF eq, of p_cwd] by simp
  show "p_ofile (pt' p) = p_ofile (pt p)" using arg_cong [OF eq, of p_ofile] by simp
qed

text \<open>A buffer that can be reused: nobody refers to it and it is not waiting for a commit.\<close>

definition reusable :: "buf \<Rightarrow> bool" where
  "reusable bf \<longleftrightarrow> b_refcnt bf = 0 \<and> \<not> b_dirty bf"

lemma lru_held [simp]: "lru (s\<lparr>held := h\<rparr>) xs = lru s xs"
  by (simp add: lru_def)

lemma cache_ok_lruE:
  assumes "cache_ok s"
  obtains xs where "lru s xs" "set xs = {..<NBUF}"
  using assms by (auto simp: cache_ok_def lru_def)

lemma cache_ok_buf: "cache_ok s \<Longrightarrow> i < NBUF \<Longrightarrow> buf_ok s (bufs s i)"
  by (simp add: cache_ok_def)

lemma bget_hit:
  assumes "cache_ok s" and "held s = []" and "i < NBUF" and "dev \<noteq> 0"
    and "is_for dev bn (bufs s i)" and "\<not> sl_locked (b_lock (bufs s i))"
  shows "bget dev bn s = Ret i (s\<lparr>bufs := (bufs s)(i := (bufs s i)
           \<lparr>b_refcnt := b_refcnt (bufs s i) + 1, b_lock := mylock s\<rparr>)\<rparr>)"
proof -
  obtain xs where xs: "lru s xs" "set xs = {..<NBUF}" by (rule cache_ok_lruE [OF assms(1)])
  have "find (\<lambda>i. b_dev (bufs s i) = dev \<and> b_blockno (bufs s i) = bn) xs = Some i"
    by (rule find_unique)
      (use assms xs cache_ok_unique [OF assms(1) _ _ assms(4), of _ _ bn] in \<open>auto simp: is_for_def\<close>)
  then have "bscan (Suc NBUF) b_next (\<lambda>bf. b_dev bf = dev \<and> b_blockno bf = bn) (b_next (bufs s NBUF))
       (s\<lparr>held := [Lk_bcache]\<rparr>) = Ret (Some i) (s\<lparr>held := [Lk_bcache]\<rparr>)"
    using bscan_next [of "s\<lparr>held := [Lk_bcache]\<rparr>" xs] xs by simp
  then show ?thesis using assms(2,6) by (simp add: bget_def mylock_def)
qed

lemma bget_miss:
  assumes "lru s xs" and "held s = []"
    and miss: "\<And>i. i < NBUF \<Longrightarrow> \<not> is_for dev bn (bufs s i)"
  shows "bget dev bn s =
     (case find (\<lambda>i. reusable (bufs s i)) (rev xs) of
        None \<Rightarrow> Panic ''bget: no buffers''
      | Some v \<Rightarrow>
          bind (acquiresleep (SlBuf v)) (\<lambda>_. ret v)
            (s\<lparr>bufs := (bufs s)(v := (bufs s v)\<lparr>b_dev := dev, b_blockno := bn,
               b_valid := False, b_dirty := False, b_refcnt := 1\<rparr>)\<rparr>))"
proof -
  have "find (\<lambda>i. b_dev (bufs s i) = dev \<and> b_blockno (bufs s i) = bn) xs = None"
    using assms by (auto simp: find_None_iff is_for_def lru_def)
  then have 1: "bscan (Suc NBUF) b_next (\<lambda>bf. b_dev bf = dev \<and> b_blockno bf = bn) (b_next (bufs s NBUF))
       (s\<lparr>held := [Lk_bcache]\<rparr>) = Ret None (s\<lparr>held := [Lk_bcache]\<rparr>)"
    using bscan_next [of "s\<lparr>held := [Lk_bcache]\<rparr>" xs] assms(1) by simp
  have 2: "bscan (Suc NBUF) b_prev (\<lambda>bf. b_refcnt bf = 0 \<and> \<not> b_dirty bf) (b_prev (bufs s NBUF))
       (s\<lparr>held := [Lk_bcache]\<rparr>) = Ret (find (\<lambda>i. reusable (bufs s i)) (rev xs)) (s\<lparr>held := [Lk_bcache]\<rparr>)"
    using bscan_prev [of "s\<lparr>held := [Lk_bcache]\<rparr>" xs] assms(1) by (simp add: reusable_def)
  show ?thesis
    using assms(2) 1 2 by (cases "find (\<lambda>i. reusable (bufs s i)) (rev xs)") (simp_all add: bget_def)
qed

lemma bget_recycle:
  assumes "cache_ok s" and "held s = []" and "\<And>i. i < NBUF \<Longrightarrow> \<not> is_for dev bn (bufs s i)"
    and "\<exists>i<NBUF. reusable (bufs s i)"
  obtains v where "v < NBUF" and "reusable (bufs s v)"
    and "bget dev bn s = Ret v (s\<lparr>bufs := (bufs s)(v := (bufs s v)\<lparr>b_dev := dev, b_blockno := bn,
           b_valid := False, b_dirty := False, b_refcnt := 1, b_lock := mylock s\<rparr>)\<rparr>)"
proof -
  obtain xs where xs: "lru s xs" "set xs = {..<NBUF}" by (rule cache_ok_lruE [OF assms(1)])
  have "find (\<lambda>i. reusable (bufs s i)) (rev xs) \<noteq> None"
    using assms(4) xs(2) by (auto simp: find_None_iff)
  then obtain v where v: "find (\<lambda>i. reusable (bufs s i)) (rev xs) = Some v" by auto
  then have "v \<in> set (rev xs)" "reusable (bufs s v)" by (auto dest: find_SomeD)
  with xs have vv: "v < NBUF" "reusable (bufs s v)" by auto
  then have "\<not> sl_locked (b_lock (bufs s v))"
    using buf_okD(5) [OF cache_ok_buf [OF assms(1) vv(1)]] by (simp add: reusable_def)
  with v vv show thesis
    by (intro that) (simp_all add: bget_miss [OF xs(1) assms(2,3)] assms(2) mylock_def)
qed

lemma bget_no_buffers:
  assumes "cache_ok s" and "held s = []" and "\<And>i. i < NBUF \<Longrightarrow> \<not> is_for dev bn (bufs s i)"
    and "\<And>i. i < NBUF \<Longrightarrow> \<not> reusable (bufs s i)"
  shows "bget dev bn s = Panic ''bget: no buffers''"
proof -
  obtain xs where xs: "lru s xs" "set xs = {..<NBUF}" by (rule cache_ok_lruE [OF assms(1)])
  then have "find (\<lambda>i. reusable (bufs s i)) (rev xs) = None"
    using assms(4) by (auto simp: find_None_iff)
  then show ?thesis by (simp add: bget_miss [OF xs(1) assms(2,3)])
qed

text \<open>
  What \<open>bread\<close> of a disk block gives: \<open>got s bn b bf\<close> says that buffer \<open>b\<close>, now \<open>bf\<close>, is locked by
  the caller and holds the content of block \<open>bn\<close> as the kernel saw it in \<open>s\<close>.
\<close>

definition got :: "kstate \<Rightarrow> u32 \<Rightarrow> nat \<Rightarrow> buf \<Rightarrow> bool" where
  "got s bn b bf \<longleftrightarrow>
     b < NBUF \<and> is_for ROOTDEV bn bf \<and> b_valid bf \<and> b_lock bf = mylock s \<and> b_refcnt bf = 1
   \<and> b_data bf = cview s bn \<and> b_next bf = b_next (bufs s b) \<and> b_prev bf = b_prev (bufs s b)
   \<and> \<not> sl_locked (b_lock (bufs s b))
   \<and> (b_dirty bf \<or> b_data bf = dsk s ROOTDEV bn)
   \<and> (\<forall>i<NBUF. i \<noteq> b \<longrightarrow> \<not> is_for ROOTDEV bn (bufs s i))
   \<and> b_dirty bf = b_dirty (bufs s b) \<and> (b_dirty bf \<longrightarrow> is_for ROOTDEV bn (bufs s b))"

definition avail :: "kstate \<Rightarrow> u32 \<Rightarrow> bool" where
  "avail s bn \<longleftrightarrow>
     (\<exists>i<NBUF. is_for ROOTDEV bn (bufs s i) \<and> \<not> sl_locked (b_lock (bufs s i)))
   \<or> ((\<forall>i<NBUF. \<not> is_for ROOTDEV bn (bufs s i)) \<and> (\<exists>i<NBUF. reusable (bufs s i)))"

lemma isloopdev_ROOTDEV [simp]: "\<not> isloopdev 1"
  by (simp add: isloopdev_def)

lemma mylock_bufs [simp]: "mylock (s\<lparr>bufs := B\<rparr>) = mylock s"
  by (simp add: mylock_def)

lemma ide_ready_bufs [simp]: "ide_ready (s\<lparr>bufs := B\<rparr>) = ide_ready s"
  by (simp add: ide_ready_def)

lemma dsk_bufs [simp]: "dsk (s\<lparr>bufs := B\<rparr>) dev bn = dsk s dev bn"
  by (simp add: dsk_def)

lemma bread_run:
  assumes ok: "cache_ok s" and rdy: "ide_ready s" and bn: "unat bn < FSSIZE" and av: "avail s bn"
  obtains b bf pt where "bread lr ROOTDEV bn s = Ret b (s\<lparr>bufs := (bufs s)(b := bf), ptable := pt\<rparr>)"
    and "got s bn b bf" and "same_procs (ptable s) pt"
proof -
  have h: "held s = []" using rdy by (simp add: ide_ready_def)
  from av consider
      (hit) i where "i < NBUF" "is_for ROOTDEV bn (bufs s i)" "\<not> sl_locked (b_lock (bufs s i))"
    | (miss) "\<And>i. i < NBUF \<Longrightarrow> \<not> is_for ROOTDEV bn (bufs s i)" "\<exists>i<NBUF. reusable (bufs s i)"
    unfolding avail_def by blast
  then show thesis
  proof cases
    case hit
    have uq: "\<forall>j<NBUF. j \<noteq> i \<longrightarrow> \<not> is_for ROOTDEV bn (bufs s j)"
      using cache_ok_unique [OF ok hit(1) _ _ hit(2)] by fastforce
    have bo: "buf_ok s (bufs s i)" using ok hit by (simp add: cache_ok_buf)
    then have rc: "b_refcnt (bufs s i) = 0" using hit(3) by (rule buf_okD)
    define bf where "bf = (bufs s i)\<lparr>b_refcnt := 1, b_lock := mylock s\<rparr>"
    have bg: "bget ROOTDEV bn s = Ret i (s\<lparr>bufs := (bufs s)(i := bf)\<rparr>)"
      using bget_hit [OF ok h hit(1) _ hit(2,3)] rc by (simp add: bf_def)
    show thesis
    proof (cases "b_valid (bufs s i)")
      case True
      have br: "bread lr ROOTDEV bn s = Ret i (s\<lparr>bufs := (bufs s)(i := bf), ptable := ptable s\<rparr>)"
        using bg True by (simp add: bread_def bf_def)
      have cv: "cview s bn = b_data (bufs s i)" by (rule cview_hit [OF ok hit(1,2) True])
      have g: "got s bn i bf"
        unfolding got_def
        by (intro conjI uq) (use cv hit True buf_okD(8) [OF bo] is_forD [OF hit(2)] in \<open>simp_all add: bf_def\<close>)
      show thesis by (rule that [OF br g]) simp
    next
      case False
      define bf' where "bf' = bf\<lparr>b_data := dsk s ROOTDEV bn, b_valid := True\<rparr>"
      have nd: "\<not> b_dirty (bufs s i)" using buf_okD(2) [OF bo] False by blast
      have "iderw i (s\<lparr>bufs := (bufs s)(i := bf)\<rparr>) =
          Ret () (wake (Ch_buf i) (s\<lparr>bufs := (bufs s)(i := bf')\<rparr>))"
        using iderw_read [of "s\<lparr>bufs := (bufs s)(i := bf)\<rparr>" i] rdy nd False bn hit(2)
        by (simp add: my_buf_def bf_def bf'_def is_for_def)
      then have br: "bread lr ROOTDEV bn s =
          Ret i (s\<lparr>bufs := (bufs s)(i := bf'), ptable := wake_tab (Ch_buf i) (ptable s)\<rparr>)"
        using bg False by (simp add: bread_def bf_def wake_def)
      have cv: "cview s bn = dsk s ROOTDEV bn"
        by (rule cview_miss) (use uq False in metis)
      have g: "got s bn i bf'"
        unfolding got_def by (intro conjI uq) (use cv hit nd in \<open>simp_all add: bf_def bf'_def\<close>)
      show thesis by (rule that [OF br g]) simp
    qed
  next
    case miss
    obtain v where v: "v < NBUF" "reusable (bufs s v)"
      and bg0: "bget ROOTDEV bn s = Ret v (s\<lparr>bufs := (bufs s)(v := (bufs s v)\<lparr>b_dev := ROOTDEV, b_blockno := bn,
           b_valid := False, b_dirty := False, b_refcnt := 1, b_lock := mylock s\<rparr>)\<rparr>)"
      by (rule bget_recycle [OF ok h miss])
    define bf where "bf = (bufs s v)\<lparr>b_dev := ROOTDEV, b_blockno := bn,
           b_valid := False, b_dirty := False, b_refcnt := 1, b_lock := mylock s\<rparr>"
    have bg: "bget ROOTDEV bn s = Ret v (s\<lparr>bufs := (bufs s)(v := bf)\<rparr>)"
      using bg0 by (simp add: bf_def)
    define bf' where "bf' = bf\<lparr>b_data := dsk s ROOTDEV bn, b_valid := True\<rparr>"
    have lk: "\<not> sl_locked (b_lock (bufs s v))"
      using buf_okD(5) [OF cache_ok_buf [OF ok v(1)]] v(2) by (simp add: reusable_def)
    have "iderw v (s\<lparr>bufs := (bufs s)(v := bf)\<rparr>) =
        Ret () (wake (Ch_buf v) (s\<lparr>bufs := (bufs s)(v := bf')\<rparr>))"
      using iderw_read [of "s\<lparr>bufs := (bufs s)(v := bf)\<rparr>" v] rdy bn
      by (simp add: my_buf_def bf_def bf'_def)
    then have br: "bread lr ROOTDEV bn s =
        Ret v (s\<lparr>bufs := (bufs s)(v := bf'), ptable := wake_tab (Ch_buf v) (ptable s)\<rparr>)"
      using bg by (simp add: bread_def bf_def wake_def)
    have cv: "cview s bn = dsk s ROOTDEV bn"
      by (rule cview_miss) (use miss in auto)
    from cv have g: "got s bn v bf'"
      unfolding got_def using v lk miss(1) by (simp add: bf_def bf'_def reusable_def)
    show thesis by (rule that [OF br g]) simp
  qed
qed

subsection \<open>Changing one buffer\<close>

abbreviation (input) upd1 :: "kstate \<Rightarrow> nat \<Rightarrow> buf \<Rightarrow> (nat \<Rightarrow> proc) \<Rightarrow> kstate" where
  "upd1 s b bf pt \<equiv> s\<lparr>bufs := (bufs s)(b := bf), ptable := pt\<rparr>"

lemma dsk_upd1 [simp]: "dsk (upd1 s b bf pt) = dsk s"
  by (simp add: dsk_def fun_eq_iff)

lemma buf_ok_upd1 [simp]: "buf_ok (upd1 s b bf pt) = buf_ok s"
  by (simp add: buf_ok_def fun_eq_iff)

lemma cache_ok_upd1:
  assumes ok: "cache_ok s" and b: "b < NBUF"
    and links: "b_next bf = b_next (bufs s b)" "b_prev bf = b_prev (bufs s b)"
    and bf: "buf_ok s bf"
    and uniq: "b_dev bf \<noteq> 0 \<Longrightarrow> \<forall>i<NBUF. i \<noteq> b \<longrightarrow> \<not> is_for (b_dev bf) (b_blockno bf) (bufs s i)"
  shows "cache_ok (upd1 s b bf pt)"
proof -
  have n: "(\<lambda>i. b_next (bufs (upd1 s b bf pt) i)) = (\<lambda>i. b_next (bufs s i))"
    and p: "(\<lambda>i. b_prev (bufs (upd1 s b bf pt) i)) = (\<lambda>i. b_prev (bufs s i))"
    using links by auto
  have lru: "\<exists>xs. lru (upd1 s b bf pt) xs"
    using ok unfolding cache_ok_def lru_def n p by blast
  have u: "\<not> is_for (b_dev (bufs (upd1 s b bf pt) i)) (b_blockno (bufs (upd1 s b bf pt) i)) (bufs (upd1 s b bf pt) j)"
    if "i < NBUF" "j < NBUF" "i \<noteq> j" "b_dev (bufs (upd1 s b bf pt) i) \<noteq> 0" for i j
  proof (cases "i = b")
    case True
    with that uniq show ?thesis by simp
  next
    case False
    have old: "\<not> is_for (b_dev (bufs s i)) (b_blockno (bufs s i)) (bufs s j)"
      using ok that False unfolding cache_ok_def by simp
    show ?thesis
    proof (cases "j = b")
      case True
      have "\<not> is_for (b_dev (bufs s i)) (b_blockno (bufs s i)) bf"
      proof
        assume a: "is_for (b_dev (bufs s i)) (b_blockno (bufs s i)) bf"
        then have "b_dev bf \<noteq> 0" using that False by (simp add: is_for_def)
        with uniq that False a show False by (auto simp: is_for_def)
      qed
      with True False show ?thesis by simp
    next
      case j: False
      with old False show ?thesis by simp
    qed
  qed
  show ?thesis
    unfolding cache_ok_def buf_ok_upd1
    using lru u ok bf unfolding cache_ok_def by auto
qed

lemma cview_upd1:
  assumes ok: "cache_ok s" and ok': "cache_ok (upd1 s b bf pt)" and b: "b < NBUF"
    and bf: "is_for ROOTDEV bn bf" "b_valid bf"
    and old: "is_for ROOTDEV bn (bufs s b) \<or> \<not> (b_dev (bufs s b) = ROOTDEV \<and> b_valid (bufs s b))
      \<or> b_data (bufs s b) = dsk s ROOTDEV (b_blockno (bufs s b))"
  shows "cview (upd1 s b bf pt) = (cview s)(bn := b_data bf)"
proof
  fix x
  let ?t = "upd1 s b bf pt"
  show "cview ?t x = ((cview s)(bn := b_data bf)) x"
  proof (cases "x = bn")
    case True
    have "cview ?t bn = b_data (bufs ?t b)"
      by (rule cview_hit [OF ok' b]) (use bf in simp_all)
    with True show ?thesis by simp
  next
    case x: False
    then have nb: "\<not> is_for ROOTDEV x bf" using bf by (auto simp: is_for_def)
    show ?thesis
    proof (cases "\<exists>i<NBUF. i \<noteq> b \<and> is_for ROOTDEV x (bufs s i) \<and> b_valid (bufs s i)")
      case True
      then obtain i where i: "i < NBUF" "i \<noteq> b" "is_for ROOTDEV x (bufs s i)" "b_valid (bufs s i)" by auto
      have "cview ?t x = b_data (bufs ?t i)" by (rule cview_hit [OF ok' i(1)]) (use i in simp_all)
      moreover have "cview s x = b_data (bufs s i)" by (rule cview_hit [OF ok i(1,3,4)])
      ultimately show ?thesis using i x by simp
    next
      case False
      have "cview ?t x = dsk ?t ROOTDEV x"
      proof (rule cview_miss)
        fix i assume "i < NBUF" "is_for ROOTDEV x (bufs ?t i)"
        with False nb show "\<not> b_valid (bufs ?t i)" by (cases "i = b") auto
      qed
      then have t: "cview ?t x = dsk s ROOTDEV x" by simp
      have "cview s x = dsk s ROOTDEV x"
      proof (cases "is_for ROOTDEV x (bufs s b) \<and> b_valid (bufs s b)")
        case True
        then have "cview s x = b_data (bufs s b)" using cview_hit [OF ok b] by simp
        moreover have "b_data (bufs s b) = dsk s ROOTDEV x"
          using True old x by (auto simp: is_for_def)
        ultimately show ?thesis by simp
      next
        case f: False
        show ?thesis by (rule cview_miss) (use False f in blast)
      qed
      with t x show ?thesis by simp
    qed
  qed
qed

lemma got_old:
  assumes "cache_ok s" and "got s bn b bf"
  shows "is_for ROOTDEV bn (bufs s b) \<or> \<not> (b_dev (bufs s b) = ROOTDEV \<and> b_valid (bufs s b))
      \<or> b_data (bufs s b) = dsk s ROOTDEV (b_blockno (bufs s b))"
  using assms(2) buf_okD(8) [OF cache_ok_buf [OF assms(1), of b]] unfolding got_def by blast

lemma got_buf_ok: "cache_ok s \<Longrightarrow> got s bn b bf \<Longrightarrow> buf_ok s bf"
  by (simp add: got_def buf_ok_def mylock_def is_for_def)

lemma got_cache_ok:
  assumes "cache_ok s" and "got s bn b bf"
  shows "cache_ok (upd1 s b bf pt)"
  by (rule cache_ok_upd1 [OF assms(1)])
    (use assms got_buf_ok [OF assms] in \<open>auto simp: got_def is_for_def\<close>)

lemma got_cview:
  assumes "cache_ok s" and "got s bn b bf"
  shows "cview (upd1 s b bf pt) = cview s"
  using cview_upd1 [OF assms(1) got_cache_ok [OF assms] _ _ _ got_old [OF assms], of pt] assms(2)
  by (auto simp: got_def)

text \<open>Overwriting the bytes of a buffer the caller holds.\<close>

lemma held_buf_cache_ok:
  assumes "cache_ok s" and "b < NBUF" and "sl_locked (b_lock (bufs s b))"
    and "b_valid (bufs s b)" and "length d = BSIZE"
  shows "cache_ok (upd1 s b ((bufs s b)\<lparr>b_data := d, b_dirty := dt\<rparr>) pt)"
proof (rule cache_ok_upd1 [OF assms(1,2)])
  show "buf_ok s ((bufs s b)\<lparr>b_data := d, b_dirty := dt\<rparr>)"
    using cache_ok_buf [OF assms(1,2)] assms(3-5) by (simp add: buf_ok_def)
  show "\<forall>i<NBUF. i \<noteq> b \<longrightarrow> \<not> is_for (b_dev ((bufs s b)\<lparr>b_data := d, b_dirty := dt\<rparr>))
      (b_blockno ((bufs s b)\<lparr>b_data := d, b_dirty := dt\<rparr>)) (bufs s i)"
    if "b_dev ((bufs s b)\<lparr>b_data := d, b_dirty := dt\<rparr>) \<noteq> 0"
    using assms(1,2) that unfolding cache_ok_def by auto
qed simp_all

lemma held_buf_cview:
  assumes "cache_ok s" and "b < NBUF" and "sl_locked (b_lock (bufs s b))"
    and "b_valid (bufs s b)" and "length d = BSIZE" and "is_for ROOTDEV bn (bufs s b)"
  shows "cview (upd1 s b ((bufs s b)\<lparr>b_data := d, b_dirty := dt\<rparr>) pt) = (cview s)(bn := d)"
  using cview_upd1 [OF assms(1) held_buf_cache_ok [OF assms(1-5)] assms(2), of bn dt pt] assms(4,6)
  by simp

subsection \<open>bwrite\<close>

lemma bwrite_run:
  assumes "ide_ready s" and "my_buf s b" and "is_for ROOTDEV bn (bufs s b)" and "unat bn < FSSIZE"
  shows "bwrite lw b s = Ret () (s\<lparr>
      bufs := (bufs s)(b := (bufs s b)\<lparr>b_valid := True, b_dirty := False\<rparr>),
      disk := (disk s)(1 := (disk s 1)(unat bn := b_data (bufs s b))),
      dtrace := dtrace s @ [(1, unat bn, b_data (bufs s b))],
      ptable := wake_tab (Ch_buf b) (ptable s)\<rparr>)"
proof -
  have f: "b_dev (bufs s b) = ROOTDEV" "b_blockno (bufs s b) = bn"
    using assms(3) by (simp_all add: is_for_def)
  let ?s = "s\<lparr>bufs := (bufs s)(b := (bufs s b)\<lparr>b_dirty := True\<rparr>)\<rparr>"
  have "iderw b ?s = Ret () (wake (Ch_buf b)
      (write_sector (unat (b_dev (bufs ?s b) AND 1)) (unat (b_blockno (bufs ?s b))) (b_data (bufs ?s b))
        (?s\<lparr>bufs := (bufs ?s)(b := (bufs ?s b)\<lparr>b_valid := True, b_dirty := False\<rparr>)\<rparr>)))"
    by (rule iderw_write) (use assms f in \<open>simp_all add: my_buf_def mylock_def\<close>)
  then show ?thesis
    using assms(1,2) f by (simp add: bwrite_def ide_ready_def write_sector_def wake_def)
qed

text \<open>The state after writing a held buffer through: the disk follows the cache.\<close>

definition written :: "kstate \<Rightarrow> nat \<Rightarrow> u32 \<Rightarrow> (nat \<Rightarrow> proc) \<Rightarrow> kstate" where
  "written s b bn pt = s\<lparr>
      bufs := (bufs s)(b := (bufs s b)\<lparr>b_valid := True, b_dirty := False\<rparr>),
      disk := (disk s)(1 := (disk s 1)(unat bn := b_data (bufs s b))),
      dtrace := dtrace s @ [(1, unat bn, b_data (bufs s b))],
      ptable := pt\<rparr>"

lemma dsk_written: "dsk (written s b bn pt) ROOTDEV = (dsk s ROOTDEV)(bn := b_data (bufs s b))"
  by (auto simp: dsk_def written_def fun_eq_iff dest: word_unat_eq_iff [THEN iffD2])

lemma written_cache_ok:
  assumes ok: "cache_ok s" and b: "b < NBUF" "my_buf s b" "is_for ROOTDEV bn (bufs s b)"
  shows "cache_ok (written s b bn pt)"
proof -
  let ?bf = "(bufs s b)\<lparr>b_valid := True, b_dirty := False\<rparr>"
  have "cache_ok (upd1 s b ?bf pt)"
  proof (rule cache_ok_upd1 [OF ok b(1)])
    show "buf_ok s ?bf"
      using cache_ok_buf [OF ok b(1)] b(2) by (simp add: buf_ok_def)
    show "\<forall>i<NBUF. i \<noteq> b \<longrightarrow> \<not> is_for (b_dev ?bf) (b_blockno ?bf) (bufs s i)" if "b_dev ?bf \<noteq> 0"
      using ok b(1) that unfolding cache_ok_def by auto
  qed simp_all
  note ok1 = this [unfolded cache_ok_def]
  have other: "b_blockno (bufs s i) \<noteq> bn"
    if "i < NBUF" "i \<noteq> b" "b_dev (bufs s i) = ROOTDEV" for i
    using cache_ok_unique [OF ok that(1) b(1), of ROOTDEV bn] that b(3) by (auto simp: is_for_def)
  have bok: "buf_ok (written s b bn pt) (bufs (written s b bn pt) i)" if i: "i < NBUF" for i
  proof (cases "i = b")
    case True
    then show ?thesis
      using cache_ok_buf [OF ok b(1)] b(2) by (simp add: buf_ok_def written_def)
  next
    case False
    then have "bufs (written s b bn pt) i = bufs s i" by (simp add: written_def)
    moreover have "buf_ok (written s b bn pt) (bufs s i) = buf_ok s (bufs s i)"
      by (rule buf_ok_cong) (use other [OF i False] in \<open>simp add: dsk_written\<close>)
    ultimately show ?thesis using cache_ok_buf [OF ok i] by simp
  qed
  have len: "length (disk (written s b bn pt) d n) = BSIZE" for d n
    using ok cache_ok_buf [OF ok b(1)] by (simp add: cache_ok_def written_def buf_ok_def)
  have bufs: "bufs (written s b bn pt) = bufs (upd1 s b ?bf pt)"
    by (simp add: written_def)
  show ?thesis
    using ok1 bok len unfolding cache_ok_def lru_def bufs by blast
qed

lemma written_cview:
  assumes ok: "cache_ok s" and b: "b < NBUF" "my_buf s b" "is_for ROOTDEV bn (bufs s b)" "b_valid (bufs s b)"
  shows "cview (written s b bn pt) = cview s"
proof
  fix x
  let ?t = "written s b bn pt"
  have ok': "cache_ok ?t" by (rule written_cache_ok [OF ok b(1-3)])
  show "cview ?t x = cview s x"
  proof (cases "\<exists>i<NBUF. is_for ROOTDEV x (bufs s i) \<and> b_valid (bufs s i)")
    case True
    then obtain i where i: "i < NBUF" "is_for ROOTDEV x (bufs s i)" "b_valid (bufs s i)" by auto
    have "is_for ROOTDEV x (bufs ?t i)" "b_valid (bufs ?t i)" "b_data (bufs ?t i) = b_data (bufs s i)"
      using i by (auto simp: written_def)
    with cview_hit [OF ok' i(1)] cview_hit [OF ok i] show ?thesis by simp
  next
    case False
    then have "x \<noteq> bn" using b by auto
    have "cview s x = dsk s ROOTDEV x" by (rule cview_miss) (use False in auto)
    moreover have "cview ?t x = dsk ?t ROOTDEV x"
    proof (rule cview_miss)
      fix i assume "i < NBUF" "is_for ROOTDEV x (bufs ?t i)"
      then show "\<not> b_valid (bufs ?t i)"
        using False \<open>x \<noteq> bn\<close> b(3) by (cases "i = b") (auto simp: written_def is_for_def)
    qed
    ultimately show ?thesis using \<open>x \<noteq> bn\<close> by (simp add: dsk_written)
  qed
qed

subsection \<open>brelse\<close>

text \<open>\<open>core\<close> is a buffer without its place in the ring.\<close>

definition core :: "buf \<Rightarrow> buf" where
  "core bf = bf\<lparr>b_next := 0, b_prev := 0\<rparr>"

lemma core_simps [simp]:
  "core (bf\<lparr>b_next := n\<rparr>) = core bf" "core (bf\<lparr>b_prev := n\<rparr>) = core bf"
  by (simp_all add: core_def)

lemma coreD:
  assumes "core bf = core bf'"
  shows "b_valid bf = b_valid bf'" "b_dirty bf = b_dirty bf'" "b_dev bf = b_dev bf'"
    "b_blockno bf = b_blockno bf'" "b_lock bf = b_lock bf'" "b_refcnt bf = b_refcnt bf'"
    "b_data bf = b_data bf'"
  using assms by (cases bf; cases bf'; simp add: core_def)+

definition front :: "nat \<Rightarrow> (nat \<Rightarrow> buf) \<Rightarrow> nat \<Rightarrow> buf" where
  "front b B =
     (let n = b_next (B NBUF);
          B1 = B(b := (B b)\<lparr>b_next := n\<rparr>);
          B2 = B1(b := (B1 b)\<lparr>b_prev := NBUF\<rparr>);
          n' = b_next (B2 NBUF);
          B3 = B2(n' := (B2 n')\<lparr>b_prev := b\<rparr>)
      in B3(NBUF := (B3 NBUF)\<lparr>b_next := b\<rparr>))"

lemma link_front_run: "link_front b s = Ret () (s\<lparr>bufs := front b (bufs s)\<rparr>)"
  by (simp add: link_front_def set_next_def set_prev_def front_def Let_def)

lemma front_links:
  assumes "b \<noteq> NBUF"
  shows "(\<lambda>i. b_next (front b B i)) = (\<lambda>i. b_next (B i))(b := b_next (B NBUF), NBUF := b)"
    and "(\<lambda>i. b_prev (front b B i)) = (\<lambda>i. b_prev (B i))(b := NBUF, b_next (B NBUF) := b)"
  using assms by (auto simp: fun_eq_iff front_def Let_def)

lemma front_core: "core (front b B i) = core (B i)"
  by (simp add: front_def Let_def)

definition unlink :: "nat \<Rightarrow> (nat \<Rightarrow> buf) \<Rightarrow> nat \<Rightarrow> buf" where
  "unlink b B =
     (let B1 = B(b_next (B b) := (B (b_next (B b)))\<lparr>b_prev := b_prev (B b)\<rparr>)
      in B1(b_prev (B1 b) := (B1 (b_prev (B1 b)))\<lparr>b_next := b_next (B1 b)\<rparr>))"

lemma unlink_links:
  assumes "b_next (B b) \<noteq> b"
  shows "(\<lambda>i. b_next (unlink b B i)) = (\<lambda>i. b_next (B i))(b_prev (B b) := b_next (B b))"
    and "(\<lambda>i. b_prev (unlink b B i)) = (\<lambda>i. b_prev (B i))(b_next (B b) := b_prev (B b))"
  using assms by (auto simp: fun_eq_iff unlink_def Let_def)

lemma unlink_core: "core (unlink b B i) = core (B i)"
  by (simp add: unlink_def Let_def)

text \<open>Moving a buffer to the front of the ring, in one step.\<close>

lemma ring_move_front:
  assumes "ring (\<lambda>i. b_next (B i)) (\<lambda>i. b_prev (B i)) xs" and "b \<in> set xs"
  shows "ring (\<lambda>i. b_next (front b (unlink b B) i)) (\<lambda>i. b_prev (front b (unlink b B) i)) (b # remove1 b xs)"
proof -
  obtain ys zs where xs: "xs = ys @ b # zs" using assms(2) by (meson split_list)
  have d: "distinct xs" "NBUF \<notin> set xs" using assms(1) by (auto simp: ring_def)
  then have bn: "b \<noteq> NBUF" using assms(2) by auto
  note u = ring_unlink [OF assms(1) [unfolded xs]]
  have nb: "b_next (B b) \<noteq> b" using u(3) d xs by (cases zs) auto
  have "ring (\<lambda>i. b_next (unlink b B i)) (\<lambda>i. b_prev (unlink b B i)) (ys @ zs)"
    using u(1) by (simp only: unlink_links [of B b, OF nb])
  from ring_link_front [OF this _ bn]
  have "ring (\<lambda>i. b_next (front b (unlink b B) i)) (\<lambda>i. b_prev (front b (unlink b B) i)) (b # ys @ zs)"
    using d xs by (simp only: front_links [OF bn]) simp
  moreover have "remove1 b xs = ys @ zs" using d by (simp add: xs remove1_append)
  ultimately show ?thesis by simp
qed

lemma brelse_run:
  assumes h: "held s = []" and my: "my_buf s b" and rc: "b_refcnt (bufs s b) = 1"
  shows "brelse b s = Ret () (s\<lparr>
     bufs := front b (unlink b ((bufs s)(b := (bufs s b)\<lparr>b_lock := unlocked, b_refcnt := 0\<rparr>))),
     ptable := wake_tab (Ch_sleeplock (SlBuf b)) (ptable s)\<rparr>)"
  using assms
  by (simp add: brelse_def set_prev_def set_next_def link_front_run unlink_def Let_def wake_def)


lemma find_core_cong:
  assumes "\<And>i. i < NBUF \<Longrightarrow> core (B i) = core (B' i)"
  shows "find (\<lambda>i. is_for dev bn (B i) \<and> b_valid (B i)) [0..<NBUF] =
    find (\<lambda>i. is_for dev bn (B' i) \<and> b_valid (B' i)) [0..<NBUF]"
proof (rule find_cong)
  fix i assume "i \<in> set [0..<NBUF]"
  then have "core (B i) = core (B' i)" using assms by simp
  from coreD [OF this] show "(is_for dev bn (B i) \<and> b_valid (B i)) = (is_for dev bn (B' i) \<and> b_valid (B' i))"
    by (simp add: is_for_def)
qed simp

text \<open>The invariant and the view depend on the ring only through \<open>lru\<close>.\<close>

lemma cache_ok_core:
  assumes ok: "cache_ok s" and c: "\<And>i. i < NBUF \<Longrightarrow> core (bufs t i) = core (bufs s i)"
    and "disk t = disk s" and "lru t xs"
  shows "cache_ok t" and "cview t = cview s"
proof -
  have d: "dsk t = dsk s" using assms(3) by (simp add: dsk_def fun_eq_iff)
  have f: "is_for dv bn (bufs t i) = is_for dv bn (bufs s i)" if "i < NBUF" for dv bn i
    using coreD [OF c [OF that]] by (simp add: is_for_def)
  have b: "buf_ok t (bufs t i)" if "i < NBUF" for i
    using cache_ok_buf [OF ok that] coreD [OF c [OF that]] by (simp add: buf_ok_def d)
  have u: "\<not> is_for (b_dev (bufs t i)) (b_blockno (bufs t i)) (bufs t j)"
    if "i < NBUF" "j < NBUF" "i \<noteq> j" "b_dev (bufs t i) \<noteq> 0" for i j
  proof -
    have "\<not> is_for (b_dev (bufs s i)) (b_blockno (bufs s i)) (bufs s j)"
      using ok that coreD(3) [OF c [OF that(1)]] unfolding cache_ok_def by simp
    then show ?thesis using f [OF that(2)] coreD(3,4) [OF c [OF that(1)]] by simp
  qed
  show "cache_ok t"
    unfolding cache_ok_def using assms(3,4) b u ok by (auto simp: cache_ok_def)
  show "cview t = cview s"
  proof
    fix bn
    have eq: "find (\<lambda>i. is_for ROOTDEV bn (bufs t i) \<and> b_valid (bufs t i)) [0..<NBUF] =
       find (\<lambda>i. is_for ROOTDEV bn (bufs s i) \<and> b_valid (bufs s i)) [0..<NBUF]"
      by (rule find_core_cong) (rule c)
    show "cview t bn = cview s bn"
    proof (cases "find (\<lambda>i. is_for ROOTDEV bn (bufs s i) \<and> b_valid (bufs s i)) [0..<NBUF]")
      case None
      then show ?thesis by (simp add: cview_def eq d)
    next
      case (Some i)
      then have "i < NBUF" by (auto dest: find_SomeD)
      with Some show ?thesis using coreD(7) [OF c] by (simp add: cview_def eq)
    qed
  qed
qed

definition released :: "buf \<Rightarrow> buf" where
  "released bf = bf\<lparr>b_lock := unlocked, b_refcnt := 0\<rparr>"

lemma lru_move_front:
  assumes "lru s xs" and "b < NBUF" and "bufs t = front b (unlink b ((bufs s)(b := released (bufs s b))))"
  shows "lru t (b # remove1 b xs)"
proof -
  have n: "(\<lambda>i. b_next (((bufs s)(b := released (bufs s b))) i)) = (\<lambda>i. b_next (bufs s i))"
    and p: "(\<lambda>i. b_prev (((bufs s)(b := released (bufs s b))) i)) = (\<lambda>i. b_prev (bufs s i))"
    by (auto simp: released_def)
  have r: "ring (\<lambda>i. b_next (((bufs s)(b := released (bufs s b))) i))
      (\<lambda>i. b_prev (((bufs s)(b := released (bufs s b))) i)) xs" "b \<in> set xs" "distinct xs"
    using assms(1,2) unfolding n p lru_def ring_def by auto
  have "set (b # remove1 b xs) = {..<NBUF}"
    using assms(1,2) r(3) by (auto simp: lru_def)
  then show ?thesis
    unfolding lru_def assms(3)
    using ring_move_front [of "(bufs s)(b := released (bufs s b))", OF r(1,2)] by blast
qed

text \<open>
  Releasing a buffer whose change is either logged (dirty) or already on disk keeps the cache
  invariant and every block's content, and moves the buffer to the front of the ring.
\<close>

lemma brelse_spec:
  assumes ok: "cache_ok t" and h: "held t = []" and b: "b < NBUF" and my: "my_buf t b"
    and sync: "b_dev (bufs t b) = ROOTDEV \<Longrightarrow> b_valid (bufs t b) \<Longrightarrow> b_dirty (bufs t b) \<or>
       b_data (bufs t b) = dsk t ROOTDEV (b_blockno (bufs t b))"
  obtains B pt where "brelse b t = Ret () (t\<lparr>bufs := B, ptable := pt\<rparr>)"
    and "same_procs (ptable t) pt"
    and "\<And>i. core (B i) = core (((bufs t)(b := released (bufs t b))) i)"
    and "cache_ok (t\<lparr>bufs := B, ptable := pt\<rparr>)" and "cview (t\<lparr>bufs := B, ptable := pt\<rparr>) = cview t"
    and "\<And>xs. lru t xs \<Longrightarrow> lru (t\<lparr>bufs := B, ptable := pt\<rparr>) (b # remove1 b xs)"
proof -
  let ?B = "front b (unlink b ((bufs t)(b := released (bufs t b))))"
  let ?pt = "wake_tab (Ch_sleeplock (SlBuf b)) (ptable t)"
  let ?u = "t\<lparr>bufs := ?B, ptable := ?pt\<rparr>"
  let ?m = "upd1 t b (released (bufs t b)) (ptable t)"
  have rc: "b_refcnt (bufs t b) = 1"
    using cache_ok_buf [OF ok b] my by (simp add: buf_ok_def my_buf_def mylock_def)
  have r: "brelse b t = Ret () ?u"
    using brelse_run [OF h my rc] by (simp add: released_def)
  have okm: "cache_ok ?m"
  proof (rule cache_ok_upd1 [OF ok b])
    show "buf_ok t (released (bufs t b))"
      using cache_ok_buf [OF ok b] sync by (auto simp: buf_ok_def released_def)
    show "\<forall>i<NBUF. i \<noteq> b \<longrightarrow> \<not> is_for (b_dev (released (bufs t b))) (b_blockno (released (bufs t b))) (bufs t i)"
      if "b_dev (released (bufs t b)) \<noteq> 0"
      using ok b that unfolding cache_ok_def released_def by auto
  qed (simp_all add: released_def)
  have cvm: "cview ?m = cview t"
  proof
    fix x
    have "find (\<lambda>i. is_for ROOTDEV x (bufs ?m i) \<and> b_valid (bufs ?m i)) [0..<NBUF]
      = find (\<lambda>i. is_for ROOTDEV x (bufs t i) \<and> b_valid (bufs t i)) [0..<NBUF]"
      by (rule find_cong) (auto simp: released_def)
    then show "cview ?m x = cview t x"
      unfolding cview_def by (auto simp: released_def split: option.split)
  qed
  have c: "core (?B i) = core (((bufs t)(b := released (bufs t b))) i)" for i
    by (simp only: front_core unlink_core)
  have l: "lru ?u (b # remove1 b xs)" if "lru t xs" for xs
    by (rule lru_move_front [OF that b]) simp
  obtain xs where xs: "lru t xs" by (rule cache_ok_lruE [OF ok])
  have "cache_ok ?u \<and> cview ?u = cview ?m"
    using cache_ok_core [OF okm, of ?u] l [OF xs] c by simp
  with cvm that [OF r _ c _ _ l] show thesis by simp
qed

end
