(* ===== verification/Bio_Rules.thy ===== *)
theory Bio_Rules
  imports Bio_Cache
begin

text \<open>
  The buffer cache as its clients see it. The state of the block layer is summarised by
  the view \<open>cview\<close>, the set \<open>lkd\<close> of blocks somebody has locked and the set \<open>dty\<close> of blocks that
  wait for a commit; \<open>holds s b bn\<close> says that the running process has block \<open>bn\<close> locked in
  buffer \<open>b\<close>. The rules \<open>bread_wp\<close>, \<open>bmod_post\<close>, \<open>bwrite_wp\<close> and \<open>brelse_wp\<close> give the effect of each
  operation on these, and \<open>bframe\<close> says that nothing else changes. A block can be read as
  long as the pinned blocks (dirty or locked) are fewer than the buffers.
\<close>

subsection \<open>Initialisation\<close>

lemma binit_loop_run:
  assumes "ring (\<lambda>i. b_next (bufs s i)) (\<lambda>i. b_prev (bufs s i)) xs"
    and "distinct bl" and "set bl \<inter> set xs = {}" and "NBUF \<notin> set bl"
  shows "\<exists>B. binit_loop bl s = Ret () (s\<lparr>bufs := B\<rparr>)
    \<and> ring (\<lambda>i. b_next (B i)) (\<lambda>i. b_prev (B i)) (rev bl @ xs)
    \<and> (\<forall>i. core (B i) = core (if i \<in> set bl then (bufs s i)\<lparr>b_lock := unlocked\<rparr> else bufs s i))"
  using assms
proof (induction bl arbitrary: s xs)
  case Nil
  then show ?case by (intro exI [of _ "bufs s"]) simp
next
  case (Cons b bl)
  let ?B = "front b (bufs s)"
  let ?B' = "?B(b := (?B b)\<lparr>b_lock := unlocked\<rparr>)"
  let ?s = "s\<lparr>bufs := ?B'\<rparr>"
  have nb: "b \<noteq> NBUF" "b \<notin> set xs" using Cons.prems by auto
  have "ring (\<lambda>i. b_next (?B i)) (\<lambda>i. b_prev (?B i)) (b # xs)"
    using ring_link_front [OF Cons.prems(1) nb(2,1)] by (simp only: front_links [OF nb(1)])
  moreover have "(\<lambda>i. b_next (?B' i)) = (\<lambda>i. b_next (?B i))" "(\<lambda>i. b_prev (?B' i)) = (\<lambda>i. b_prev (?B i))"
    by auto
  ultimately have r: "ring (\<lambda>i. b_next (bufs ?s i)) (\<lambda>i. b_prev (bufs ?s i)) (b # xs)"
    by simp
  obtain B where B: "binit_loop bl ?s = Ret () (?s\<lparr>bufs := B\<rparr>)"
    "ring (\<lambda>i. b_next (B i)) (\<lambda>i. b_prev (B i)) (rev bl @ b # xs)"
    "\<And>i. core (B i) = core (if i \<in> set bl then (bufs ?s i)\<lparr>b_lock := unlocked\<rparr> else bufs ?s i)"
    using Cons.IH [OF r] Cons.prems by auto
  have lk: "core (bf\<lparr>b_lock := l\<rparr>) = (core bf)\<lparr>b_lock := l\<rparr>" for bf l
    by (simp add: core_def)
  have c: "core (B i) = core (if i \<in> set (b # bl) then (bufs s i)\<lparr>b_lock := unlocked\<rparr> else bufs s i)" for i
    using B(3) [of i] Cons.prems(2) by (auto simp: lk front_core)
  show ?case
    by (intro exI [of _ B] conjI allI c) (use B in \<open>simp_all add: link_front_run\<close>)
qed

text \<open>\<^verbatim>\<open>binit\<close> on zeroed memory establishes the cache invariant, with nothing cached.\<close>

lemma binit_run:
  assumes z: "\<And>i. core (bufs s i) = core buf0" and d: "\<And>d n. length (disk s d n) = BSIZE"
  obtains B where "binit s = Ret () (s\<lparr>bufs := B\<rparr>)" and "lru (s\<lparr>bufs := B\<rparr>) (rev [0..<NBUF])"
    and "\<forall>i. core (B i) = core buf0" and "cache_ok (s\<lparr>bufs := B\<rparr>)"
    and "cview (s\<lparr>bufs := B\<rparr>) = dsk s ROOTDEV"
proof -
  let ?s = "s\<lparr>bufs := (bufs s)(NBUF := (bufs s NBUF)\<lparr>b_prev := NBUF, b_next := NBUF\<rparr>)\<rparr>"
  have "ring (\<lambda>i. b_next (bufs ?s i)) (\<lambda>i. b_prev (bufs ?s i)) []"
    by (simp add: ring_def)
  from binit_loop_run [OF this, of "[0..<NBUF]"] obtain B where
    B: "binit_loop [0..<NBUF] ?s = Ret () (?s\<lparr>bufs := B\<rparr>)"
    "ring (\<lambda>i. b_next (B i)) (\<lambda>i. b_prev (B i)) (rev [0..<NBUF])"
    "\<And>i. core (B i) = core (if i \<in> set [0..<NBUF] then (bufs ?s i)\<lparr>b_lock := unlocked\<rparr> else bufs ?s i)"
    by fastforce
  have lk: "core (bf\<lparr>b_lock := l\<rparr>) = (core bf)\<lparr>b_lock := l\<rparr>" for bf l
    by (simp add: core_def)
  have c: "core (B i) = core buf0" for i
    using B(3) [of i] z by (auto simp: lk) (simp add: core_def buf0_def)
  note f = coreD [OF c]
  have run: "binit s = Ret () (s\<lparr>bufs := B\<rparr>)"
    using B(1) by (simp add: binit_def set_prev_def set_next_def)
  have l: "lru (s\<lparr>bufs := B\<rparr>) (rev [0..<NBUF])"
    using B(2) by (simp only: lru_def) auto
  have ok: "cache_ok (s\<lparr>bufs := B\<rparr>)"
    unfolding cache_ok_def using l d f by (auto simp: buf_ok_def buf0_def)
  have cv: "cview (s\<lparr>bufs := B\<rparr>) = dsk s ROOTDEV"
    by (rule ext, subst cview_miss) (use f in \<open>simp_all add: buf0_def\<close>)
  have "\<forall>i. core (B i) = core buf0" using c by blast
  then show thesis by (rule that [OF run l _ ok cv])
qed

subsection \<open>Pinned blocks\<close>

text \<open>
  The blocks whose buffer cannot be reused: locked, or waiting for a commit. While there are
  fewer of them than buffers, \<^verbatim>\<open>bget\<close> finds a buffer.
\<close>

definition pins :: "kstate \<Rightarrow> (u32 \<times> u32) set" where
  "pins s = {(b_dev (bufs s i), b_blockno (bufs s i)) | i. i < NBUF \<and> \<not> reusable (bufs s i)}"

lemma finite_pins [simp]: "finite (pins s)"
  unfolding pins_def by (rule finite_image_set) simp

lemma not_reusable:
  assumes "buf_ok s bf"
  shows "\<not> reusable bf \<longleftrightarrow> b_dirty bf \<or> sl_locked (b_lock bf)"
  using buf_okD(3,4) [OF assms] by (cases "sl_locked (b_lock bf)") (simp_all add: reusable_def)

lemma room_reusable:
  assumes ok: "cache_ok s" and "card (pins s) < NBUF"
  shows "\<exists>i<NBUF. reusable (bufs s i)"
proof (rule ccontr)
  assume *: "\<not> ?thesis"
  let ?f = "\<lambda>i. (b_dev (bufs s i), b_blockno (bufs s i))"
  have nz: "b_dev (bufs s i) \<noteq> 0" if "i < NBUF" for i
    using * that not_reusable [OF cache_ok_buf [OF ok that]] buf_okD(7) [OF cache_ok_buf [OF ok that]]
    by blast
  have "inj_on ?f {..<NBUF}"
  proof (rule inj_onI)
    fix i j assume ij: "i \<in> {..<NBUF}" "j \<in> {..<NBUF}" "?f i = ?f j"
    show "i = j"
      by (rule cache_ok_unique [OF ok, of i j "b_dev (bufs s i)" "b_blockno (bufs s i)"])
        (use ij nz [of i] in \<open>simp_all add: is_for_def\<close>)
  qed
  moreover have "?f ` {..<NBUF} = pins s"
    using * by (auto simp: pins_def)
  ultimately have "card (pins s) = card {..<NBUF}"
    using card_image [of ?f "{..<NBUF}"] by simp
  with assms(2) show False by simp
qed


definition lkd :: "kstate \<Rightarrow> (u32 \<times> u32) set" where
  "lkd s = {(b_dev (bufs s i), b_blockno (bufs s i)) | i. i < NBUF \<and> sl_locked (b_lock (bufs s i))}"

definition dty :: "kstate \<Rightarrow> (u32 \<times> u32) set" where
  "dty s = {(b_dev (bufs s i), b_blockno (bufs s i)) | i. i < NBUF \<and> b_dirty (bufs s i)}"

lemma pins_eq: "cache_ok s \<Longrightarrow> pins s = dty s \<union> lkd s"
  using not_reusable [OF cache_ok_buf] unfolding pins_def dty_def lkd_def by blast

lemma lkd_iff: "(dev, bn) \<in> lkd s \<longleftrightarrow> (\<exists>i<NBUF. is_for dev bn (bufs s i) \<and> sl_locked (b_lock (bufs s i)))"
  unfolding lkd_def is_for_def by blast

lemma dty_iff: "(dev, bn) \<in> dty s \<longleftrightarrow> (\<exists>i<NBUF. is_for dev bn (bufs s i) \<and> b_dirty (bufs s i))"
  unfolding dty_def is_for_def by blast

text \<open>A block that nobody has locked can be read when its buffer is dirty or there is room.\<close>

lemma availI:
  assumes ok: "cache_ok s" and "(ROOTDEV, bn) \<notin> lkd s"
    and "(ROOTDEV, bn) \<in> dty s \<or> card (dty s \<union> lkd s) < NBUF"
  shows "avail s bn"
  using assms room_reusable [OF ok] unfolding avail_def lkd_iff dty_iff pins_eq [OF ok] by blast

subsection \<open>What changes and what stays\<close>

definition bframe :: "kstate \<Rightarrow> kstate \<Rightarrow> bool" where
  "bframe s t \<longleftrightarrow> t = s\<lparr>bufs := bufs t, ptable := ptable t\<rparr> \<and> same_procs (ptable s) (ptable t)"

lemma bframe_refl [simp]: "bframe s s"
  by (simp add: bframe_def)

lemma bframe_trans:
  assumes "bframe s t" and "bframe t u"
  shows "bframe s u"
proof -
  have "u = (s\<lparr>bufs := bufs t, ptable := ptable t\<rparr>)\<lparr>bufs := bufs u, ptable := ptable u\<rparr>"
    using assms unfolding bframe_def by metis
  also have "\<dots> = s\<lparr>bufs := bufs u, ptable := ptable u\<rparr>" by simp
  finally have "u = s\<lparr>bufs := bufs u, ptable := ptable u\<rparr>" .
  then show ?thesis using assms same_procs_trans unfolding bframe_def by blast
qed

lemma bframeI: "same_procs (ptable s) pt \<Longrightarrow> bframe s (s\<lparr>bufs := B, ptable := pt\<rparr>)"
  by (simp add: bframe_def)

lemma bframeD:
  assumes "bframe s t"
  shows "held t = held s" "curproc t = curproc s" "initproc t = initproc s" "nextpid t = nextpid s"
    "nstable t = nstable s" "pid_ns_table t = pid_ns_table s" "idequeue t = idequeue s"
    "havedisk1 t = havedisk1 s" "ide_err t = ide_err s" "disk t = disk s" "dtrace t = dtrace s"
    "sb t = sb s" "log t = log s" "loop_log t = loop_log s" "is_loop_mounted t = is_loop_mounted s"
    "icache t = icache s" "loopdevtable t = loopdevtable s" "gmnttable t = gmnttable s"
    "pmntlist t = pmntlist s" "prootmnt t = prootmnt s" "ftable t = ftable s"
    "dsk t = dsk s" "ide_ready t = ide_ready s" "mylock t = mylock s"
    "p_pid (ptable t p) = p_pid (ptable s p)" "p_cwd (ptable t p) = p_cwd (ptable s p)"
    "p_ofile (ptable t p) = p_ofile (ptable s p)" "p_killed (ptable t p) = p_killed (ptable s p)"
proof -
  have e: "t = s\<lparr>bufs := bufs t, ptable := ptable t\<rparr>" and p: "same_procs (ptable s) (ptable t)"
    using assms by (simp_all add: bframe_def)
  show h: "held t = held s" by (subst e) simp
  show c: "curproc t = curproc s" by (subst e) simp
  show "initproc t = initproc s" by (subst e) simp
  show "nextpid t = nextpid s" by (subst e) simp
  show "nstable t = nstable s" by (subst e) simp
  show "pid_ns_table t = pid_ns_table s" by (subst e) simp
  show i: "idequeue t = idequeue s" by (subst e) simp
  show hd: "havedisk1 t = havedisk1 s" by (subst e) simp
  show ie: "ide_err t = ide_err s" by (subst e) simp
  show d: "disk t = disk s" by (subst e) simp
  show "dtrace t = dtrace s" by (subst e) simp
  show "sb t = sb s" by (subst e) simp
  show "log t = log s" by (subst e) simp
  show "loop_log t = loop_log s" by (subst e) simp
  show "is_loop_mounted t = is_loop_mounted s" by (subst e) simp
  show "icache t = icache s" by (subst e) simp
  show "loopdevtable t = loopdevtable s" by (subst e) simp
  show "gmnttable t = gmnttable s" by (subst e) simp
  show "pmntlist t = pmntlist s" by (subst e) simp
  show "prootmnt t = prootmnt s" by (subst e) simp
  show "ftable t = ftable s" by (subst e) simp
  show "dsk t = dsk s" using d by (simp add: dsk_def fun_eq_iff)
  show "ide_ready t = ide_ready s" using h i hd ie by (simp add: ide_ready_def)
  show pid: "p_pid (ptable t p) = p_pid (ptable s p)" for p using same_procsD [OF p] by simp
  show "p_cwd (ptable t p) = p_cwd (ptable s p)" using same_procsD [OF p] by simp
  show "p_ofile (ptable t p) = p_ofile (ptable s p)" using same_procsD [OF p] by simp
  show "p_killed (ptable t p) = p_killed (ptable s p)" using same_procsD [OF p] by simp
  show "mylock t = mylock s" using pid c by (simp add: mylock_def)
qed

definition holds :: "kstate \<Rightarrow> nat \<Rightarrow> u32 \<Rightarrow> bool" where
  "holds s b bn \<longleftrightarrow> b < NBUF \<and> my_buf s b \<and> is_for ROOTDEV bn (bufs s b) \<and> b_valid (bufs s b)"

lemma holdsD:
  assumes "holds s b bn"
  shows "b < NBUF" "my_buf s b" "is_for ROOTDEV bn (bufs s b)" "b_valid (bufs s b)"
    "sl_locked (b_lock (bufs s b))"
  using assms by (simp_all add: holds_def)

lemma holds_cview: "cache_ok s \<Longrightarrow> holds s b bn \<Longrightarrow> b_data (bufs s b) = cview s bn"
  by (rule sym, rule cview_hit) (simp_all add: holds_def)

text \<open>Buffers other than \<open>b\<close> that somebody has locked are left alone.\<close>

definition others :: "nat \<Rightarrow> kstate \<Rightarrow> kstate \<Rightarrow> bool" where
  "others b s t \<longleftrightarrow> (\<forall>i<NBUF. i \<noteq> b \<and> sl_locked (b_lock (bufs s i)) \<longrightarrow> core (bufs t i) = core (bufs s i))"

lemma others_holds:
  assumes "others b s t" and "bframe s t" and "holds s c bn" and "c \<noteq> b"
  shows "holds t c bn"
proof -
  have "core (bufs t c) = core (bufs s c)"
    using assms unfolding others_def by (simp add: holds_def)
  then show ?thesis
    using assms(3) coreD [of "bufs t c" "bufs s c"] bframeD(24) [OF assms(2)]
    by (simp add: holds_def my_buf_def is_for_def)
qed


lemma lkd_upd1:
  assumes "b < NBUF" and "\<not> sl_locked (b_lock (bufs s b))" and "is_for dev bn bf" and "sl_locked (b_lock bf)"
  shows "lkd (upd1 s b bf pt) = insert (dev, bn) (lkd s)"
proof -
  have "(d, n) \<in> lkd (upd1 s b bf pt) \<longleftrightarrow> (d, n) \<in> insert (dev, bn) (lkd s)" for d n
    using assms unfolding insert_iff lkd_iff Pair_inject by (auto simp: is_for_def)
  then show ?thesis by (simp add: set_eq_iff split_paired_all)
qed

lemma dty_upd1:
  assumes "b < NBUF" and "b_dirty bf = b_dirty (bufs s b)"
    and "b_dirty bf \<longrightarrow> b_dev bf = b_dev (bufs s b) \<and> b_blockno bf = b_blockno (bufs s b)"
  shows "dty (upd1 s b bf pt) = dty s"
proof -
  have "(d, n) \<in> dty (upd1 s b bf pt) \<longleftrightarrow> (d, n) \<in> dty s" for d n
    using assms unfolding dty_iff by (auto simp: is_for_def split: if_splits)
  then show ?thesis by (simp add: set_eq_iff split_paired_all)
qed

definition bread_post :: "kstate \<Rightarrow> u32 \<Rightarrow> nat \<Rightarrow> kstate \<Rightarrow> bool" where
  "bread_post s bn b t \<longleftrightarrow>
     bframe s t \<and> cache_ok t \<and> cview t = cview s \<and> holds t b bn \<and> others b s t
   \<and> lkd t = insert (ROOTDEV, bn) (lkd s) \<and> dty t = dty s \<and> \<not> sl_locked (b_lock (bufs s b))
   \<and> ((ROOTDEV, bn) \<in> dty s \<or> cview s bn = dsk s ROOTDEV bn)"

lemma bread_wp:
  assumes ok: "cache_ok s" and rdy: "ide_ready s" and bn: "unat bn < FSSIZE"
    and fr: "(ROOTDEV, bn) \<notin> lkd s" and room: "(ROOTDEV, bn) \<in> dty s \<or> card (dty s \<union> lkd s) < NBUF"
    and Q: "\<And>b t. bread_post s bn b t \<Longrightarrow> Q b t"
  shows "wp (bread lr ROOTDEV bn) Q s"
proof -
  obtain b bf pt where r: "bread lr ROOTDEV bn s = Ret b (upd1 s b bf pt)"
    and g: "got s bn b bf" and p: "same_procs (ptable s) pt"
    by (rule bread_run [OF ok rdy bn availI [OF ok fr room]])
  have b: "b < NBUF" "is_for ROOTDEV bn bf" "b_valid bf" "b_lock bf = mylock s"
    "\<not> sl_locked (b_lock (bufs s b))" "b_dirty bf = b_dirty (bufs s b)"
    "b_dirty bf \<longrightarrow> is_for ROOTDEV bn (bufs s b)" "b_dirty bf \<or> b_data bf = dsk s ROOTDEV bn"
    "b_data bf = cview s bn"
    using g unfolding got_def by blast+
  have lk: "sl_locked (b_lock bf)" using b(4) by (simp add: mylock_def)
  have fm: "bframe s (upd1 s b bf pt)" by (rule bframeI [OF p])
  have "bread_post s bn b (upd1 s b bf pt)"
    unfolding bread_post_def
  proof (intro conjI)
    show "holds (upd1 s b bf pt) b bn"
      using b(1-4) bframeD(24) [OF fm] by (simp add: holds_def my_buf_def)
    show "others b s (upd1 s b bf pt)" by (simp add: others_def)
    show "dty (upd1 s b bf pt) = dty s"
      by (rule dty_upd1 [OF b(1,6)]) (use b(2,7) in \<open>simp add: is_for_def\<close>)
    show "(ROOTDEV, bn) \<in> dty s \<or> cview s bn = dsk s ROOTDEV bn"
    proof (cases "b_dirty bf")
      case True
      then have "(ROOTDEV, bn) \<in> dty s" using b(1,6,7) unfolding dty_iff by blast
      then show ?thesis ..
    next
      case False
      then show ?thesis using b(8,9) by simp
    qed
  qed (rule fm got_cache_ok [OF ok g] got_cview [OF ok g] lkd_upd1 [OF b(1,5,2) lk] b(5))+
  from Q [OF this] r show ?thesis by (rule wp_RetI [rotated])
qed

text \<open>Overwriting the bytes of a buffer the caller holds, and setting or clearing its dirty bit.\<close>

definition bmod :: "kstate \<Rightarrow> nat \<Rightarrow> u8 list \<Rightarrow> bool \<Rightarrow> kstate" where
  "bmod t b d dt = t\<lparr>bufs := (bufs t)(b := (bufs t b)\<lparr>b_data := d, b_dirty := dt\<rparr>)\<rparr>"

lemma bmod_bframe: "bframe t (bmod t b d dt)"
  by (simp add: bframe_def bmod_def)

lemma bmod_post:
  assumes ok: "cache_ok t" and h: "holds t b bn" and d: "length d = BSIZE"
  shows "cache_ok (bmod t b d dt)" and "cview (bmod t b d dt) = (cview t)(bn := d)"
    and "holds (bmod t b d dt) b bn" and "others b t (bmod t b d dt)" and "lkd (bmod t b d dt) = lkd t"
    and "dty (bmod t b d dt) = (if dt then insert (ROOTDEV, bn) (dty t) else dty t - {(ROOTDEV, bn)})"
proof -
  note hD = holdsD [OF h]
  have e: "bmod t b d dt = upd1 t b ((bufs t b)\<lparr>b_data := d, b_dirty := dt\<rparr>) (ptable t)"
    by (simp add: bmod_def)
  show "cache_ok (bmod t b d dt)"
    unfolding e by (rule held_buf_cache_ok [OF ok hD(1,5,4) d])
  show "cview (bmod t b d dt) = (cview t)(bn := d)"
    unfolding e by (rule held_buf_cview [OF ok hD(1,5,4) d hD(3)])
  show "holds (bmod t b d dt) b bn"
    using h by (simp add: holds_def my_buf_def bmod_def)
  show "others b t (bmod t b d dt)" by (simp add: others_def bmod_def)
  have "(x, y) \<in> lkd (bmod t b d dt) \<longleftrightarrow> (x, y) \<in> lkd t" for x y
    unfolding lkd_iff by (rule ex_cong1) (simp add: bmod_def)
  then show "lkd (bmod t b d dt) = lkd t" by (simp add: set_eq_iff split_paired_all)
  have oth: "\<not> is_for ROOTDEV bn (bufs t i)" if "i < NBUF" "i \<noteq> b" for i
    using cache_ok_unique [OF ok that(1) hD(1) _ _ hD(3)] that(2) by fastforce
  have "(x, y) \<in> dty (bmod t b d dt) \<longleftrightarrow>
      (if dt then (x, y) = (ROOTDEV, bn) \<or> (x, y) \<in> dty t else (x, y) \<in> dty t \<and> (x, y) \<noteq> (ROOTDEV, bn))" for x y
  proof (cases "(x, y) = (ROOTDEV, bn)")
    case True
    have "(\<exists>i<NBUF. is_for ROOTDEV bn (bufs (bmod t b d dt) i) \<and> b_dirty (bufs (bmod t b d dt) i)) \<longleftrightarrow> dt"
    proof
      assume "\<exists>i<NBUF. is_for ROOTDEV bn (bufs (bmod t b d dt) i) \<and> b_dirty (bufs (bmod t b d dt) i)"
      then obtain i where i: "i < NBUF" "is_for ROOTDEV bn (bufs (bmod t b d dt) i)"
        "b_dirty (bufs (bmod t b d dt) i)" by auto
      then show dt using oth [of i] by (cases "i = b") (simp_all add: bmod_def)
    next
      assume dt
      then show "\<exists>i<NBUF. is_for ROOTDEV bn (bufs (bmod t b d dt) i) \<and> b_dirty (bufs (bmod t b d dt) i)"
        using hD(1,3) by (intro exI [of _ b]) (simp add: bmod_def)
    qed
    with True show ?thesis unfolding dty_iff by simp
  next
    case False
    then have "\<not> is_for x y (bufs t b)" using hD(3) by (auto simp: is_for_def)
    then have "(\<exists>i<NBUF. is_for x y (bufs (bmod t b d dt) i) \<and> b_dirty (bufs (bmod t b d dt) i)) \<longleftrightarrow>
       (\<exists>i<NBUF. is_for x y (bufs t i) \<and> b_dirty (bufs t i))"
      by (auto simp: bmod_def)
    with False show ?thesis unfolding dty_iff by auto
  qed
  then show "dty (bmod t b d dt) = (if dt then insert (ROOTDEV, bn) (dty t) else dty t - {(ROOTDEV, bn)})"
    by (simp add: set_eq_iff split_paired_all)
qed

definition brelse_post :: "kstate \<Rightarrow> nat \<Rightarrow> u32 \<Rightarrow> kstate \<Rightarrow> bool" where
  "brelse_post t b bn u \<longleftrightarrow>
     bframe t u \<and> cache_ok u \<and> cview u = cview t \<and> others b t u
   \<and> lkd u = lkd t - {(ROOTDEV, bn)} \<and> dty u = dty t"

lemma brelse_wp:
  assumes ok: "cache_ok t" and rdy: "ide_ready t" and h: "holds t b bn"
    and sync: "(ROOTDEV, bn) \<in> dty t \<or> cview t bn = dsk t ROOTDEV bn"
    and Q: "\<And>u. brelse_post t b bn u \<Longrightarrow> Q () u"
  shows "wp (brelse b) Q t"
proof -
  note hD = holdsD [OF h]
  have oth: "\<not> is_for ROOTDEV bn (bufs t i)" if "i < NBUF" "i \<noteq> b" for i
    using cache_ok_unique [OF ok that(1) hD(1) _ _ hD(3)] that(2) by fastforce
  have hl: "held t = []" using rdy by (simp add: ide_ready_def)
  have sy: "b_dirty (bufs t b) \<or> b_data (bufs t b) = dsk t ROOTDEV (b_blockno (bufs t b))"
  proof (cases "(ROOTDEV, bn) \<in> dty t")
    case True
    then have "b_dirty (bufs t b)" using oth unfolding dty_iff by blast
    then show ?thesis ..
  next
    case False
    then show ?thesis using sync holds_cview [OF ok h] is_forD [OF hD(3)] by simp
  qed
  obtain B pt where r: "brelse b t = Ret () (t\<lparr>bufs := B, ptable := pt\<rparr>)" and p: "same_procs (ptable t) pt"
    and c: "\<And>i. core (B i) = core (((bufs t)(b := released (bufs t b))) i)"
    and ok': "cache_ok (t\<lparr>bufs := B, ptable := pt\<rparr>)" and cv: "cview (t\<lparr>bufs := B, ptable := pt\<rparr>) = cview t"
    using brelse_spec [OF ok hl hD(1,2) sy] by metis
  let ?u = "t\<lparr>bufs := B, ptable := pt\<rparr>"
  have ci: "core (B i) = core (bufs t i)" if "i \<noteq> b" for i using c [of i] that by simp
  have cb: "core (B b) = core (released (bufs t b))" using c [of b] by simp
  have f: "is_for x y (B i) = is_for x y (bufs t i)" for x y i
    using coreD [OF ci [of i]] coreD [OF cb] by (cases "i = b") (simp_all add: is_for_def released_def)
  have dr: "b_dirty (B i) = b_dirty (bufs t i)" for i
    using coreD [OF ci [of i]] coreD [OF cb] by (cases "i = b") (simp_all add: released_def)
  have lk: "sl_locked (b_lock (B i)) \<longleftrightarrow> sl_locked (b_lock (bufs t i)) \<and> i \<noteq> b" for i
    using coreD [OF ci [of i]] coreD [OF cb] by (cases "i = b") (simp_all add: released_def)
  have "(x, y) \<in> dty ?u \<longleftrightarrow> (x, y) \<in> dty t" for x y unfolding dty_iff by (simp add: f dr)
  then have "dty ?u = dty t" by (simp add: set_eq_iff split_paired_all)
  moreover have "(x, y) \<in> lkd ?u \<longleftrightarrow> (x, y) \<in> lkd t \<and> (x, y) \<noteq> (ROOTDEV, bn)" for x y
  proof (cases "(x, y) = (ROOTDEV, bn)")
    case True
    then show ?thesis using oth unfolding lkd_iff by (simp add: f lk) blast
  next
    case False
    then have "\<not> is_for x y (bufs t b)" using hD(3) by (auto simp: is_for_def)
    then have "(\<exists>i<NBUF. is_for x y (bufs ?u i) \<and> sl_locked (b_lock (bufs ?u i))) \<longleftrightarrow>
       (\<exists>i<NBUF. is_for x y (bufs t i) \<and> sl_locked (b_lock (bufs t i)))"
      by (auto simp: f lk)
    with False show ?thesis unfolding lkd_iff by simp
  qed
  then have "lkd ?u = lkd t - {(ROOTDEV, bn)}" by (simp add: set_eq_iff split_paired_all)
  ultimately have "brelse_post t b bn ?u"
    using bframeI [OF p] ok' cv ci by (simp add: brelse_post_def others_def)
  from Q [OF this] r show ?thesis by (rule wp_RetI [rotated])
qed


definition bwrite_post :: "kstate \<Rightarrow> nat \<Rightarrow> u32 \<Rightarrow> kstate \<Rightarrow> bool" where
  "bwrite_post t b bn u \<longleftrightarrow>
     bframe (t\<lparr>disk := (disk t)(1 := (disk t 1)(unat bn := cview t bn)),
               dtrace := dtrace t @ [(1, unat bn, cview t bn)]\<rparr>) u
   \<and> cache_ok u \<and> cview u = cview t \<and> holds u b bn \<and> others b t u
   \<and> lkd u = lkd t \<and> dty u = dty t - {(ROOTDEV, bn)}"

lemma bwrite_wp:
  assumes ok: "cache_ok t" and rdy: "ide_ready t" and h: "holds t b bn" and bn: "unat bn < FSSIZE"
    and Q: "\<And>u. bwrite_post t b bn u \<Longrightarrow> Q () u"
  shows "wp (bwrite lw b) Q t"
proof -
  note hD = holdsD [OF h]
  have len: "length (b_data (bufs t b)) = BSIZE" using buf_okD(1) [OF cache_ok_buf [OF ok hD(1)]] .
  define pt where "pt = wake_tab (Ch_buf b) (ptable t)"
  let ?u = "written t b bn pt"
  let ?m = "bmod t b (b_data (bufs t b)) False"
  have r: "bwrite lw b t = Ret () ?u"
    using bwrite_run [OF rdy hD(2,3) bn] by (simp add: written_def pt_def)
  have bu: "bufs ?u = bufs ?m"
    using hD(4) by (auto simp: written_def bmod_def)
  have "lkd ?u = lkd ?m" "dty ?u = dty ?m" "others b t ?u = others b t ?m"
    unfolding lkd_def dty_def others_def bu by simp_all
  moreover have "holds ?u b bn"
    using hD bu by (simp add: holds_def my_buf_def bmod_def)
      (simp add: mylock_def written_def pt_def wake_tab_def)
  moreover have "bframe (t\<lparr>disk := (disk t)(1 := (disk t 1)(unat bn := cview t bn)),
               dtrace := dtrace t @ [(1, unat bn, cview t bn)]\<rparr>) ?u"
    using holds_cview [OF ok h] by (simp add: bframe_def written_def pt_def)
  ultimately have "bwrite_post t b bn ?u"
    using bmod_post [OF ok h len, of False] written_cache_ok [OF ok hD(1-3)] written_cview [OF ok hD(1-4)]
    by (simp add: bwrite_post_def)
  from Q [OF this] r show ?thesis by (rule wp_RetI [rotated])
qed

subsection \<open>Independence of the other globals\<close>

lemma bio_cong:
  assumes "bufs t = bufs s" and "disk t = disk s"
  shows "cache_ok t = cache_ok s" and "cview t = cview s" and "lkd t = lkd s" and "dty t = dty s"
proof -
  have d: "dsk t = dsk s" using assms by (simp add: dsk_def fun_eq_iff)
  show "cview t = cview s" by (rule ext, rule cview_cong) (simp_all add: assms d)
  have "buf_ok t = buf_ok s" by (rule ext) (simp add: buf_ok_def d)
  then show "cache_ok t = cache_ok s" by (simp add: cache_ok_def lru_def assms)
  show "lkd t = lkd s" "dty t = dty s" by (simp_all add: lkd_def dty_def assms)
qed

lemma bio_log [simp]:
  "cache_ok (s\<lparr>log := l\<rparr>) = cache_ok s" "cview (s\<lparr>log := l\<rparr>) = cview s"
  "lkd (s\<lparr>log := l\<rparr>) = lkd s" "dty (s\<lparr>log := l\<rparr>) = dty s"
  "holds (s\<lparr>log := l\<rparr>) b bn = holds s b bn" "ide_ready (s\<lparr>log := l\<rparr>) = ide_ready s"
  "dsk (s\<lparr>log := l\<rparr>) = dsk s"
  by (simp_all add: bio_cong [of "s\<lparr>log := l\<rparr>" s] holds_def my_buf_def mylock_def ide_ready_def dsk_def
      fun_eq_iff)

lemma bio_icache [simp]:
  "cache_ok (s\<lparr>icache := l\<rparr>) = cache_ok s" "cview (s\<lparr>icache := l\<rparr>) = cview s"
  "lkd (s\<lparr>icache := l\<rparr>) = lkd s" "dty (s\<lparr>icache := l\<rparr>) = dty s"
  "holds (s\<lparr>icache := l\<rparr>) b bn = holds s b bn" "ide_ready (s\<lparr>icache := l\<rparr>) = ide_ready s"
  "dsk (s\<lparr>icache := l\<rparr>) = dsk s"
  by (simp_all add: bio_cong [of "s\<lparr>icache := l\<rparr>" s] holds_def my_buf_def mylock_def ide_ready_def dsk_def
      fun_eq_iff)

lemma bio_sb [simp]:
  "cache_ok (s\<lparr>sb := l\<rparr>) = cache_ok s" "cview (s\<lparr>sb := l\<rparr>) = cview s"
  "lkd (s\<lparr>sb := l\<rparr>) = lkd s" "dty (s\<lparr>sb := l\<rparr>) = dty s"
  "holds (s\<lparr>sb := l\<rparr>) b bn = holds s b bn" "ide_ready (s\<lparr>sb := l\<rparr>) = ide_ready s"
  "dsk (s\<lparr>sb := l\<rparr>) = dsk s"
  by (simp_all add: bio_cong [of "s\<lparr>sb := l\<rparr>" s] holds_def my_buf_def mylock_def ide_ready_def dsk_def
      fun_eq_iff)

lemma bio_held [simp]:
  "cache_ok (s\<lparr>held := l\<rparr>) = cache_ok s" "cview (s\<lparr>held := l\<rparr>) = cview s"
  "lkd (s\<lparr>held := l\<rparr>) = lkd s" "dty (s\<lparr>held := l\<rparr>) = dty s"
  "holds (s\<lparr>held := l\<rparr>) b bn = holds s b bn" "dsk (s\<lparr>held := l\<rparr>) = dsk s"
  by (simp_all add: bio_cong [of "s\<lparr>held := l\<rparr>" s] holds_def my_buf_def mylock_def dsk_def fun_eq_iff)

subsection \<open>Properties of the buffer cache\<close>

definition zdisk :: "nat \<Rightarrow> nat \<Rightarrow> u8 list" where
  "zdisk d n = replicate BSIZE 0"

lemma bready0:
  assumes "\<And>i. core (bufs s i) = core buf0"
  shows "lkd s = {}" and "dty s = {}"
  using coreD [OF assms] by (auto simp: lkd_def dty_def buf0_def)

text \<open>A state to try the theorems on: \<^verbatim>\<open>binit\<close> has run on a machine whose disks are all zero.\<close>

definition zboot :: "kstate \<Rightarrow> bool" where
  "zboot s \<longleftrightarrow> binit (kstate0 zdisk) = Ret () s \<and> cache_ok s \<and> ide_ready s
     \<and> lkd s = {} \<and> dty s = {} \<and> lru s (rev [0..<NBUF]) \<and> cview s = (\<lambda>_. replicate BSIZE 0)
     \<and> (\<forall>i. core (bufs s i) = core buf0) \<and> log s = log0 \<and> held s = []"

lemma zboot_ex: "\<exists>s. zboot s"
proof -
  have z: "core (bufs (kstate0 zdisk) i) = core buf0" for i by (simp add: kstate0_def)
  have d: "length (disk (kstate0 zdisk) d n) = BSIZE" for d n by (simp add: kstate0_def zdisk_def)
  obtain B where r: "binit (kstate0 zdisk) = Ret () (kstate0 zdisk\<lparr>bufs := B\<rparr>)"
    and l: "lru (kstate0 zdisk\<lparr>bufs := B\<rparr>) (rev [0..<NBUF])" and c: "\<forall>i. core (B i) = core buf0"
    and ok: "cache_ok (kstate0 zdisk\<lparr>bufs := B\<rparr>)"
    and cv: "cview (kstate0 zdisk\<lparr>bufs := B\<rparr>) = dsk (kstate0 zdisk) ROOTDEV"
    by (rule binit_run [OF z d])
  have b: "lkd (kstate0 zdisk\<lparr>bufs := B\<rparr>) = {}" "dty (kstate0 zdisk\<lparr>bufs := B\<rparr>) = {}"
    using bready0 [of "kstate0 zdisk\<lparr>bufs := B\<rparr>"] c by simp_all
  have dz: "dsk (kstate0 zdisk) ROOTDEV = (\<lambda>_. replicate BSIZE 0)"
    by (simp add: dsk_def kstate0_def zdisk_def fun_eq_iff)
  have o: "ide_ready (kstate0 zdisk\<lparr>bufs := B\<rparr>)" "log (kstate0 zdisk\<lparr>bufs := B\<rparr>) = log0"
    "held (kstate0 zdisk\<lparr>bufs := B\<rparr>) = []"
    by (simp_all add: ide_ready_def kstate0_def)
  show ?thesis
    unfolding zboot_def
    by (intro exI conjI allI, rule r, rule ok, rule o, rule b, rule b, rule l, simp only: cv dz, simp add: c,
        rule o, rule o)
qed

lemma zbootD:
  assumes "zboot s"
  shows "binit (kstate0 zdisk) = Ret () s" "cache_ok s" "ide_ready s" "lkd s = {}" "dty s = {}"
    "lru s (rev [0..<NBUF])" "cview s = (\<lambda>_. replicate BSIZE 0)" "core (bufs s i) = core buf0"
    "log s = log0" "held s = []"
  using assms by (simp_all add: zboot_def)

text \<open>
  (C30) \<^verbatim>\<open>binit\<close>, run on the zeroed memory the kernel boots with, links every buffer into the
  ring (buffer \<open>NBUF - 1\<close> first), establishes the invariant of the cache, and leaves nothing cached:
  the content of every block is its sector.
\<close>

theorem binit_establishes_cache_ok:
  assumes "\<And>d n. length (drives d n) = BSIZE"
  shows "\<exists>s. binit (kstate0 drives) = Ret () s \<and> cache_ok s \<and> lru s (rev [0..<NBUF])
     \<and> cview s = dsk (kstate0 drives) ROOTDEV \<and> lkd s = {} \<and> dty s = {}"
proof -
  have z: "core (bufs (kstate0 drives) i) = core buf0" for i by (simp add: kstate0_def)
  have d: "length (disk (kstate0 drives) d n) = BSIZE" for d n by (simp add: kstate0_def assms)
  obtain B where r: "binit (kstate0 drives) = Ret () (kstate0 drives\<lparr>bufs := B\<rparr>)"
    and l: "lru (kstate0 drives\<lparr>bufs := B\<rparr>) (rev [0..<NBUF])" and c: "\<forall>i. core (B i) = core buf0"
    and ok: "cache_ok (kstate0 drives\<lparr>bufs := B\<rparr>)"
    and cv: "cview (kstate0 drives\<lparr>bufs := B\<rparr>) = dsk (kstate0 drives) ROOTDEV"
    by (rule binit_run [OF z d])
  then show ?thesis using bready0 [of "kstate0 drives\<lparr>bufs := B\<rparr>"] by auto
qed

theorem binit_establishes_cache_ok_witness:
  "\<exists>s. binit (kstate0 zdisk) = Ret () s \<and> cache_ok s \<and> lru s (rev [0..<NBUF])
     \<and> cview s = dsk (kstate0 zdisk) ROOTDEV \<and> lkd s = {} \<and> dty s = {}"
  by (rule binit_establishes_cache_ok) (simp add: zdisk_def)

text \<open>
  (C28) \<^verbatim>\<open>bread\<close> of a block of the root disk that nobody has locked, while a buffer can be found
  for it, returns a buffer that the caller has locked, that is the only one for the block, and
  whose bytes are the block's content as the kernel saw it before the call. The content of no
  block, no lock of another process and no other global changes.
\<close>

theorem bread_correct:
  assumes "cache_ok s" and "ide_ready s" and "unat bn < FSSIZE" and "(ROOTDEV, bn) \<notin> lkd s"
    and "(ROOTDEV, bn) \<in> dty s \<or> card (dty s \<union> lkd s) < NBUF"
  shows "\<exists>b t. bread lr ROOTDEV bn s = Ret b t \<and> holds t b bn \<and> b_data (bufs t b) = cview s bn
     \<and> cache_ok t \<and> cview t = cview s \<and> lkd t = insert (ROOTDEV, bn) (lkd s) \<and> dty t = dty s
     \<and> bframe s t \<and> others b s t"
proof -
  have "wp (bread lr ROOTDEV bn) (bread_post s bn) s"
    by (rule bread_wp [OF assms])
  then obtain b t where r: "bread lr ROOTDEV bn s = Ret b t" and p: "bread_post s bn b t"
    by (rule wpE)
  moreover have "b_data (bufs t b) = cview s bn"
    using p holds_cview [of t b bn] by (simp add: bread_post_def)
  ultimately show ?thesis unfolding bread_post_def by blast
qed

theorem bread_correct_witness:
  "\<exists>s b t. binit (kstate0 zdisk) = Ret () s \<and> bread (\<lambda>_. panic []) ROOTDEV 5 s = Ret b t
     \<and> holds t b 5 \<and> b_data (bufs t b) = replicate BSIZE 0"
proof -
  obtain s where "zboot s" using zboot_ex by blast
  note s = zbootD [OF this]
  have "\<exists>b t. bread (\<lambda>_. panic []) ROOTDEV 5 s = Ret b t \<and> holds t b 5 \<and> b_data (bufs t b) = cview s 5
     \<and> cache_ok t \<and> cview t = cview s \<and> lkd t = insert (ROOTDEV, 5) (lkd s) \<and> dty t = dty s
     \<and> bframe s t \<and> others b s t"
    by (rule bread_correct) (use s(2-5) in simp_all)
  then show ?thesis using s(1,7) by auto
qed

text \<open>
  (C29) When the block is not cached, \<^verbatim>\<open>bget\<close> takes the least recently used buffer that is neither
  referenced nor dirty, and panics exactly when there is none: dirty buffers are never evicted,
  however long ago they were used.
\<close>

theorem bget_recycles_lru:
  assumes "cache_ok s" and "lru s xs" and "held s = []"
    and "\<And>i. i < NBUF \<Longrightarrow> \<not> is_for dev bn (bufs s i)"
  shows "bget dev bn s =
     (case find (\<lambda>i. b_refcnt (bufs s i) = 0 \<and> \<not> b_dirty (bufs s i)) (rev xs) of
        None \<Rightarrow> Panic ''bget: no buffers''
      | Some v \<Rightarrow> Ret v (s\<lparr>bufs := (bufs s)(v := (bufs s v)\<lparr>b_dev := dev, b_blockno := bn,
               b_valid := False, b_dirty := False, b_refcnt := 1, b_lock := mylock s\<rparr>)\<rparr>))"
proof -
  have m: "bget dev bn s = (case find (\<lambda>i. b_refcnt (bufs s i) = 0 \<and> \<not> b_dirty (bufs s i)) (rev xs) of
        None \<Rightarrow> Panic ''bget: no buffers''
      | Some v \<Rightarrow> bind (acquiresleep (SlBuf v)) (\<lambda>_. ret v)
            (s\<lparr>bufs := (bufs s)(v := (bufs s v)\<lparr>b_dev := dev, b_blockno := bn,
               b_valid := False, b_dirty := False, b_refcnt := 1\<rparr>)\<rparr>))"
    using bget_miss [OF assms(2-4)] unfolding reusable_def .
  show ?thesis
  proof (cases "find (\<lambda>i. b_refcnt (bufs s i) = 0 \<and> \<not> b_dirty (bufs s i)) (rev xs)")
    case None
    then show ?thesis by (simp add: m)
  next
    case (Some v)
    from find_SomeD [OF this] have v: "v < NBUF" "b_refcnt (bufs s v) = 0"
      using assms(2) unfolding lru_def by auto
    have "\<not> sl_locked (b_lock (bufs s v))"
      by (rule buf_okD(5) [OF cache_ok_buf [OF assms(1) v(1)] v(2)])
    then show ?thesis using Some assms(3) by (simp add: m mylock_def)
  qed
qed

theorem bget_recycles_lru_witness:
  "\<exists>s t. binit (kstate0 zdisk) = Ret () s \<and> bget ROOTDEV 7 s = Ret 0 t \<and> b_blockno (bufs t 0) = 7"
proof -
  obtain s where "zboot s" using zboot_ex by blast
  note s = zbootD [OF this]
  note f = coreD [OF s(8)]
  have nf: "\<not> is_for ROOTDEV 7 (bufs s i)" for i using f(3) [of i] by (simp add: is_for_def buf0_def)
  have "rev (rev [0..<NBUF]) = 0 # [1..<NBUF]" by (simp add: upt_conv_Cons)
  then have "find (\<lambda>i. b_refcnt (bufs s i) = 0 \<and> \<not> b_dirty (bufs s i)) (rev (rev [0..<NBUF])) = Some 0"
    using f by (simp add: buf0_def)
  then show ?thesis
    using bget_recycles_lru [OF s(2,6,10) nf] s(1) by simp
qed

text \<open>
  (C12) \<^verbatim>\<open>brelse\<close> implements the abstract LRU list: the doubly linked ring that represented the
  list \<open>xs\<close> represents, after six pointer assignments, the list with the released buffer moved to
  the front, and the buffer is unlocked with reference count 0.
\<close>

theorem brelse_refines_move_to_front:
  assumes "cache_ok t" and "held t = []" and "b < NBUF" and "my_buf t b" and "lru t xs"
    and "b_dirty (bufs t b) \<or> \<not> b_valid (bufs t b) \<or> b_data (bufs t b) = dsk t (b_dev (bufs t b)) (b_blockno (bufs t b))"
  shows "\<exists>u. brelse b t = Ret () u \<and> lru u (b # remove1 b xs) \<and> cache_ok u \<and> cview u = cview t
     \<and> b_lock (bufs u b) = unlocked \<and> b_refcnt (bufs u b) = 0"
proof -
  obtain B pt where "brelse b t = Ret () (t\<lparr>bufs := B, ptable := pt\<rparr>)"
    "cache_ok (t\<lparr>bufs := B, ptable := pt\<rparr>)" "cview (t\<lparr>bufs := B, ptable := pt\<rparr>) = cview t"
    "\<And>i. core (B i) = core (((bufs t)(b := released (bufs t b))) i)"
    "\<And>xs. lru t xs \<Longrightarrow> lru (t\<lparr>bufs := B, ptable := pt\<rparr>) (b # remove1 b xs)"
    by (rule brelse_spec [OF assms(1-4)]) (use assms(6) in auto)
  moreover from this(4) [of b] have "b_lock (B b) = unlocked" "b_refcnt (B b) = 0"
    using coreD [of "B b" "released (bufs t b)"] by (simp_all add: released_def)
  ultimately show ?thesis using assms(5) by (intro exI [of _ "t\<lparr>bufs := B, ptable := pt\<rparr>"]) auto
qed

theorem brelse_refines_move_to_front_witness:
  "\<exists>s b t u xs. binit (kstate0 zdisk) = Ret () s \<and> bread (\<lambda>_. panic []) ROOTDEV 5 s = Ret b t
     \<and> brelse b t = Ret () u \<and> lru t xs \<and> lru u (b # remove1 b xs)"
proof -
  obtain s where "zboot s" using zboot_ex by blast
  note s = zbootD [OF this]
  have "wp (bread (\<lambda>_. panic []) ROOTDEV 5) (bread_post s 5) s"
    by (rule bread_wp) (use s(2-5) in simp_all)
  then obtain b t where r: "bread (\<lambda>_. panic []) ROOTDEV 5 s = Ret b t" and p: "bread_post s 5 b t" by (rule wpE)
  then have t: "cache_ok t" "holds t b 5" "held t = []" "cview t 5 = dsk t ROOTDEV 5"
    using s(5,10) bframeD(1,22) [of s t] by (simp_all add: bread_post_def)
  obtain xs where xs: "lru t xs" by (rule cache_ok_lruE [OF t(1)])
  have "b_data (bufs t b) = dsk t (b_dev (bufs t b)) (b_blockno (bufs t b))"
    using t(4) holds_cview [OF t(1,2)] is_forD [OF holdsD(3) [OF t(2)]] by simp
  with brelse_refines_move_to_front [OF t(1,3) holdsD(1,2) [OF t(2)] xs] s(1) r xs show ?thesis by blast
qed

end
