(* ===== verification/Fs_Layout.thy ===== *)
theory Fs_Layout
  imports Kstate
begin

text \<open>
  The on-disk structures of \<^verbatim>\<open>fs.h\<close> and \<^verbatim>\<open>log.h\<close>, byte by byte: the superblock, the inode on
  disk, the directory entry and the header of the log. The C code reads and writes them by
  casting a pointer into a block to a pointer to the struct; here \<open>get_dinode d off\<close> is the
  struct found at offset \<open>off\<close> of the bytes \<open>d\<close> and \<open>put_dinode d off x\<close> the bytes after the struct
  has been stored there. The lemmas are the round trips, and that a store leaves the structs
  stored beside it alone.
\<close>

subsection \<open>Superblock\<close>

definition get_superblock :: "u8 list \<Rightarrow> superblock" where
  "get_superblock d = \<lparr>sb_size = get32 d 0, sb_nblocks = get32 d 4, sb_ninodes = get32 d 8,
     sb_nlog = get32 d 12, sb_logstart = get32 d 16, sb_inodestart = get32 d 20,
     sb_bmapstart = get32 d 24\<rparr>"

definition superblock_bytes :: "superblock \<Rightarrow> u8 list" where
  "superblock_bytes x = bytes32s [sb_size x, sb_nblocks x, sb_ninodes x, sb_nlog x, sb_logstart x,
     sb_inodestart x, sb_bmapstart x]"

lemma get32_bytes32s:
  assumes "i < length ws"
  shows "get32 (pre @ bytes32s ws @ post) (length pre + 4 * i) = ws ! i"
proof -
  have "get32s (pre @ bytes32s ws @ post) (length pre) (length ws) ! i = ws ! i"
    by (simp add: get32s_bytes32s)
  then show ?thesis using assms by (simp add: get32s_def)
qed

lemma get_superblock_bytes [simp]:
  "get_superblock (bsplice d 0 (superblock_bytes x)) = x"
proof -
  let ?ws = "[sb_size x, sb_nblocks x, sb_ninodes x, sb_nlog x, sb_logstart x, sb_inodestart x, sb_bmapstart x]"
  have "get32 (bsplice d 0 (superblock_bytes x)) (4 * i) = ?ws ! i" if "i < 7" for i
    using get32_bytes32s [of i ?ws "[]"] that by (simp add: bsplice_def superblock_bytes_def)
  from this [of 0] this [of 1] this [of 2] this [of 3] this [of 4] this [of 5] this [of 6]
  show ?thesis by (simp add: get_superblock_def)
qed

subsection \<open>Inodes on disk\<close>

record dinode =
  di_type :: u16
  di_major :: u16
  di_minor :: u16
  di_nlink :: u16
  di_size :: u32
  di_addrs :: "u32 list"

abbreviation (input) DINODE_SIZE :: nat where "DINODE_SIZE \<equiv> 64"
abbreviation (input) IPB :: nat where "IPB \<equiv> 8"
abbreviation (input) BPB :: nat where "BPB \<equiv> 4096"

definition get_dinode :: "u8 list \<Rightarrow> nat \<Rightarrow> dinode" where
  "get_dinode d off = \<lparr>di_type = get16 d off, di_major = get16 d (off + 2),
     di_minor = get16 d (off + 4), di_nlink = get16 d (off + 6), di_size = get32 d (off + 8),
     di_addrs = get32s d (off + 12) (NDIRECT + 1)\<rparr>"

definition dinode_bytes :: "dinode \<Rightarrow> u8 list" where
  "dinode_bytes x = bytes16 (di_type x) @ bytes16 (di_major x) @ bytes16 (di_minor x)
     @ bytes16 (di_nlink x) @ bytes32 (di_size x) @ bytes32s (di_addrs x)"

definition put_dinode :: "u8 list \<Rightarrow> nat \<Rightarrow> dinode \<Rightarrow> u8 list" where
  "put_dinode d off x = bsplice d off (dinode_bytes x)"

definition dinode_wf :: "dinode \<Rightarrow> bool" where
  "dinode_wf x \<longleftrightarrow> length (di_addrs x) = NDIRECT + 1"

lemma length_dinode_bytes [simp]: "dinode_wf x \<Longrightarrow> length (dinode_bytes x) = DINODE_SIZE"
  by (simp add: dinode_bytes_def dinode_wf_def)

lemma dinode_wf_get [simp]: "dinode_wf (get_dinode d off)"
  by (simp add: dinode_wf_def get_dinode_def)

lemma length_put_dinode [simp]:
  "dinode_wf x \<Longrightarrow> off + DINODE_SIZE \<le> length d \<Longrightarrow> length (put_dinode d off x) = length d"
  by (simp add: put_dinode_def)

lemma get16_at: "get16 (pre @ bytes16 w @ post) (length pre) = w"
  by (simp add: get16_def bslice_def)

lemma get32_at: "get32 (pre @ bytes32 w @ post) (length pre) = w"
  by (simp add: get32_def bslice_def)

lemma get_put_dinode [simp]:
  assumes "dinode_wf x" and "off + DINODE_SIZE \<le> length d"
  shows "get_dinode (put_dinode d off x) off = x"
proof -
  define pre post where "pre = take off d" and "post = drop (off + 64) d"
  have lp: "length pre = off" using assms(2) by (simp add: pre_def)
  let ?d = "put_dinode d off x"
  have e: "?d = pre @ dinode_bytes x @ post"
    using assms by (simp add: put_dinode_def bsplice_def pre_def post_def)
  note f = e [unfolded dinode_bytes_def]
  have "get16 ?d off = di_type x"
    using get16_at [of pre "di_type x"] by (simp add: f lp)
  moreover have "get16 ?d (off + 2) = di_major x"
    using get16_at [of "pre @ bytes16 (di_type x)"] by (simp add: f lp)
  moreover have "get16 ?d (off + 4) = di_minor x"
    using get16_at [of "pre @ bytes16 (di_type x) @ bytes16 (di_major x)"] by (simp add: f lp)
  moreover have "get16 ?d (off + 6) = di_nlink x"
    using get16_at [of "pre @ bytes16 (di_type x) @ bytes16 (di_major x) @ bytes16 (di_minor x)"]
    by (simp add: f lp)
  moreover have "get32 ?d (off + 8) = di_size x"
    using get32_at [of "pre @ bytes16 (di_type x) @ bytes16 (di_major x) @ bytes16 (di_minor x) @ bytes16 (di_nlink x)"]
    by (simp add: f lp)
  moreover have "get32s ?d (off + 12) 13 = di_addrs x"
    using get32s_bytes32s [of 13 "di_addrs x" "pre @ bytes16 (di_type x) @ bytes16 (di_major x)
        @ bytes16 (di_minor x) @ bytes16 (di_nlink x) @ bytes32 (di_size x)" post] assms(1)
    by (simp add: f lp dinode_wf_def)
  ultimately show ?thesis by (simp add: get_dinode_def)
qed

lemma get16_bsplice_other:
  assumes "off + length xs \<le> length d" "o2 + 2 \<le> length d" "o2 + 2 \<le> off \<or> off + length xs \<le> o2"
  shows "get16 (bsplice d off xs) o2 = get16 d o2"
  using assms by (simp add: get16_def bslice_bsplice_other)

lemma get32_bsplice_other:
  assumes "off + length xs \<le> length d" "o2 + 4 \<le> length d" "o2 + 4 \<le> off \<or> off + length xs \<le> o2"
  shows "get32 (bsplice d off xs) o2 = get32 d o2"
  using assms by (simp add: get32_def bslice_bsplice_other)

lemma get_put_dinode_other:
  assumes "dinode_wf x" and "off + DINODE_SIZE \<le> length d" and "o2 + DINODE_SIZE \<le> length d"
    and "o2 + DINODE_SIZE \<le> off \<or> off + DINODE_SIZE \<le> o2"
  shows "get_dinode (put_dinode d off x) o2 = get_dinode d o2"
proof -
  let ?d = "bsplice d off (dinode_bytes x)"
  have l: "length (dinode_bytes x) = 64" using assms(1) by simp
  have 16: "get16 ?d (o2 + k) = get16 d (o2 + k)" if "k + 2 \<le> 64" for k
    by (rule get16_bsplice_other) (use assms that l in auto)
  have 32: "get32 ?d (o2 + k) = get32 d (o2 + k)" if "k + 4 \<le> 64" for k
    by (rule get32_bsplice_other) (use assms that l in auto)
  have "get32s ?d (o2 + 12) 13 = get32s d (o2 + 12) 13"
    unfolding get32s_def
  proof (rule map_cong)
    fix i assume "i \<in> set [0..<13]"
    then show "get32 ?d (o2 + 12 + 4 * i) = get32 d (o2 + 12 + 4 * i)"
      using 32 [of "12 + 4 * i"] by (simp add: add.assoc)
  qed simp
  then show ?thesis
    using 16 [of 0] 16 [of 2] 16 [of 4] 16 [of 6] 32 [of 8] by (simp add: get_dinode_def put_dinode_def)
qed

subsection \<open>Directory entries\<close>

record dirent =
  de_inum :: u16
  de_name :: "u8 list"

abbreviation (input) DIRENT_SIZE :: nat where "DIRENT_SIZE \<equiv> 16"

definition get_dirent :: "u8 list \<Rightarrow> dirent" where
  "get_dirent d = \<lparr>de_inum = get16 d 0, de_name = bslice d 2 DIRSIZ\<rparr>"

definition dirent_bytes :: "dirent \<Rightarrow> u8 list" where
  "dirent_bytes x = bytes16 (de_inum x) @ de_name x"

lemma get_dirent_bytes [simp]:
  "length (de_name x) = DIRSIZ \<Longrightarrow> get_dirent (dirent_bytes x) = x"
  using get16_at [of "[]" "de_inum x" "de_name x"] bslice_append_right [of "bytes16 (de_inum x)" "de_name x" 0 14]
  by (simp add: get_dirent_def dirent_bytes_def) (simp add: bslice_def)

lemma length_dirent_bytes [simp]: "length (de_name x) = DIRSIZ \<Longrightarrow> length (dirent_bytes x) = DIRENT_SIZE"
  by (simp add: dirent_bytes_def)

subsection \<open>Header of the log\<close>

definition hdr_n :: "u8 list \<Rightarrow> int" where
  "hdr_n d = sint (get32 d 0)"

definition hdr_block :: "u8 list \<Rightarrow> nat \<Rightarrow> u32" where
  "hdr_block d i = get32 d (4 + 4 * i)"

definition put_hdr_n :: "u8 list \<Rightarrow> int \<Rightarrow> u8 list" where
  "put_hdr_n d n = put32 d 0 (word_of_int n)"

definition put_hdr_block :: "u8 list \<Rightarrow> nat \<Rightarrow> u32 \<Rightarrow> u8 list" where
  "put_hdr_block d i w = put32 d (4 + 4 * i) w"

lemma hdr_put_n [simp]:
  assumes "length d = BSIZE" and "- (2 ^ 31) \<le> n" and "n < 2 ^ 31"
  shows "hdr_n (put_hdr_n d n) = n"
  using assms by (simp add: hdr_n_def put_hdr_n_def sint_sbintrunc' signed_take_bit_int_eq_self)

lemma length_put_hdr [simp]:
  "length d = BSIZE \<Longrightarrow> length (put_hdr_n d n) = BSIZE"
  "length d = BSIZE \<Longrightarrow> i < 30 \<Longrightarrow> length (put_hdr_block d i w) = BSIZE"
  by (simp_all add: put_hdr_n_def put_hdr_block_def)

lemma hdr_n_put_block [simp]:
  "length d = BSIZE \<Longrightarrow> i < 30 \<Longrightarrow> hdr_n (put_hdr_block d i w) = hdr_n d"
  by (simp add: hdr_n_def put_hdr_block_def)

lemma hdr_block_put_n [simp]:
  "length d = BSIZE \<Longrightarrow> i < 30 \<Longrightarrow> hdr_block (put_hdr_n d n) i = hdr_block d i"
  by (simp add: hdr_block_def put_hdr_n_def)

lemma hdr_block_put_block [simp]:
  assumes "length d = BSIZE" and "i < 30" and "j < 30"
  shows "hdr_block (put_hdr_block d i w) j = (if i = j then w else hdr_block d j)"
proof (cases "i = j")
  case True
  then show ?thesis using assms by (simp add: hdr_block_def put_hdr_block_def)
next
  case False
  then have "4 + 4 * j + 4 \<le> 4 + 4 * i \<or> 4 + 4 * i + 4 \<le> 4 + 4 * j" by arith
  then show ?thesis using assms False by (simp add: hdr_block_def put_hdr_block_def)
qed

end
