(* ===== verification/Log.thy ===== *)
theory Log
  imports Bio_Rules Fs_Layout
begin

text \<open>
  The write-ahead log \<^verbatim>\<open>log.c\<close>: one log for the root disk (\<open>log\<close>) and a second one,
  \<open>loop_log\<close>, for the file system of a mounted loop device. A system call brackets its
  updates with \<open>begin_op\<close>/\<open>end_op\<close>; \<open>log_write\<close> records the blocks it changed; the last
  \<open>end_op\<close> commits: it copies the recorded blocks to the log, writes the header, and installs
  the blocks at their home locations. At boot \<open>recover_from_log\<close> installs what a committed
  header names.

  The loops over the header run \<^verbatim>\<open>tail\<close> up to \<^verbatim>\<open>lh.n\<close> and read \<^verbatim>\<open>lh.block[tail]\<close>, an array of
  \<open>LOGSIZE\<close> entries: an index outside it is a \<open>Fault\<close>. So \<open>LOGSIZE + 1\<close> rounds of the loops
  are always enough.
\<close>

subsection \<open>Operations\<close>

definition readsb :: "(nat \<Rightarrow> unit kM) \<Rightarrow> u32 \<Rightarrow> superblock kM" where
  "readsb lr dev =
     bind (bread lr dev 1) (\<lambda>bp.
     bind (gets (\<lambda>s. get_superblock (b_data (bufs s bp)))) (\<lambda>x.
     bind (brelse bp) (\<lambda>_.
     ret x)))"

text \<open>\<^verbatim>\<open>lh.block[i]\<close> and \<^verbatim>\<open>memmove(dst->data, src->data, BSIZE)\<close>.\<close>

definition lh_get :: "log \<Rightarrow> nat \<Rightarrow> u32 kM" where
  "lh_get l i = (if i < 30 then ret (lh_block l i) else fault ''lh.block'')"

definition bcopy :: "nat \<Rightarrow> nat \<Rightarrow> unit kM" where
  "bcopy dst src =
     bind (gets (\<lambda>s. b_data (bufs s src))) (\<lambda>d.
     upd_buf dst (\<lambda>bf. bf\<lparr>b_data := d\<rparr>))"

primrec install_trans_from :: "(nat \<Rightarrow> unit kM) \<Rightarrow> (nat \<Rightarrow> unit kM) \<Rightarrow> nat \<Rightarrow> nat \<Rightarrow> unit kM" where
  "install_trans_from lr lw 0 tail = fault ''install_trans''"
| "install_trans_from lr lw (Suc k) tail =
     bind (gets log) (\<lambda>l.
     if int tail < lh_n l then
       bind (bread lr (l_dev l) (l_start l + of_nat tail + 1)) (\<lambda>lbuf.
       bind (gets log) (\<lambda>l.
       bind (lh_get l tail) (\<lambda>bn.
       bind (bread lr (l_dev l) bn) (\<lambda>dbuf.
       bind (bcopy dbuf lbuf) (\<lambda>_.
       bind (bwrite lw dbuf) (\<lambda>_.
       bind (brelse lbuf) (\<lambda>_.
       bind (brelse dbuf) (\<lambda>_.
       install_trans_from lr lw k (Suc tail)))))))))
     else ret ())"

definition install_trans :: "(nat \<Rightarrow> unit kM) \<Rightarrow> (nat \<Rightarrow> unit kM) \<Rightarrow> unit kM" where
  "install_trans lr lw = install_trans_from lr lw 31 0"

primrec install_trans_loop_from :: "(nat \<Rightarrow> unit kM) \<Rightarrow> (nat \<Rightarrow> unit kM) \<Rightarrow> nat \<Rightarrow> nat \<Rightarrow> unit kM" where
  "install_trans_loop_from lr lw 0 tail = fault ''install_trans_loop''"
| "install_trans_loop_from lr lw (Suc k) tail =
     bind (gets loop_log) (\<lambda>l.
     if int tail < lh_n l then
       bind (bread lr (l_dev l) (l_start l + of_nat tail + 1)) (\<lambda>lbuf.
       bind (gets loop_log) (\<lambda>l.
       bind (lh_get l tail) (\<lambda>bn.
       bind (bread lr (l_dev l) bn) (\<lambda>dbuf.
       bind (bcopy dbuf lbuf) (\<lambda>_.
       bind (bwrite lw dbuf) (\<lambda>_.
       bind (brelse lbuf) (\<lambda>_.
       bind (brelse dbuf) (\<lambda>_.
       install_trans_loop_from lr lw k (Suc tail)))))))))
     else ret ())"

definition install_trans_loop :: "(nat \<Rightarrow> unit kM) \<Rightarrow> (nat \<Rightarrow> unit kM) \<Rightarrow> unit kM" where
  "install_trans_loop lr lw =
     bind (gets is_loop_mounted) (\<lambda>m.
     bind (panic_if (\<not> m) ''[install_trans_loop] loop dev not mounted'') (\<lambda>_.
     install_trans_loop_from lr lw 31 0))"

primrec read_head_from :: "u8 list \<Rightarrow> nat \<Rightarrow> nat \<Rightarrow> unit kM" where
  "read_head_from d 0 i = fault ''read_head''"
| "read_head_from d (Suc k) i =
     bind (gets log) (\<lambda>l.
     if int i < lh_n l then
       if i < 30 then
         bind (modify (\<lambda>s. s\<lparr>log := (log s)\<lparr>lh_block := (lh_block (log s))(i := hdr_block d i)\<rparr>\<rparr>)) (\<lambda>_.
         read_head_from d k (Suc i))
       else fault ''lh.block''
     else ret ())"

definition read_head :: "(nat \<Rightarrow> unit kM) \<Rightarrow> unit kM" where
  "read_head lr =
     bind (gets log) (\<lambda>l.
     bind (bread lr (l_dev l) (l_start l)) (\<lambda>b.
     bind (gets (\<lambda>s. b_data (bufs s b))) (\<lambda>d.
     bind (modify (\<lambda>s. s\<lparr>log := (log s)\<lparr>lh_n := hdr_n d\<rparr>\<rparr>)) (\<lambda>_.
     bind (read_head_from d 31 0) (\<lambda>_.
     brelse b)))))"

primrec write_head_from :: "log \<Rightarrow> nat \<Rightarrow> nat \<Rightarrow> nat \<Rightarrow> unit kM" where
  "write_head_from l b 0 i = fault ''write_head''"
| "write_head_from l b (Suc k) i =
     (if int i < lh_n l then
       bind (lh_get l i) (\<lambda>bn.
       bind (upd_buf b (\<lambda>bf. bf\<lparr>b_data := put_hdr_block (b_data bf) i bn\<rparr>)) (\<lambda>_.
       write_head_from l b k (Suc i)))
     else ret ())"

definition write_head :: "(nat \<Rightarrow> unit kM) \<Rightarrow> (nat \<Rightarrow> unit kM) \<Rightarrow> unit kM" where
  "write_head lr lw =
     bind (gets log) (\<lambda>l.
     bind (bread lr (l_dev l) (l_start l)) (\<lambda>b.
     bind (gets log) (\<lambda>l.
     bind (upd_buf b (\<lambda>bf. bf\<lparr>b_data := put_hdr_n (b_data bf) (lh_n l)\<rparr>)) (\<lambda>_.
     bind (write_head_from l b 31 0) (\<lambda>_.
     bind (bwrite lw b) (\<lambda>_.
     brelse b))))))"

definition write_head_loop :: "(nat \<Rightarrow> unit kM) \<Rightarrow> (nat \<Rightarrow> unit kM) \<Rightarrow> unit kM" where
  "write_head_loop lr lw =
     bind (gets is_loop_mounted) (\<lambda>m.
     bind (panic_if (\<not> m) ''[write_head_loop] loop dev not mounted'') (\<lambda>_.
     bind (gets loop_log) (\<lambda>l.
     bind (bread lr (l_dev l) (l_start l)) (\<lambda>b.
     bind (gets loop_log) (\<lambda>l.
     bind (upd_buf b (\<lambda>bf. bf\<lparr>b_data := put_hdr_n (b_data bf) (lh_n l)\<rparr>)) (\<lambda>_.
     bind (write_head_from l b 31 0) (\<lambda>_.
     bind (bwrite lw b) (\<lambda>_.
     brelse b))))))))"

definition recover_from_log :: "(nat \<Rightarrow> unit kM) \<Rightarrow> (nat \<Rightarrow> unit kM) \<Rightarrow> unit kM" where
  "recover_from_log lr lw =
     bind (read_head lr) (\<lambda>_.
     bind (install_trans lr lw) (\<lambda>_.
     bind (modify (\<lambda>s. s\<lparr>log := (log s)\<lparr>lh_n := 0\<rparr>, loop_log := (loop_log s)\<lparr>lh_n := 0\<rparr>\<rparr>)) (\<lambda>_.
     write_head lr lw)))"

definition initlog :: "(nat \<Rightarrow> unit kM) \<Rightarrow> (nat \<Rightarrow> unit kM) \<Rightarrow> u32 \<Rightarrow> unit kM" where
  "initlog lr lw dev =
     bind (panic_if (BSIZE \<le> 4 + 4 * nat LOGSIZE) ''initlog: too big logheader'') (\<lambda>_.
     bind (readsb lr dev) (\<lambda>x.
     bind (modify (\<lambda>s. s\<lparr>log := (log s)\<lparr>l_start := sb_logstart x, l_size := sint (sb_nlog x), l_dev := dev\<rparr>\<rparr>)) (\<lambda>_.
     bind (modify (\<lambda>s. s\<lparr>loop_log := (loop_log s)\<lparr>l_start := sb_logstart x, l_size := sint (sb_nlog x),
                         l_dev := 0 OR LOOPDEV_MASK\<rparr>\<rparr>)) (\<lambda>_.
     recover_from_log lr lw))))"

definition begin_op :: "unit kM" where
  "begin_op =
     bind (acquire Lk_log) (\<lambda>_.
     bind (gets (\<lambda>s. (log s, loop_log s, is_loop_mounted s))) (\<lambda>(l, ll, m).
     if l_committing l \<or> (m \<and> l_committing ll) then sleep Ch_log Lk_log
     else if lh_n l + (l_outstanding l + 1) * MAXOPBLOCKS > LOGSIZE
          \<or> (m \<and> lh_n ll + (l_outstanding ll + 1) * MAXOPBLOCKS > LOGSIZE) then sleep Ch_log Lk_log
     else
       bind (modify (\<lambda>s. s\<lparr>log := (log s)\<lparr>l_outstanding := l_outstanding (log s) + 1\<rparr>\<rparr>)) (\<lambda>_.
       bind (modify (\<lambda>s. s\<lparr>loop_log := (loop_log s)\<lparr>l_outstanding := l_outstanding (loop_log s) + 1\<rparr>\<rparr>)) (\<lambda>_.
       release Lk_log))))"

primrec write_log_from :: "(nat \<Rightarrow> unit kM) \<Rightarrow> (nat \<Rightarrow> unit kM) \<Rightarrow> nat \<Rightarrow> nat \<Rightarrow> unit kM" where
  "write_log_from lr lw 0 tail = fault ''write_log''"
| "write_log_from lr lw (Suc k) tail =
     bind (gets log) (\<lambda>l.
     if int tail < lh_n l then
       bind (bread lr (l_dev l) (l_start l + of_nat tail + 1)) (\<lambda>to.
       bind (gets log) (\<lambda>l.
       bind (lh_get l tail) (\<lambda>bn.
       bind (bread lr (l_dev l) bn) (\<lambda>from.
       bind (bcopy to from) (\<lambda>_.
       bind (bwrite lw to) (\<lambda>_.
       bind (brelse from) (\<lambda>_.
       bind (brelse to) (\<lambda>_.
       write_log_from lr lw k (Suc tail)))))))))
     else ret ())"

definition write_log :: "(nat \<Rightarrow> unit kM) \<Rightarrow> (nat \<Rightarrow> unit kM) \<Rightarrow> unit kM" where
  "write_log lr lw = write_log_from lr lw 31 0"

primrec write_log_loop_from :: "(nat \<Rightarrow> unit kM) \<Rightarrow> (nat \<Rightarrow> unit kM) \<Rightarrow> nat \<Rightarrow> nat \<Rightarrow> unit kM" where
  "write_log_loop_from lr lw 0 tail = fault ''write_log_loop''"
| "write_log_loop_from lr lw (Suc k) tail =
     bind (gets loop_log) (\<lambda>l.
     if int tail < lh_n l then
       bind (bread lr (l_dev l) (l_start l + of_nat tail + 1)) (\<lambda>to.
       bind (gets loop_log) (\<lambda>l.
       bind (lh_get l tail) (\<lambda>bn.
       bind (bread lr (l_dev l) bn) (\<lambda>from.
       bind (bcopy to from) (\<lambda>_.
       bind (bwrite lw to) (\<lambda>_.
       bind (brelse from) (\<lambda>_.
       bind (brelse to) (\<lambda>_.
       write_log_loop_from lr lw k (Suc tail)))))))))
     else ret ())"

definition write_log_loop :: "(nat \<Rightarrow> unit kM) \<Rightarrow> (nat \<Rightarrow> unit kM) \<Rightarrow> unit kM" where
  "write_log_loop lr lw =
     bind (gets is_loop_mounted) (\<lambda>m.
     bind (panic_if (\<not> m) ''[write_log_loop] loop dev not mounted'') (\<lambda>_.
     write_log_loop_from lr lw 31 0))"

definition commit :: "(nat \<Rightarrow> unit kM) \<Rightarrow> (nat \<Rightarrow> unit kM) \<Rightarrow> unit kM" where
  "commit lr lw =
     bind (gets (\<lambda>s. is_loop_mounted s \<and> 0 < lh_n (loop_log s))) (\<lambda>c.
     bind (when_do c
       (bind (write_log_loop lr lw) (\<lambda>_.
        bind (write_head_loop lr lw) (\<lambda>_.
        bind (install_trans_loop lr lw) (\<lambda>_.
        write_head_loop lr lw))))) (\<lambda>_.
     bind (gets (\<lambda>s. is_loop_mounted s \<and> 0 < lh_n (loop_log s) \<and> lh_n (log s) = 0)) (\<lambda>c.
     bind (panic_if c ''[commit] loop_log is written but log is not written!'') (\<lambda>_.
     bind (gets (\<lambda>s. 0 < lh_n (log s))) (\<lambda>c.
     bind (when_do c
       (bind (write_log lr lw) (\<lambda>_.
        bind (write_head lr lw) (\<lambda>_.
        bind (install_trans lr lw) (\<lambda>_.
        write_head lr lw))))) (\<lambda>_.
     modify (\<lambda>s. s\<lparr>log := (log s)\<lparr>lh_n := 0\<rparr>, loop_log := (loop_log s)\<lparr>lh_n := 0\<rparr>\<rparr>)))))))"

definition end_op :: "(nat \<Rightarrow> unit kM) \<Rightarrow> (nat \<Rightarrow> unit kM) \<Rightarrow> unit kM" where
  "end_op lr lw =
     bind (acquire Lk_log) (\<lambda>_.
     bind (modify (\<lambda>s. s\<lparr>log := (log s)\<lparr>l_outstanding := l_outstanding (log s) - 1\<rparr>\<rparr>)) (\<lambda>_.
     bind (modify (\<lambda>s. s\<lparr>loop_log := (loop_log s)\<lparr>l_outstanding := l_outstanding (loop_log s) - 1\<rparr>\<rparr>)) (\<lambda>_.
     bind (gets (\<lambda>s. l_committing (log s) \<or> l_committing (loop_log s))) (\<lambda>c.
     bind (panic_if c ''log is committing'') (\<lambda>_.
     bind (gets (\<lambda>s. l_outstanding (log s) = 0 \<and> l_outstanding (loop_log s) = 0)) (\<lambda>do_commit.
     bind (if do_commit
           then modify (\<lambda>s. s\<lparr>log := (log s)\<lparr>l_committing := True\<rparr>, loop_log := (loop_log s)\<lparr>l_committing := True\<rparr>\<rparr>)
           else wakeup Ch_log) (\<lambda>_.
     bind (release Lk_log) (\<lambda>_.
     when_do do_commit
       (bind (commit lr lw) (\<lambda>_.
        bind (acquire Lk_log) (\<lambda>_.
        bind (modify (\<lambda>s. s\<lparr>log := (log s)\<lparr>l_committing := False\<rparr>, loop_log := (loop_log s)\<lparr>l_committing := False\<rparr>\<rparr>)) (\<lambda>_.
        bind (wakeup Ch_log) (\<lambda>_.
        release Lk_log)))))))))))))"

text \<open>The scan of \<open>log_write\<close>: the index of the block in the header, or the first free one.\<close>

definition log_slot :: "log \<Rightarrow> u32 \<Rightarrow> nat" where
  "log_slot l bn = length (takeWhile (\<lambda>i. lh_block l i \<noteq> bn) [0..<nat (lh_n l)])"

definition log_add :: "log \<Rightarrow> u32 \<Rightarrow> log" where
  "log_add l bn =
     (let i = log_slot l bn in
      l\<lparr>lh_block := (lh_block l)(i := bn), lh_n := (if int i = lh_n l then lh_n l + 1 else lh_n l)\<rparr>)"

definition log_write :: "nat \<Rightarrow> unit kM" where
  "log_write b =
     bind (gets (\<lambda>s. bufs s b)) (\<lambda>bf.
     if \<not> isloopdev (b_dev bf) then
       bind (gets log) (\<lambda>l.
       bind (panic_if (LOGSIZE \<le> lh_n l \<or> l_size l - 1 \<le> lh_n l) ''too big a transaction'') (\<lambda>_.
       bind (panic_if (l_outstanding l < 1) ''log_write outside of trans'') (\<lambda>_.
       bind (acquire Lk_log) (\<lambda>_.
       bind (modify (\<lambda>s. s\<lparr>log := log_add (log s) (b_blockno bf)\<rparr>)) (\<lambda>_.
       bind (upd_buf b (\<lambda>bf. bf\<lparr>b_dirty := True\<rparr>)) (\<lambda>_.
       release Lk_log))))))
     else
       bind (gets loop_log) (\<lambda>l.
       bind (panic_if (LOGSIZE \<le> lh_n l \<or> l_size l - 1 \<le> lh_n l) ''too big a transaction'') (\<lambda>_.
       bind (panic_if (l_outstanding l < 1) ''log_write outside of trans'') (\<lambda>_.
       bind (acquire Lk_log) (\<lambda>_.
       bind (modify (\<lambda>s. s\<lparr>loop_log := log_add (loop_log s) (b_blockno bf)\<rparr>)) (\<lambda>_.
       bind (upd_buf b (\<lambda>bf. bf\<lparr>b_dirty := True\<rparr>)) (\<lambda>_.
       release Lk_log)))))))"

end
