(* ===== verification/Log_Commit.thy ===== *)
theory Log_Commit
  imports Log
begin

text \<open>
  What a commit and a recovery write. A round of \<open>write_log\<close> or \<open>install_trans\<close> copies one block
  (\<open>log_round\<close>); \<open>write_log_from_spec\<close>, \<open>install_trans_from_spec\<close> and \<open>write_head_spec\<close> give, for each
  phase, the exact sequence of block writes it issues, and that it changes nothing else
  (\<open>dframe\<close>).
\<close>

subsection \<open>Copying a block\<close>

lemma wp_bcopy [wpsimps]:
  "wp (bcopy dst src) Q t = Q () (bmod t dst (b_data (bufs t src)) (b_dirty (bufs t dst)))"
  by (simp add: wp_def bcopy_def bmod_def)

definition copied :: "kstate \<Rightarrow> u32 \<Rightarrow> u32 \<Rightarrow> kstate \<Rightarrow> bool" where
  "copied s dst src u \<longleftrightarrow>
     bframe (s\<lparr>disk := (disk s)(1 := (disk s 1)(unat dst := cview s src)),
               dtrace := dtrace s @ [(1, unat dst, cview s src)]\<rparr>) u
   \<and> cache_ok u \<and> cview u = (cview s)(dst := cview s src)
   \<and> lkd u = lkd s \<and> dty u = dty s - {(ROOTDEV, dst)}"

text \<open>
  With both blocks held, overwriting \<open>dst\<close> with \<open>src\<close>, writing it to disk and releasing both.
\<close>

lemma bframe_disk:
  assumes "bframe s t" and "bframe (t\<lparr>disk := D, dtrace := T\<rparr>) u"
  shows "bframe (s\<lparr>disk := D, dtrace := T\<rparr>) u"
proof -
  have e: "t = s\<lparr>bufs := bufs t, ptable := ptable t\<rparr>" and sp: "same_procs (ptable s) (ptable t)"
    using assms(1) by (simp_all add: bframe_def)
  from e have "t\<lparr>disk := D, dtrace := T\<rparr> = (s\<lparr>bufs := bufs t, ptable := ptable t\<rparr>)\<lparr>disk := D, dtrace := T\<rparr>"
    by (rule arg_cong [of _ _ "\<lambda>t. t\<lparr>disk := D, dtrace := T\<rparr>"])
  also have "\<dots> = (s\<lparr>disk := D, dtrace := T\<rparr>)\<lparr>bufs := bufs t, ptable := ptable t\<rparr>"
    by simp
  finally have "bframe (s\<lparr>disk := D, dtrace := T\<rparr>) (t\<lparr>disk := D, dtrace := T\<rparr>)"
    using bframeI [of "s\<lparr>disk := D, dtrace := T\<rparr>" "ptable t" "bufs t"] sp by simp
  then show ?thesis using assms(2) by (rule bframe_trans)
qed

lemma copy_held:
  assumes ok: "cache_ok t" and rdy: "ide_ready t" and d: "holds t db dst" and s: "holds t sr src"
    and ne: "dst \<noteq> src" "db \<noteq> sr" and bn: "unat dst < FSSIZE"
    and sync: "(ROOTDEV, src) \<in> dty t \<or> cview t src = dsk t ROOTDEV src"
    and Q: "\<And>u. bframe (t\<lparr>disk := (disk t)(1 := (disk t 1)(unat dst := cview t src)),
               dtrace := dtrace t @ [(1, unat dst, cview t src)]\<rparr>) u \<Longrightarrow> cache_ok u \<Longrightarrow>
         cview u = (cview t)(dst := cview t src) \<Longrightarrow>
         lkd u = lkd t - {(ROOTDEV, src)} - {(ROOTDEV, dst)} \<Longrightarrow> dty u = dty t - {(ROOTDEV, dst)} \<Longrightarrow> Q u"
  shows "wp (bcopy db sr) (\<lambda>_. wp (bwrite lw db) (\<lambda>_. wp (brelse sr) (\<lambda>_. wp (brelse db) (\<lambda>_. Q)))) t"
proof -
  have src: "b_data (bufs t sr) = cview t src" by (rule holds_cview [OF ok s])
  have len: "length (cview t src) = BSIZE" by (rule length_cview [OF ok])
  define m where "m = bmod t db (cview t src) (b_dirty (bufs t db))"
  note mp = bmod_post [OF ok d len, of "b_dirty (bufs t db)", folded m_def]
  have mf: "bframe t m" unfolding m_def by (rule bmod_bframe)
  have ms: "holds m sr src" by (rule others_holds [OF mp(4) mf s]) (use ne in simp)
  have mr: "ide_ready m" using rdy bframeD [OF mf] by simp
  have "wp (bwrite lw db) (\<lambda>_. wp (brelse sr) (\<lambda>_. wp (brelse db) (\<lambda>_. Q))) m"
  proof (rule bwrite_wp [OF mp(1) mr mp(3) bn])
    fix w assume "bwrite_post m db dst w"
    then have wf: "bframe (m\<lparr>disk := (disk m)(1 := (disk m 1)(unat dst := cview m dst)),
               dtrace := dtrace m @ [(1, unat dst, cview m dst)]\<rparr>) w"
      and w: "cache_ok w" "cview w = cview m" "holds w db dst" "others db m w"
        "lkd w = lkd m" "dty w = dty m - {(ROOTDEV, dst)}"
      by (simp_all add: bwrite_post_def)
    have md: "cview m dst = cview t src" using mp(2) by simp
    have wt: "bframe (t\<lparr>disk := (disk t)(1 := (disk t 1)(unat dst := cview t src)),
               dtrace := dtrace t @ [(1, unat dst, cview t src)]\<rparr>) w"
      using bframe_disk [OF mf wf] bframeD [OF mf] by (simp add: md)
    have wr: "ide_ready w" using bframeD(23) [OF wt] rdy by (simp add: ide_ready_def)
    have "lkd m = lkd t" by (rule mp)
    have "core (bufs w sr) = core (bufs m sr)"
      using w(4) ms ne by (simp add: others_def holds_def)
    then have ws: "holds w sr src"
      using ms coreD [of "bufs w sr" "bufs m sr"] bframeD(24) [OF wt] bframeD(24) [OF mf]
      by (simp add: holds_def my_buf_def is_for_def mylock_def)
    have dw: "dty w = dty t - {(ROOTDEV, dst)}" using w(6) mp(6) by auto
    have kw: "dsk w ROOTDEV = (dsk t ROOTDEV)(dst := cview t src)"
      using bframeD(10) [OF wt] by (auto simp: dsk_def fun_eq_iff dest: word_unat_eq_iff [THEN iffD2])
    have sw: "(ROOTDEV, src) \<in> dty w \<or> cview w src = dsk w ROOTDEV src"
      using sync ne w(2) mp(2) by (auto simp: dw kw)
    show "wp (brelse sr) (\<lambda>_. wp (brelse db) (\<lambda>_. Q)) w"
    proof (rule brelse_wp [OF w(1) wr ws sw])
      fix x assume "brelse_post w sr src x"
      then have xf: "bframe w x" and x: "cache_ok x" "cview x = cview w" "others sr w x"
        "lkd x = lkd w - {(ROOTDEV, src)}" "dty x = dty w"
        by (simp_all add: brelse_post_def)
      have xd: "holds x db dst" by (rule others_holds [OF x(3) xf w(3)]) (use ne in simp)
      have xr: "ide_ready x" using wr bframeD(23) [OF xf] by simp
      have "cview x dst = dsk x ROOTDEV dst"
        using x(2) w(2) md kw bframeD(22) [OF xf] by simp
      then have sx: "(ROOTDEV, dst) \<in> dty x \<or> cview x dst = dsk x ROOTDEV dst" ..
      show "wp (brelse db) (\<lambda>_. Q) x"
      proof (rule brelse_wp [OF x(1) xr xd sx])
        fix u assume "brelse_post x db dst u"
        then have uf: "bframe x u" and u: "cache_ok u" "cview u = cview x"
          "lkd u = lkd x - {(ROOTDEV, dst)}" "dty u = dty x"
          by (simp_all add: brelse_post_def)
        show "Q u"
        proof (rule Q)
          show "bframe (t\<lparr>disk := (disk t)(1 := (disk t 1)(unat dst := cview t src)),
               dtrace := dtrace t @ [(1, unat dst, cview t src)]\<rparr>) u"
            by (rule bframe_trans [OF wt bframe_trans [OF xf uf]])
          show "cview u = (cview t)(dst := cview t src)" using u(2) x(2) w(2) mp(2) by simp
          show "lkd u = lkd t - {(ROOTDEV, src)} - {(ROOTDEV, dst)}" using u(3) x(4) w(5) mp(5) by simp
          show "dty u = dty t - {(ROOTDEV, dst)}" using u(4) x(5) dw by simp
        qed (rule u(1))
      qed
    qed
  qed
  then show ?thesis by (simp add: wp_bcopy src m_def)
qed


subsection \<open>Sequences of block writes\<close>

text \<open>The effect of block writes, oldest first, on a disk or a view of it.\<close>

definition apply_w :: "(u32 \<times> u8 list) list \<Rightarrow> (u32 \<Rightarrow> u8 list) \<Rightarrow> u32 \<Rightarrow> u8 list" where
  "apply_w W V = fold (\<lambda>(b, x) V. V(b := x)) W V"

lemma apply_w_simps [simp]:
  "apply_w [] V = V" "apply_w ((b, x) # W) V = apply_w W (V(b := x))"
  "apply_w (W @ W') V = apply_w W' (apply_w W V)"
  by (simp_all add: apply_w_def)

lemma apply_w_other: "b \<notin> fst ` set W \<Longrightarrow> apply_w W V b = V b"
  by (induction W arbitrary: V) (auto simp: apply_w_def)

lemma apply_w_in:
  "distinct (map fst W) \<Longrightarrow> (b, x) \<in> set W \<Longrightarrow> apply_w W V b = x"
proof (induction W arbitrary: V)
  case (Cons w W)
  obtain b' x' where w: "w = (b', x')" by (cases w)
  show ?case
  proof (cases "(b, x) = w")
    case True
    with Cons.prems w have "b \<notin> fst ` set W" by simp
    then show ?thesis using True w by (simp add: apply_w_other)
  next
    case False
    then show ?thesis using Cons.IH Cons.prems w by auto
  qed
qed simp

text \<open>\<open>dframe s W u\<close>: besides the cache, only drive 1 has changed, by the writes \<open>W\<close>.\<close>

definition dframe :: "kstate \<Rightarrow> (u32 \<times> u8 list) list \<Rightarrow> kstate \<Rightarrow> bool" where
  "dframe s W u \<longleftrightarrow>
     bframe (s\<lparr>disk := disk u, dtrace := dtrace u\<rparr>) u
   \<and> dsk u ROOTDEV = apply_w W (dsk s ROOTDEV)
   \<and> dtrace u = dtrace s @ map (\<lambda>(b, x). (1, unat b, x)) W"

lemma dframe_Nil: "bframe s u \<Longrightarrow> dframe s [] u"
  using bframeD(22,11,10) [of s u] by (simp add: dframe_def)

lemma dframe_trans:
  assumes "dframe s W t" and "dframe t W' u"
  shows "dframe s (W @ W') u"
proof -
  have "bframe (s\<lparr>disk := disk t, dtrace := dtrace t\<rparr>) t" "bframe (t\<lparr>disk := disk u, dtrace := dtrace u\<rparr>) u"
    using assms unfolding dframe_def by blast+
  from bframe_disk [OF this] have b: "bframe (s\<lparr>disk := disk u, dtrace := dtrace u\<rparr>) u" by simp
  have "dsk u ROOTDEV = apply_w (W @ W') (dsk s ROOTDEV)"
    "dtrace u = dtrace s @ map (\<lambda>(b, x). (1, unat b, x)) (W @ W')"
    using assms unfolding dframe_def by simp_all
  with b show ?thesis unfolding dframe_def by blast
qed

lemma dframeD:
  assumes "dframe s W u"
  shows "held u = held s" "curproc u = curproc s" "log u = log s" "loop_log u = loop_log s"
    "is_loop_mounted u = is_loop_mounted s" "ide_ready u = ide_ready s" "icache u = icache s"
    "sb u = sb s" "mylock u = mylock s"
proof -
  have b: "bframe (s\<lparr>disk := disk u, dtrace := dtrace u\<rparr>) u" using assms unfolding dframe_def by blast
  show "held u = held s" "curproc u = curproc s" "log u = log s" "loop_log u = loop_log s"
    "is_loop_mounted u = is_loop_mounted s" "icache u = icache s" "sb u = sb s"
    using bframeD [OF b] by simp_all
  show "ide_ready u = ide_ready s" using bframeD(23) [OF b] by (simp add: ide_ready_def)
  show "mylock u = mylock s" using bframeD(24) [OF b] by (simp add: mylock_def)
qed

lemma copied_dframe:
  assumes "copied s dst src u"
  shows "dframe s [(dst, cview s src)] u"
proof -
  have b: "bframe (s\<lparr>disk := (disk s)(1 := (disk s 1)(unat dst := cview s src)),
               dtrace := dtrace s @ [(1, unat dst, cview s src)]\<rparr>) u"
    using assms by (simp add: copied_def)
  have d: "disk u = (disk s)(1 := (disk s 1)(unat dst := cview s src))"
    "dtrace u = dtrace s @ [(1, unat dst, cview s src)]"
    using bframeD(10,11) [OF b] by simp_all
  have "dsk u ROOTDEV = (dsk s ROOTDEV)(dst := cview s src)"
    using d(1) by (auto simp: dsk_def fun_eq_iff dest: word_unat_eq_iff [THEN iffD2])
  with b d show ?thesis by (simp add: dframe_def)
qed

text \<open>One round of the loops of \<open>write_log\<close> (\<open>dst\<close> read first) and \<open>install_trans\<close> (\<open>src\<close> first).\<close>

lemma copy_round:
  assumes ok: "cache_ok s" and rdy: "ide_ready s" and ne: "a \<noteq> b"
    and bn: "unat a < FSSIZE" "unat b < FSSIZE" and lk: "lkd s = {}"
    and ra: "card (dty s) < NBUF" and rb: "(ROOTDEV, b) \<in> dty s \<or> card (insert (ROOTDEV, a) (dty s)) < NBUF"
    and Q: "\<And>u. copied s dst src u \<Longrightarrow> Q u"
    and ab: "(dst, src) = (a, b) \<or> (dst, src) = (b, a)"
  shows "wp (bread lr ROOTDEV a) (\<lambda>x. wp (bread lr ROOTDEV b) (\<lambda>y.
     wp (bcopy (if dst = a then x else y) (if dst = a then y else x)) (\<lambda>_.
     wp (bwrite lw (if dst = a then x else y)) (\<lambda>_.
     wp (brelse (if dst = a then y else x)) (\<lambda>_.
     wp (brelse (if dst = a then x else y)) (\<lambda>_. Q)))))) s"
proof (rule bread_wp [OF ok rdy bn(1)])
  show "(ROOTDEV, a) \<notin> lkd s" "(ROOTDEV, a) \<in> dty s \<or> card (dty s \<union> lkd s) < NBUF"
    using lk ra by simp_all
next
  fix x t assume "bread_post s a x t"
  then have tf: "bframe s t" and t: "cache_ok t" "cview t = cview s" "holds t x a"
    "lkd t = insert (ROOTDEV, a) (lkd s)" "dty t = dty s" "(ROOTDEV, a) \<in> dty s \<or> cview s a = dsk s ROOTDEV a"
    by (simp_all add: bread_post_def)
  show "wp (bread lr ROOTDEV b) (\<lambda>y.
     wp (bcopy (if dst = a then x else y) (if dst = a then y else x)) (\<lambda>_.
     wp (bwrite lw (if dst = a then x else y)) (\<lambda>_.
     wp (brelse (if dst = a then y else x)) (\<lambda>_.
     wp (brelse (if dst = a then x else y)) (\<lambda>_. Q))))) t"
  proof (rule bread_wp [OF t(1) _ bn(2)])
    show "ide_ready t" using rdy bframeD(23) [OF tf] by simp
    show "(ROOTDEV, b) \<notin> lkd t" using t(4) lk ne by simp
    show "(ROOTDEV, b) \<in> dty t \<or> card (dty t \<union> lkd t) < NBUF" using rb t(4,5) lk by simp
  next
    fix y v assume "bread_post t b y v"
    then have vf: "bframe t v" and v: "cache_ok v" "cview v = cview t" "holds v y b" "others y t v"
      "lkd v = insert (ROOTDEV, b) (lkd t)" "dty v = dty t" "\<not> sl_locked (b_lock (bufs t y))"
      "(ROOTDEV, b) \<in> dty t \<or> cview t b = dsk t ROOTDEV b"
      by (simp_all add: bread_post_def)
    have xy: "x \<noteq> y" using v(7) holdsD(5) [OF t(3)] by auto
    have hx: "holds v x a" by (rule others_holds [OF v(4) vf t(3) xy])
    have sf: "bframe s v" by (rule bframe_trans [OF tf vf])
    have rv: "ide_ready v" using rdy bframeD(23) [OF sf] by simp
    have cv: "cview v = cview s" and dv: "dty v = dty s" and kv: "dsk v = dsk s"
      using v t bframeD(22) [OF sf] by simp_all
    have fin: "Q u" if "bframe (v\<lparr>disk := (disk v)(1 := (disk v 1)(unat dst := cview v src)),
               dtrace := dtrace v @ [(1, unat dst, cview v src)]\<rparr>) u" "cache_ok u"
         "cview u = (cview v)(dst := cview v src)"
         "lkd u = lkd v - {(ROOTDEV, src)} - {(ROOTDEV, dst)}" "dty u = dty v - {(ROOTDEV, dst)}" for u
    proof (rule Q)
      have "lkd u = lkd s" using that(4) v(5) t(4) ab lk by auto
      then show "copied s dst src u"
        using bframe_disk [OF sf that(1)] that(2,3,5) bframeD(10,11) [OF sf]
        by (simp add: copied_def cv dv)
    qed
    have sa: "(ROOTDEV, a) \<in> dty v \<or> cview v a = dsk v ROOTDEV a"
      and sb: "(ROOTDEV, b) \<in> dty v \<or> cview v b = dsk v ROOTDEV b"
      using t(6) v(8) bframeD(22) [OF tf] t(2,5) by (simp_all add: cv dv kv)
    from ab show "wp (bcopy (if dst = a then x else y) (if dst = a then y else x)) (\<lambda>_.
     wp (bwrite lw (if dst = a then x else y)) (\<lambda>_.
     wp (brelse (if dst = a then y else x)) (\<lambda>_.
     wp (brelse (if dst = a then x else y)) (\<lambda>_. Q)))) v"
    proof
      assume e: "(dst, src) = (a, b)"
      have "wp (bcopy x y) (\<lambda>_. wp (bwrite lw x) (\<lambda>_. wp (brelse y) (\<lambda>_. wp (brelse x) (\<lambda>_. Q)))) v"
        by (rule copy_held [OF v(1) rv hx v(3) ne xy bn(1) sb]) (use fin e in simp)
      then show ?thesis using e by simp
    next
      assume e: "(dst, src) = (b, a)"
      have "wp (bcopy y x) (\<lambda>_. wp (bwrite lw y) (\<lambda>_. wp (brelse x) (\<lambda>_. wp (brelse y) (\<lambda>_. Q)))) v"
        by (rule copy_held [OF v(1) rv v(3) hx ne [symmetric] xy [symmetric] bn(2) sa]) (use fin e in simp)
      then show ?thesis using e ne by simp
    qed
  qed
qed


subsection \<open>The phases of a commit\<close>

lemma wp_lh_get [wpsimps]: "wp (lh_get l i) Q s = (i < 30 \<and> Q (lh_block l i) s)"
  by (simp add: wp_def lh_get_def)

definition log_area :: "u32 \<Rightarrow> u32 \<Rightarrow> bool" where
  "log_area st bn \<longleftrightarrow> unat st \<le> unat bn \<and> unat bn \<le> unat st + 30"

definition log_geom :: "log \<Rightarrow> bool" where
  "log_geom l \<longleftrightarrow> l_dev l = ROOTDEV \<and> unat (l_start l) + 30 < FSSIZE \<and> lh_n l \<le> 30
   \<and> (\<forall>i<nat (lh_n l). unat (lh_block l i) < FSSIZE \<and> \<not> log_area (l_start l) (lh_block l i))"

abbreviation log_blk :: "u32 \<Rightarrow> nat \<Rightarrow> u32" where
  "log_blk st i \<equiv> st + of_nat i + 1"

lemma unat_log_blk:
  assumes "unat st + 30 < FSSIZE" and "i < 30"
  shows "unat (log_blk st i) = unat st + i + 1"
proof -
  have "unat (of_nat i + 1 :: u32) = i + 1"
    using assms(2) by (simp add: unat_word_ariths unat_of_nat)
  then have "unat (st + (of_nat i + 1)) = unat st + (i + 1)"
    using assms by (subst unat_add_lem [THEN iffD1]) simp_all
  then show ?thesis by (simp add: add.assoc)
qed

lemma log_geomD:
  assumes "log_geom l" and "i < nat (lh_n l)"
  shows "i < 30" "l_dev l = ROOTDEV" "unat (log_blk (l_start l) i) < FSSIZE" "unat (lh_block l i) < FSSIZE"
    "log_area (l_start l) (log_blk (l_start l) i)" "\<not> log_area (l_start l) (lh_block l i)"
    "log_blk (l_start l) i \<noteq> lh_block l i"
proof -
  from assms show i: "i < 30" "l_dev l = ROOTDEV" "unat (lh_block l i) < FSSIZE"
    and na: "\<not> log_area (l_start l) (lh_block l i)" by (auto simp: log_geom_def)
  have u: "unat (log_blk (l_start l) i) = unat (l_start l) + i + 1"
    by (rule unat_log_blk) (use assms i in \<open>simp_all add: log_geom_def\<close>)
  with assms i show "unat (log_blk (l_start l) i) < FSSIZE" by (simp add: log_geom_def)
  from u i show a: "log_area (l_start l) (log_blk (l_start l) i)" by (simp add: log_area_def)
  from a na show "log_blk (l_start l) i \<noteq> lh_block l i" by auto
qed

text \<open>The block layer at rest: nothing locked, and a buffer to spare.\<close>

definition bready :: "kstate \<Rightarrow> bool" where
  "bready s \<longleftrightarrow> cache_ok s \<and> ide_ready s \<and> lkd s = {} \<and> card (dty s) < NBUF"

lemma bread_keeps_log:
  assumes "bready s" and "unat bn < FSSIZE"
  shows "wlp (bread lr ROOTDEV bn) (\<lambda>_ t. log t = log s) s"
  by (rule wp_imp_wlp, rule bread_wp)
    (use assms in \<open>auto simp: bready_def bread_post_def dest: bframeD(13)\<close>)

lemma log_round:
  assumes s: "bready s" and ne: "a \<noteq> b" and bn: "unat a < FSSIZE" "unat b < FSSIZE"
    and rb: "(ROOTDEV, b) \<in> dty s \<or> card (insert (ROOTDEV, a) (dty s)) < NBUF"
    and ab: "(dst, src) = (a, b) \<or> (dst, src) = (b, a)"
    and l: "l_dev (log s) = ROOTDEV" "lh_block (log s) i = b" "i < 30"
    and Q: "\<And>u. copied s dst src u \<Longrightarrow> wp m R u"
  shows "wp (bind (bread lr ROOTDEV a) (\<lambda>x.
     bind (gets log) (\<lambda>l.
     bind (lh_get l i) (\<lambda>bn.
     bind (bread lr (l_dev l) bn) (\<lambda>y.
     bind (bcopy (if dst = a then x else y) (if dst = a then y else x)) (\<lambda>_.
     bind (bwrite lw (if dst = a then x else y)) (\<lambda>_.
     bind (brelse (if dst = a then y else x)) (\<lambda>_.
     bind (brelse (if dst = a then x else y)) (\<lambda>_. m))))))))) R s"
proof -
  let ?P = "\<lambda>x. wp (bread lr ROOTDEV b) (\<lambda>y.
     wp (bcopy (if dst = a then x else y) (if dst = a then y else x)) (\<lambda>_.
     wp (bwrite lw (if dst = a then x else y)) (\<lambda>_.
     wp (brelse (if dst = a then y else x)) (\<lambda>_.
     wp (brelse (if dst = a then x else y)) (\<lambda>_. wp m R)))))"
  have "wp (bread lr ROOTDEV a) ?P s"
    by (rule copy_round [OF _ _ ne bn _ _ rb Q ab]) (use s in \<open>simp_all add: bready_def\<close>)
  from wp_conj [OF this bread_keeps_log [OF s bn(1)]]
  have "wp (bread lr ROOTDEV a) (\<lambda>x t. ?P x t \<and> log t = log s) s" .
  then have "wp (bread lr ROOTDEV a) (\<lambda>x. wp (bind (gets log) (\<lambda>l.
     bind (lh_get l i) (\<lambda>bn.
     bind (bread lr (l_dev l) bn) (\<lambda>y.
     bind (bcopy (if dst = a then x else y) (if dst = a then y else x)) (\<lambda>_.
     bind (bwrite lw (if dst = a then x else y)) (\<lambda>_.
     bind (brelse (if dst = a then y else x)) (\<lambda>_.
     bind (brelse (if dst = a then x else y)) (\<lambda>_. m)))))))) R) s"
    by (rule wp_mono) (use l in \<open>simp add: wp_bind_fun wp_gets wp_lh_get\<close>)
  then show ?thesis by (simp only: wp_bind)
qed

definition log_writes :: "log \<Rightarrow> (u32 \<Rightarrow> u8 list) \<Rightarrow> nat \<Rightarrow> (u32 \<times> u8 list) list" where
  "log_writes l V tail = map (\<lambda>i. (log_blk (l_start l) i, V (lh_block l i))) [tail..<nat (lh_n l)]"

lemma log_writes_step:
  "tail < nat (lh_n l) \<Longrightarrow>
   log_writes l V tail = (log_blk (l_start l) tail, V (lh_block l tail)) # log_writes l V (Suc tail)"
  by (simp add: log_writes_def upt_conv_Cons)

lemma log_writes_cong:
  "(\<And>i. i < nat (lh_n l) \<Longrightarrow> V (lh_block l i) = V' (lh_block l i)) \<Longrightarrow> log_writes l V tail = log_writes l V' tail"
  by (simp add: log_writes_def)

lemma write_log_from_spec:
  assumes "bready s" and "log_geom (log s)" and "nat (lh_n (log s)) - tail < k"
    and "\<forall>i<nat (lh_n (log s)). (ROOTDEV, lh_block (log s) i) \<in> dty s"
    and "\<forall>bn. log_area (l_start (log s)) bn \<longrightarrow> (ROOTDEV, bn) \<notin> dty s"
  shows "wp (write_log_from lr lw k tail) (\<lambda>_ u. dframe s (log_writes (log s) (cview s) tail) u \<and> bready u
     \<and> cview u = apply_w (log_writes (log s) (cview s) tail) (cview s) \<and> dty u = dty s) s"
  using assms
proof (induction k arbitrary: tail s)
  case 0
  then show ?case by simp
next
  case (Suc k)
  let ?l = "log s" and ?V = "cview s"
  let ?post = "\<lambda>(_::unit) u. dframe s (log_writes ?l ?V tail) u \<and> bready u
     \<and> cview u = apply_w (log_writes ?l ?V tail) ?V \<and> dty u = dty s"
  show ?case
  proof (cases "tail < nat (lh_n ?l)")
    case False
    then have "log_writes ?l ?V tail = []" "\<not> int tail < lh_n ?l" by (simp_all add: log_writes_def)
    then show ?thesis
      using Suc.prems unfolding write_log_from.simps wpsimps by (simp add: dframe_Nil)
  next
    case True
    note g = log_geomD [OF Suc.prems(2) True]
    let ?a = "log_blk (l_start ?l) tail" and ?b = "lh_block ?l tail"
    have "wp (bind (bread lr ROOTDEV ?a) (\<lambda>x.
       bind (gets log) (\<lambda>l.
       bind (lh_get l tail) (\<lambda>bn.
       bind (bread lr (l_dev l) bn) (\<lambda>y.
       bind (bcopy (if ?a = ?a then x else y) (if ?a = ?a then y else x)) (\<lambda>_.
       bind (bwrite lw (if ?a = ?a then x else y)) (\<lambda>_.
       bind (brelse (if ?a = ?a then y else x)) (\<lambda>_.
       bind (brelse (if ?a = ?a then x else y)) (\<lambda>_. write_log_from lr lw k (Suc tail)))))))))) ?post s"
    proof (rule log_round [OF Suc.prems(1) g(7,3,4) _ _ g(2) refl g(1), where src = ?b])
      show "(ROOTDEV, ?b) \<in> dty s \<or> card (insert (ROOTDEV, ?a) (dty s)) < NBUF"
        using Suc.prems(4) True by simp
    next
      fix u assume c: "copied s ?a ?b u"
      have f: "dframe s [(?a, ?V ?b)] u" by (rule copied_dframe [OF c])
      have nd: "(ROOTDEV, ?a) \<notin> dty s" using Suc.prems(5) g(5) by blast
      then have d: "dty u = dty s" and cv: "cview u = ?V(?a := ?V ?b)" and r: "bready u"
        using c Suc.prems(1) dframeD(6) [OF f] by (simp_all add: copied_def bready_def)
      have l: "log u = ?l" by (rule dframeD(3) [OF f])
      have w: "log_writes ?l (cview u) (Suc tail) = log_writes ?l ?V (Suc tail)"
      proof (rule log_writes_cong)
        fix i assume "i < nat (lh_n ?l)"
        then have "lh_block ?l i \<noteq> ?a" using log_geomD(6) [OF Suc.prems(2)] g(5) by metis
        then show "cview u (lh_block ?l i) = ?V (lh_block ?l i)" by (simp add: cv)
      qed
      have fu: "nat (lh_n ?l) - Suc tail < k" using Suc.prems(3) True by linarith
      have "wp (write_log_from lr lw k (Suc tail)) (\<lambda>_ v. dframe u (log_writes ?l ?V (Suc tail)) v \<and> bready v
         \<and> cview v = apply_w (log_writes ?l ?V (Suc tail)) (cview u) \<and> dty v = dty u) u"
        using Suc.IH [of u "Suc tail"] r fu Suc.prems unfolding l d w by simp
      then show "wp (write_log_from lr lw k (Suc tail)) ?post u"
        by (rule wp_mono) (use dframe_trans [OF f] cv d log_writes_step [OF True] in auto)
    qed simp
    moreover have "int tail < lh_n ?l" using True by simp
    ultimately show ?thesis using g(2) unfolding write_log_from.simps wpsimps by simp
  qed
qed


definition install_writes :: "log \<Rightarrow> (u32 \<Rightarrow> u8 list) \<Rightarrow> nat \<Rightarrow> (u32 \<times> u8 list) list" where
  "install_writes l V tail = map (\<lambda>i. (lh_block l i, V (log_blk (l_start l) i))) [tail..<nat (lh_n l)]"

lemma install_writes_step:
  "tail < nat (lh_n l) \<Longrightarrow>
   install_writes l V tail = (lh_block l tail, V (log_blk (l_start l) tail)) # install_writes l V (Suc tail)"
  by (simp add: install_writes_def upt_conv_Cons)

lemma install_writes_cong:
  "(\<And>i. i < nat (lh_n l) \<Longrightarrow> V (log_blk (l_start l) i) = V' (log_blk (l_start l) i)) \<Longrightarrow>
   install_writes l V tail = install_writes l V' tail"
  by (simp add: install_writes_def)

lemma install_trans_from_spec:
  assumes "bready s" and "log_geom (log s)" and "nat (lh_n (log s)) - tail < k"
    and "Suc (card (dty s)) < NBUF \<or> (ROOTDEV, lh_block (log s) tail) \<in> dty s"
  shows "wp (install_trans_from lr lw k tail) (\<lambda>_ u. dframe s (install_writes (log s) (cview s) tail) u \<and> bready u
     \<and> cview u = apply_w (install_writes (log s) (cview s) tail) (cview s)
     \<and> dty u = dty s - Pair ROOTDEV ` fst ` set (install_writes (log s) (cview s) tail)) s"
  using assms
proof (induction k arbitrary: tail s)
  case 0
  then show ?case by simp
next
  case (Suc k)
  let ?l = "log s" and ?V = "cview s"
  let ?W = "install_writes ?l ?V"
  let ?post = "\<lambda>(_::unit) u. dframe s (?W tail) u \<and> bready u
     \<and> cview u = apply_w (?W tail) ?V \<and> dty u = dty s - Pair ROOTDEV ` fst ` set (?W tail)"
  show ?case
  proof (cases "tail < nat (lh_n ?l)")
    case False
    then have "?W tail = []" "\<not> int tail < lh_n ?l" by (simp_all add: install_writes_def)
    then show ?thesis
      using Suc.prems unfolding install_trans_from.simps wpsimps by (simp add: dframe_Nil)
  next
    case True
    note g = log_geomD [OF Suc.prems(2) True]
    let ?a = "log_blk (l_start ?l) tail" and ?b = "lh_block ?l tail"
    have "wp (bind (bread lr ROOTDEV ?a) (\<lambda>x.
       bind (gets log) (\<lambda>l.
       bind (lh_get l tail) (\<lambda>bn.
       bind (bread lr (l_dev l) bn) (\<lambda>y.
       bind (bcopy (if ?b = ?a then x else y) (if ?b = ?a then y else x)) (\<lambda>_.
       bind (bwrite lw (if ?b = ?a then x else y)) (\<lambda>_.
       bind (brelse (if ?b = ?a then y else x)) (\<lambda>_.
       bind (brelse (if ?b = ?a then x else y)) (\<lambda>_. install_trans_from lr lw k (Suc tail)))))))))) ?post s"
    proof (rule log_round [OF Suc.prems(1) g(7,3,4) _ _ g(2) refl g(1), where src = ?a])
      have "card (insert (ROOTDEV, ?a) (dty s)) \<le> Suc (card (dty s))" by (rule card_insert_le_m1) simp_all
      then show "(ROOTDEV, ?b) \<in> dty s \<or> card (insert (ROOTDEV, ?a) (dty s)) < NBUF"
        using Suc.prems(4) by linarith
    next
      fix u assume c: "copied s ?b ?a u"
      have f: "dframe s [(?b, ?V ?a)] u" by (rule copied_dframe [OF c])
      have d: "dty u = dty s - {(ROOTDEV, ?b)}" and cv: "cview u = ?V(?b := ?V ?a)"
        using c by (simp_all add: copied_def)
      have fin: "finite (dty s)" by (simp add: dty_def)
      have card: "card (dty u) \<le> card (dty s)" using fin by (simp add: d card_mono)
      have r: "bready u"
        using c Suc.prems(1) dframeD(6) [OF f] card by (simp add: copied_def bready_def)
      have l: "log u = ?l" by (rule dframeD(3) [OF f])
      have w: "install_writes ?l (cview u) (Suc tail) = ?W (Suc tail)"
      proof (rule install_writes_cong)
        fix i assume "i < nat (lh_n ?l)"
        then have "log_blk (l_start ?l) i \<noteq> ?b" using log_geomD(5) [OF Suc.prems(2)] g(6) by metis
        then show "cview u (log_blk (l_start ?l) i) = ?V (log_blk (l_start ?l) i)" by (simp add: cv)
      qed
      have fu: "nat (lh_n ?l) - Suc tail < k" using Suc.prems(3) True by linarith
      have room: "Suc (card (dty u)) < NBUF"
      proof (cases "(ROOTDEV, ?b) \<in> dty s")
        case True
        then have "Suc (card (dty u)) = card (dty s)" unfolding d by (rule card_Suc_Diff1 [OF fin])
        then show ?thesis using Suc.prems(1) by (simp add: bready_def)
      next
        case False
        then show ?thesis using Suc.prems(4) card by linarith
      qed
      have "wp (install_trans_from lr lw k (Suc tail)) (\<lambda>_ v. dframe u (?W (Suc tail)) v \<and> bready v
         \<and> cview v = apply_w (?W (Suc tail)) (cview u)
         \<and> dty v = dty u - Pair ROOTDEV ` fst ` set (?W (Suc tail))) u"
        using Suc.IH [of u "Suc tail"] r fu room Suc.prems(2) unfolding l w by simp
      then show "wp (install_trans_from lr lw k (Suc tail)) ?post u"
        by (rule wp_mono) (use dframe_trans [OF f] cv d install_writes_step [OF True] in auto)
    qed simp
    moreover have "int tail < lh_n ?l" using True by simp
    ultimately show ?thesis using g(2,7) unfolding install_trans_from.simps wpsimps by simp
  qed
qed


subsection \<open>The header\<close>

definition head_bytes :: "log \<Rightarrow> u8 list \<Rightarrow> u8 list" where
  "head_bytes l d = fold (\<lambda>i d. put_hdr_block d i (lh_block l i)) [0..<nat (lh_n l)] (put_hdr_n d (lh_n l))"

lemma fold_put_hdr:
  fixes f :: "nat \<Rightarrow> u32" and xs :: "nat list"
  assumes "length d = BSIZE" and "\<forall>i\<in>set xs. i < 30"
  defines "e \<equiv> fold (\<lambda>i d. put_hdr_block d i (f i)) xs d"
  shows "length e = BSIZE" and "hdr_n e = hdr_n d"
    and "\<And>j. j < 30 \<Longrightarrow> hdr_block e j = (if j \<in> set xs then f j else hdr_block d j)"
proof -
  have "length e = BSIZE \<and> hdr_n e = hdr_n d
    \<and> (\<forall>j<30. hdr_block e j = (if j \<in> set xs then f j else hdr_block d j))"
    using assms(1,2) unfolding e_def by (induction xs arbitrary: d) auto
  then show "length e = BSIZE" and "hdr_n e = hdr_n d"
    and "\<And>j. j < 30 \<Longrightarrow> hdr_block e j = (if j \<in> set xs then f j else hdr_block d j)" by auto
qed

lemma head_bytes_props:
  assumes "length d = BSIZE" and "0 \<le> lh_n l" "lh_n l \<le> 30"
  shows "length (head_bytes l d) = BSIZE" and "hdr_n (head_bytes l d) = lh_n l"
    and "\<And>i. i < nat (lh_n l) \<Longrightarrow> hdr_block (head_bytes l d) i = lh_block l i"
proof -
  have b: "\<forall>i\<in>set [0..<nat (lh_n l)]. i < 30" using assms(3) by auto
  have len: "length (put_hdr_n d (lh_n l)) = BSIZE" using assms(1) by simp
  note f = fold_put_hdr [where f = "lh_block l", OF len b, folded head_bytes_def]
  show "length (head_bytes l d) = BSIZE" by (rule f)
  show "hdr_n (head_bytes l d) = lh_n l" using f(2) assms by simp
  show "hdr_block (head_bytes l d) i = lh_block l i" if "i < nat (lh_n l)" for i
    using f(3) [of i] that assms(3) by simp
qed

lemma write_head_from_run:
  assumes "lh_n l \<le> 30" and "nat (lh_n l) - i < k"
  shows "write_head_from l b k i t = Ret () (t\<lparr>bufs := (bufs t)(b := (bufs t b)
     \<lparr>b_data := fold (\<lambda>i d. put_hdr_block d i (lh_block l i)) [i..<nat (lh_n l)] (b_data (bufs t b))\<rparr>)\<rparr>)"
  using assms
proof (induction k arbitrary: i t)
  case 0
  then show ?case by simp
next
  case (Suc k)
  let ?t = "t\<lparr>bufs := (bufs t)(b := (bufs t b)\<lparr>b_data := put_hdr_block (b_data (bufs t b)) i (lh_block l i)\<rparr>)\<rparr>"
  show ?case
  proof (cases "int i < lh_n l")
    case True
    then have "i < 30" "nat (lh_n l) - Suc i < k" "i < nat (lh_n l)" using Suc.prems by auto
    moreover have "write_head_from l b k (Suc i) ?t = Ret () (?t\<lparr>bufs := (bufs ?t)(b := (bufs ?t b)
       \<lparr>b_data := fold (\<lambda>i d. put_hdr_block d i (lh_block l i)) [Suc i..<nat (lh_n l)] (b_data (bufs ?t b))\<rparr>)\<rparr>)"
      by (rule Suc.IH) (use Suc.prems(1) calculation in simp_all)
    ultimately show ?thesis using True by (simp add: lh_get_def upt_conv_Cons) (simp add: fun_upd_def)
  next
    case False
    then show ?thesis by simp
  qed
qed

lemma write_head_spec:
  assumes s: "bready s" and l: "l_dev (log s) = ROOTDEV" "0 \<le> lh_n (log s)" "lh_n (log s) \<le> 30"
    and st: "unat (l_start (log s)) < FSSIZE"
  defines "W \<equiv> [(l_start (log s), head_bytes (log s) (cview s (l_start (log s))))]"
  shows "wp (write_head lr lw) (\<lambda>_ u. dframe s W u \<and> bready u \<and> cview u = apply_w W (cview s)
     \<and> dty u = dty s - {(ROOTDEV, l_start (log s))}) s"
proof -
  let ?l = "log s" and ?st = "l_start (log s)"
  let ?post = "\<lambda>u. dframe s W u \<and> bready u \<and> cview u = apply_w W (cview s) \<and> dty u = dty s - {(ROOTDEV, ?st)}"
  have ok: "cache_ok s" "ide_ready s" "lkd s = {}" "card (dty s) < NBUF" using s by (simp_all add: bready_def)
  have "wp (bread lr ROOTDEV ?st) (\<lambda>b t. wp (bind (upd_buf b (\<lambda>bf. bf\<lparr>b_data := put_hdr_n (b_data bf) (lh_n (log t))\<rparr>)) (\<lambda>_.
     bind (write_head_from (log t) b 31 0) (\<lambda>_. bind (bwrite lw b) (\<lambda>_. brelse b)))) (\<lambda>_. ?post) t) s"
  proof (rule bread_wp [OF ok(1,2) st])
    fix b t assume "bread_post s ?st b t"
    then have tf: "bframe s t" and t: "cache_ok t" "cview t = cview s" "holds t b ?st" "lkd t = {(ROOTDEV, ?st)}"
      "dty t = dty s" using ok by (simp_all add: bread_post_def)
    have lt: "log t = ?l" by (rule bframeD(13) [OF tf])
    let ?d = "head_bytes ?l (cview s ?st)"
    have len: "length ?d = BSIZE" using head_bytes_props(1) length_cview [OF ok(1)] l(2,3) by simp
    define m where "m = bmod t b ?d (b_dirty (bufs t b))"
    note mp = bmod_post [OF t(1,3) len, of "b_dirty (bufs t b)", folded m_def]
    have mf: "bframe t m" unfolding m_def by (rule bmod_bframe)
    have mr: "ide_ready m" using ok(2) bframeD(23) [OF mf] bframeD(23) [OF tf] by simp
    have run: "bind (upd_buf b (\<lambda>bf. bf\<lparr>b_data := put_hdr_n (b_data bf) (lh_n ?l)\<rparr>)) (\<lambda>_.
        write_head_from ?l b 31 0) t = Ret () m"
      using holds_cview [OF t(1,3)] l
      by (simp add: write_head_from_run m_def bmod_def head_bytes_def t(2))
    have "wp (bwrite lw b) (\<lambda>_. wp (brelse b) (\<lambda>_. ?post)) m"
    proof (rule bwrite_wp [OF mp(1) mr mp(3) st])
      fix w assume "bwrite_post m b ?st w"
      then have wf: "bframe (m\<lparr>disk := (disk m)(1 := (disk m 1)(unat ?st := cview m ?st)),
               dtrace := dtrace m @ [(1, unat ?st, cview m ?st)]\<rparr>) w"
        and w: "cache_ok w" "cview w = cview m" "holds w b ?st" "lkd w = lkd m" "dty w = dty m - {(ROOTDEV, ?st)}"
        by (simp_all add: bwrite_post_def)
      have md: "cview m ?st = ?d" using mp(2) by simp
      have sm: "bframe s m" by (rule bframe_trans [OF tf mf])
      have wt: "bframe (s\<lparr>disk := (disk s)(1 := (disk s 1)(unat ?st := ?d)),
               dtrace := dtrace s @ [(1, unat ?st, ?d)]\<rparr>) w"
        using bframe_disk [OF sm wf] bframeD [OF sm] by (simp add: md)
      have wr: "ide_ready w" using bframeD(23) [OF wt] ok(2) by (simp add: ide_ready_def)
      have kw: "dsk w ROOTDEV = (dsk s ROOTDEV)(?st := ?d)"
        using bframeD(10) [OF wt] by (auto simp: dsk_def fun_eq_iff dest: word_unat_eq_iff [THEN iffD2])
      have "cview w ?st = dsk w ROOTDEV ?st" using w(2) md kw by simp
      then have sy: "(ROOTDEV, ?st) \<in> dty w \<or> cview w ?st = dsk w ROOTDEV ?st" ..
      show "wp (brelse b) (\<lambda>_. ?post) w"
      proof (rule brelse_wp [OF w(1) wr w(3) sy])
        fix u assume "brelse_post w b ?st u"
        then have uf: "bframe w u" and u: "cache_ok u" "cview u = cview w" "lkd u = lkd w - {(ROOTDEV, ?st)}"
          "dty u = dty w" by (simp_all add: brelse_post_def)
        have su: "bframe (s\<lparr>disk := (disk s)(1 := (disk s 1)(unat ?st := ?d)),
               dtrace := dtrace s @ [(1, unat ?st, ?d)]\<rparr>) u" by (rule bframe_trans [OF wt uf])
        have df: "dframe s W u"
          using su bframeD(10,11) [OF su] bframeD(22) [OF uf] kw by (simp add: dframe_def W_def)
        have dt: "dty u = dty s - {(ROOTDEV, ?st)}" using u(4) w(5) mp(6) t(5) by auto
        have "card (dty u) \<le> card (dty s)" unfolding dt by (rule card_mono) (auto simp: dty_def)
        moreover have "lkd u = {}" using u(3) w(4) mp(5) t(4) by simp
        ultimately have "bready u"
          using u(1) ok(4) dframeD(6) [OF df] ok(2) by (simp add: bready_def)
        with df dt show "?post u" using u(2) w(2) mp(2) t(2) by (simp add: W_def)
      qed
    qed
    then show "wp (bind (upd_buf b (\<lambda>bf. bf\<lparr>b_data := put_hdr_n (b_data bf) (lh_n (log t))\<rparr>)) (\<lambda>_.
     bind (write_head_from (log t) b 31 0) (\<lambda>_. bind (bwrite lw b) (\<lambda>_. brelse b)))) (\<lambda>_. ?post) t"
      using run unfolding lt bind_assoc [symmetric] wp_bind_fun [of "bind _ _" "\<lambda>_. brelse b"]
      by (simp add: wp_def bind_def)
  qed (use ok in simp_all)
  then show ?thesis
    unfolding write_head_def wp_bind wp_gets l(1) .
qed

end
