(* ===== verification/Log_Crash.thy ===== *)
theory Log_Crash
  imports Log_Commit
begin

text \<open>
  Commit, recovery and crashes of the root disk's log. \<open>commit_spec\<close> gives the exact block writes
  of a commit, \<open>recover_spec\<close> those of a recovery; a crash is a prefix of such a sequence. The
  theorems say what a reboot finds.
\<close>


subsection \<open>A commit\<close>

definition home_writes :: "log \<Rightarrow> (u32 \<Rightarrow> u8 list) \<Rightarrow> (u32 \<times> u8 list) list" where
  "home_writes l V = map (\<lambda>i. (lh_block l i, V (lh_block l i))) [0..<nat (lh_n l)]"

definition commit_writes :: "log \<Rightarrow> (u32 \<Rightarrow> u8 list) \<Rightarrow> (u32 \<times> u8 list) list" where
  "commit_writes l V = log_writes l V 0 @ [(l_start l, head_bytes l (V (l_start l)))]
     @ home_writes l V @ [(l_start l, head_bytes l (head_bytes l (V (l_start l))))]"

lemma fst_home_writes: "fst ` set (home_writes l V) = lh_block l ` {..<nat (lh_n l)}"
  by (auto simp: home_writes_def image_image atLeast0LessThan)

lemma log_blk_ne_start:
  assumes "unat st + 30 < FSSIZE" and "i < 30"
  shows "log_blk st i \<noteq> st"
proof
  assume e: "log_blk st i = st"
  show False using unat_log_blk [OF assms] unfolding e by simp
qed

lemma log_blk_inj:
  assumes "unat st + 30 < FSSIZE" and "i < 30" and "j < 30"
  shows "log_blk st i = log_blk st j \<longleftrightarrow> i = j"
proof
  assume e: "log_blk st i = log_blk st j"
  show "i = j" using unat_log_blk [OF assms(1,2)] unfolding e unat_log_blk [OF assms(1,3)] by linarith
qed simp

lemma distinct_log_writes:
  assumes "log_geom l"
  shows "distinct (map fst (log_writes l V tail))"
proof -
  have "inj_on (log_blk (l_start l)) (set [tail..<nat (lh_n l)])"
  proof (rule inj_onI)
    fix i j assume "i \<in> set [tail..<nat (lh_n l)]" "j \<in> set [tail..<nat (lh_n l)]"
      "log_blk (l_start l) i = log_blk (l_start l) j"
    moreover from this have "i < 30" "j < 30" using log_geomD(1) [OF assms] by simp_all
    moreover have "unat (l_start l) + 30 < FSSIZE" using assms by (simp add: log_geom_def)
    ultimately show "i = j" using log_blk_inj [of "l_start l" i j] by blast
  qed
  then show ?thesis by (simp add: log_writes_def comp_def distinct_map)
qed

lemma apply_log_writes:
  assumes "log_geom l" and "i < nat (lh_n l)"
  shows "apply_w (log_writes l V 0) U (log_blk (l_start l) i) = V (lh_block l i)"
  by (rule apply_w_in [OF distinct_log_writes [OF assms(1)]])
    (use assms(2) in \<open>auto simp: log_writes_def\<close>)

lemma apply_log_writes_other:
  assumes "log_geom l" and "\<not> log_area (l_start l) b \<or> b = l_start l"
  shows "apply_w (log_writes l V tail) U b = U b"
proof (rule apply_w_other)
  show "b \<notin> fst ` set (log_writes l V tail)"
  proof
    assume "b \<in> fst ` set (log_writes l V tail)"
    then obtain i where i: "i < nat (lh_n l)" "b = log_blk (l_start l) i" by (auto simp: log_writes_def)
    then show False
      using assms(2) log_geomD(5) [OF assms(1) i(1)] log_blk_ne_start [of "l_start l" i] assms(1)
        log_geomD(1) [OF assms(1) i(1)]
      by (auto simp: log_geom_def)
  qed
qed

text \<open>What a commit of the root log needs: every logged block pinned, no block of the log area.\<close>

definition commit_pre :: "kstate \<Rightarrow> bool" where
  "commit_pre s \<longleftrightarrow> bready s \<and> log_geom (log s) \<and> 0 < lh_n (log s)
   \<and> (\<forall>i<nat (lh_n (log s)). (ROOTDEV, lh_block (log s) i) \<in> dty s)
   \<and> (\<forall>bn. log_area (l_start (log s)) bn \<longrightarrow> (ROOTDEV, bn) \<notin> dty s)
   \<and> \<not> (is_loop_mounted s \<and> 0 < lh_n (loop_log s))"

definition end_trans :: "kstate \<Rightarrow> kstate" where
  "end_trans t = t\<lparr>log := (log t)\<lparr>lh_n := 0\<rparr>, loop_log := (loop_log t)\<lparr>lh_n := 0\<rparr>\<rparr>"

lemma log_area_start [simp]: "log_area st st"
  by (simp add: log_area_def)

text \<open>\<open>did s W u\<close>: the phase that led from \<open>s\<close> to \<open>u\<close> issued the block writes \<open>W\<close>, and cache and disk agree on them.\<close>

definition did :: "kstate \<Rightarrow> (u32 \<times> u8 list) list \<Rightarrow> kstate \<Rightarrow> bool" where
  "did s W u \<longleftrightarrow> dframe s W u \<and> bready u \<and> cview u = apply_w W (cview s)"

lemma didD:
  assumes "did s W u"
  shows "bready u" "cview u = apply_w W (cview s)" "log u = log s" "loop_log u = loop_log s"
    "dsk u ROOTDEV = apply_w W (dsk s ROOTDEV)" "dtrace u = dtrace s @ map (\<lambda>(b, x). (1, unat b, x)) W"
    "is_loop_mounted u = is_loop_mounted s"
proof -
  have f: "dframe s W u" using assms by (simp add: did_def)
  show "bready u" "cview u = apply_w W (cview s)" using assms by (simp_all add: did_def)
  show "log u = log s" "loop_log u = loop_log s" "is_loop_mounted u = is_loop_mounted s" by (rule dframeD [OF f])+
  show "dsk u ROOTDEV = apply_w W (dsk s ROOTDEV)" "dtrace u = dtrace s @ map (\<lambda>(b, x). (1, unat b, x)) W"
    using f unfolding dframe_def by blast+
qed

lemma did_trans: "did s W t \<Longrightarrow> did t W' u \<Longrightarrow> did s (W @ W') u"
  using dframe_trans by (auto simp: did_def)

lemma nat_le_30: "log_geom l \<Longrightarrow> nat (lh_n l) < 31"
  by (auto simp: log_geom_def)

lemma write_log_did:
  assumes "commit_pre s"
  obtains a where "write_log lr lw s = Ret () a" and "did s (log_writes (log s) (cview s) 0) a" and "dty a = dty s"
proof -
  have "wp (write_log lr lw) (\<lambda>_ u. dframe s (log_writes (log s) (cview s) 0) u \<and> bready u
     \<and> cview u = apply_w (log_writes (log s) (cview s) 0) (cview s) \<and> dty u = dty s) s"
    unfolding write_log_def
    by (rule write_log_from_spec) (use assms nat_le_30 [of "log s"] in \<open>simp_all add: commit_pre_def\<close>)
  from wp_unit [OF this] that show thesis unfolding did_def by blast
qed

lemma install_trans_did:
  assumes "bready s" and "log_geom (log s)"
    and "Suc (card (dty s)) < NBUF \<or> (ROOTDEV, lh_block (log s) 0) \<in> dty s"
  obtains a where "install_trans lr lw s = Ret () a" and "did s (install_writes (log s) (cview s) 0) a"
    and "dty a = dty s - Pair ROOTDEV ` fst ` set (install_writes (log s) (cview s) 0)"
proof -
  have "wp (install_trans lr lw) (\<lambda>_ u. dframe s (install_writes (log s) (cview s) 0) u \<and> bready u
     \<and> cview u = apply_w (install_writes (log s) (cview s) 0) (cview s)
     \<and> dty u = dty s - Pair ROOTDEV ` fst ` set (install_writes (log s) (cview s) 0)) s"
    unfolding install_trans_def
    by (rule install_trans_from_spec) (use assms nat_le_30 [of "log s"] in simp_all)
  from wp_unit [OF this] that show thesis unfolding did_def by blast
qed

lemma write_head_did:
  assumes "bready s" and "l_dev (log s) = ROOTDEV" "0 \<le> lh_n (log s)" "lh_n (log s) \<le> 30"
    and "unat (l_start (log s)) < FSSIZE" and "(ROOTDEV, l_start (log s)) \<notin> dty s"
  obtains a where "write_head lr lw s = Ret () a"
    and "did s [(l_start (log s), head_bytes (log s) (cview s (l_start (log s))))] a" and "dty a = dty s"
proof -
  from wp_unit [OF write_head_spec [OF assms(1-5)]] obtain a where "write_head lr lw s = Ret () a"
    "did s [(l_start (log s), head_bytes (log s) (cview s (l_start (log s))))] a"
    "dty a = dty s - {(ROOTDEV, l_start (log s))}" unfolding did_def by blast
  with assms(6) that show thesis by simp
qed

lemma commit_spec:
  assumes pre: "commit_pre s"
  obtains t where "commit lr lw s = Ret () (end_trans t)" and "did s (commit_writes (log s) (cview s)) t"
    and "dty t = dty s - Pair ROOTDEV ` lh_block (log s) ` {..<nat (lh_n (log s))}"
proof -
  let ?l = "log s" and ?V = "cview s" and ?st = "l_start (log s)" and ?n = "nat (lh_n (log s))"
  from pre have g: "log_geom ?l" and n: "0 < lh_n ?l"
    and dl: "\<forall>i<?n. (ROOTDEV, lh_block ?l i) \<in> dty s"
    and da: "\<forall>bn. log_area ?st bn \<longrightarrow> (ROOTDEV, bn) \<notin> dty s"
    and nl: "\<not> (is_loop_mounted s \<and> 0 < lh_n (loop_log s))"
    by (auto simp: commit_pre_def)
  have geo: "l_dev ?l = ROOTDEV" "0 \<le> lh_n ?l" "lh_n ?l \<le> 30" "unat ?st < FSSIZE" "(ROOTDEV, ?st) \<notin> dty s"
    using g n da by (simp_all add: log_geom_def)
  obtain a where ra: "write_log lr lw s = Ret () a" and a: "did s (log_writes ?l ?V 0) a" and ta: "dty a = dty s"
    by (rule write_log_did [OF pre])
  have la: "log a = ?l" and ca: "cview a ?st = ?V ?st"
    using didD(2,3) [OF a] apply_log_writes_other [OF g, of ?st] by simp_all
  obtain b where rb: "write_head lr lw a = Ret () b" and b: "did a [(?st, head_bytes ?l (?V ?st))] b" and tb: "dty b = dty a"
    using write_head_did [of a lr lw] didD(1) [OF a] geo by (metis la ca ta)
  have lb: "log b = ?l" using didD(3) [OF b] la by simp
  have iw: "install_writes ?l (cview b) 0 = home_writes ?l ?V"
    unfolding install_writes_def home_writes_def
  proof (rule map_cong)
    fix i assume "i \<in> set [0..<?n]"
    then have i: "i < ?n" by simp
    have "cview b (log_blk ?st i) = cview a (log_blk ?st i)"
      using didD(2) [OF b] log_blk_ne_start [of ?st i] g log_geomD(1) [OF g i] by (simp add: log_geom_def)
    also have "\<dots> = ?V (lh_block ?l i)" using didD(2) [OF a] apply_log_writes [OF g i] by simp
    finally show "(lh_block ?l i, cview b (log_blk ?st i)) = (lh_block ?l i, ?V (lh_block ?l i))" by simp
  qed simp
  obtain c where rc: "install_trans lr lw b = Ret () c" and c: "did b (home_writes ?l ?V) c"
    and tc: "dty c = dty s - Pair ROOTDEV ` lh_block ?l ` {..<?n}"
  proof (rule install_trans_did [of b lr lw])
    show "Suc (card (dty b)) < NBUF \<or> (ROOTDEV, lh_block (log b) 0) \<in> dty b"
      using dl n by (simp add: lb tb ta)
  qed (use didD(1) [OF b] g in \<open>simp_all add: lb iw fst_home_writes tb ta\<close>)
  have "?st \<notin> fst ` set (home_writes ?l ?V)" using log_geomD(6) [OF g] unfolding fst_home_writes by force
  then have cc: "cview c ?st = head_bytes ?l (?V ?st)" and lc: "log c = ?l"
    using didD(2,3) [OF c] didD(2) [OF b] lb by (simp_all add: apply_w_other)
  obtain d where rd: "write_head lr lw c = Ret () d" and d: "did c [(?st, head_bytes ?l (head_bytes ?l (?V ?st)))] d"
    and td: "dty d = dty c"
    using write_head_did [of c lr lw] didD(1) [OF c] geo by (metis lc cc tc DiffD1)
  have "did s (commit_writes ?l ?V) d"
    using did_trans [OF a did_trans [OF b did_trans [OF c d]]] by (simp add: commit_writes_def)
  moreover have "commit lr lw s = Ret () (end_trans d)"
    using nl n ra rb rc rd by (auto simp: commit_def end_trans_def)
  ultimately show thesis using that td tc by simp
qed


subsection \<open>Recovery\<close>

lemma cview_clean:
  assumes ok: "cache_ok s" and "(ROOTDEV, bn) \<notin> dty s" and "(ROOTDEV, bn) \<notin> lkd s"
  shows "cview s bn = dsk s ROOTDEV bn"
proof (cases "\<exists>i<NBUF. is_for ROOTDEV bn (bufs s i) \<and> b_valid (bufs s i)")
  case True
  then obtain i where i: "i < NBUF" "is_for ROOTDEV bn (bufs s i)" "b_valid (bufs s i)" by auto
  have "\<not> b_dirty (bufs s i)" "\<not> sl_locked (b_lock (bufs s i))"
    using assms(2,3) i unfolding dty_iff lkd_iff by blast+
  then show ?thesis
    using buf_okD(8) [OF cache_ok_buf [OF ok i(1)]] i cview_hit [OF ok i] by (simp add: is_for_def)
next
  case False
  then show ?thesis by (intro cview_miss) auto
qed

definition hdr_merge :: "u8 list \<Rightarrow> nat \<Rightarrow> (nat \<Rightarrow> u32) \<Rightarrow> nat \<Rightarrow> u32" where
  "hdr_merge d i f j = (if i \<le> j \<and> j < nat (hdr_n d) then hdr_block d j else f j)"

definition head_of :: "u8 list \<Rightarrow> log \<Rightarrow> log" where
  "head_of d l = l\<lparr>lh_n := hdr_n d, lh_block := hdr_merge d 0 (lh_block l)\<rparr>"

lemma hdr_merge_step: "i < nat (hdr_n d) \<Longrightarrow> hdr_merge d (Suc i) (f(i := hdr_block d i)) = hdr_merge d i f"
  by (auto simp: hdr_merge_def fun_eq_iff le_eq_less_or_eq)

lemma hdr_merge_done: "nat (hdr_n d) \<le> i \<Longrightarrow> hdr_merge d i f = f"
  by (auto simp: hdr_merge_def fun_eq_iff)

lemma read_head_from_run:
  assumes "lh_n (log t) = hdr_n d" and "hdr_n d \<le> 30" and "nat (hdr_n d) - i < k"
  shows "read_head_from d k i t = Ret () (t\<lparr>log := (log t)\<lparr>lh_block := hdr_merge d i (lh_block (log t))\<rparr>\<rparr>)"
  using assms
proof (induction k arbitrary: i t)
  case 0
  then show ?case by simp
next
  case (Suc k)
  show ?case
  proof (cases "int i < hdr_n d")
    case True
    let ?t = "t\<lparr>log := (log t)\<lparr>lh_block := (lh_block (log t))(i := hdr_block d i)\<rparr>\<rparr>"
    have i: "i < nat (hdr_n d)" "i < 30" "nat (hdr_n d) - Suc i < k" using True Suc.prems by auto
    have "read_head_from d k (Suc i) ?t = Ret () (?t\<lparr>log := (log ?t)\<lparr>lh_block := hdr_merge d (Suc i) (lh_block (log ?t))\<rparr>\<rparr>)"
      by (rule Suc.IH) (use Suc.prems i in simp_all)
    then show ?thesis using True i Suc.prems(1) by (simp add: hdr_merge_step)
  next
    case False
    then have "nat (hdr_n d) \<le> i" by linarith
    then show ?thesis using False Suc.prems(1) by (simp add: hdr_merge_done)
  qed
qed

text \<open>\<open>brelse\<close> does not look at the log.\<close>

lemma brelse_log:
  assumes "held t = []" and "my_buf t b" and "b_refcnt (bufs t b) = 1" and "brelse b t = Ret () u"
  shows "brelse b (t\<lparr>log := l\<rparr>) = Ret () (u\<lparr>log := l\<rparr>)"
  using assms brelse_run [of "t\<lparr>log := l\<rparr>" b] brelse_run [of t b] by (auto simp: my_buf_def mylock_def)

lemma read_head_spec:
  assumes s: "bready s" and l: "l_dev (log s) = ROOTDEV" "unat (l_start (log s)) < FSSIZE"
    and n: "hdr_n (cview s (l_start (log s))) \<le> 30"
  obtains t where "read_head lr s = Ret () (t\<lparr>log := head_of (cview s (l_start (log s))) (log s)\<rparr>)"
    and "did s [] t" and "dty t = dty s"
proof -
  let ?st = "l_start (log s)" and ?d = "cview s (l_start (log s))"
  have ok: "cache_ok s" "ide_ready s" "lkd s = {}" "card (dty s) < NBUF" using s by (simp_all add: bready_def)
  have "wp (bread lr ROOTDEV ?st) (bread_post s ?st) s" by (rule bread_wp) (use ok l in simp_all)
  then obtain b t where r: "bread lr ROOTDEV ?st s = Ret b t" and "bread_post s ?st b t" by (rule wpE)
  then have tf: "bframe s t" and t: "cache_ok t" "cview t = cview s" "holds t b ?st" "lkd t = {(ROOTDEV, ?st)}"
    "dty t = dty s" "(ROOTDEV, ?st) \<in> dty s \<or> cview s ?st = dsk s ROOTDEV ?st"
    using ok by (simp_all add: bread_post_def)
  have lt: "log t = log s" by (rule bframeD(13) [OF tf])
  let ?h = "head_of ?d (log s)"
  have d: "b_data (bufs t b) = ?d" using holds_cview [OF t(1,3)] t(2) by simp
  have h: "read_head_from ?d 31 0 (t\<lparr>log := (log t)\<lparr>lh_n := hdr_n ?d\<rparr>\<rparr>) = Ret () (t\<lparr>log := ?h\<rparr>)"
    by (subst read_head_from_run) (use n in \<open>simp_all add: head_of_def lt\<close>)
  have "wp (brelse b) (\<lambda>_. brelse_post t b ?st) t"
    by (rule brelse_wp [OF t(1) _ t(3)])
      (use ok bframeD(23,22) [OF tf] t in simp_all)
  from wp_unit [OF this] obtain u where ru: "brelse b t = Ret () u" and "brelse_post t b ?st u" by blast
  then have uf: "bframe t u" and u: "cache_ok u" "cview u = cview t" "lkd u = {}" "dty u = dty t"
    using t(4) by (simp_all add: brelse_post_def)
  have su: "bframe s u" by (rule bframe_trans [OF tf uf])
  have "brelse b (t\<lparr>log := ?h\<rparr>) = Ret () (u\<lparr>log := ?h\<rparr>)"
    by (rule brelse_log [OF _ _ _ ru])
      (use ok(2) bframeD(1) [OF tf] holdsD(2) [OF t(3)] buf_okD(4) [OF cache_ok_buf [OF t(1)]] holdsD(1,5) [OF t(3)]
        in \<open>simp_all add: ide_ready_def\<close>)
  then have "read_head lr s = Ret () (u\<lparr>log := ?h\<rparr>)"
    using r h by (simp add: read_head_def l d)
  moreover have "did s [] u"
    using dframe_Nil [OF su] u t ok bframeD(23) [OF su] by (simp add: did_def bready_def)
  ultimately show thesis using that u(4) t(5) by simp
qed


definition recover_writes :: "u32 \<Rightarrow> (u32 \<Rightarrow> u8 list) \<Rightarrow> (u32 \<times> u8 list) list" where
  "recover_writes st D = map (\<lambda>i. (hdr_block (D st) i, D (log_blk st i))) [0..<nat (hdr_n (D st))]
     @ [(st, put_hdr_n (D st) 0)]"

text \<open>A header that recovery can install: at most \<open>LOGSIZE\<close> blocks, all on the disk and outside the log.\<close>

definition good_header :: "u32 \<Rightarrow> u8 list \<Rightarrow> bool" where
  "good_header st d \<longleftrightarrow> hdr_n d \<le> 30
   \<and> (\<forall>i<nat (hdr_n d). unat (hdr_block d i) < FSSIZE \<and> \<not> log_area st (hdr_block d i))"

text \<open>The kernel after a reboot: nothing cached that is not on the disk, whose content is \<open>D\<close>.\<close>

definition rebooted :: "kstate \<Rightarrow> u32 \<Rightarrow> (u32 \<Rightarrow> u8 list) \<Rightarrow> bool" where
  "rebooted r st D \<longleftrightarrow> bready r \<and> dty r = {} \<and> l_dev (log r) = ROOTDEV \<and> l_start (log r) = st
   \<and> unat st + 30 < FSSIZE \<and> dsk r ROOTDEV = D"

lemma end_trans_bio [simp]:
  "bready (end_trans t) = bready t" "cview (end_trans t) = cview t" "dty (end_trans t) = dty t"
  "dsk (end_trans t) = dsk t" "log (end_trans t) = (log t)\<lparr>lh_n := 0\<rparr>"
proof -
  have "cache_ok (end_trans t) = cache_ok t" "cview (end_trans t) = cview t" "lkd (end_trans t) = lkd t"
    "dty (end_trans t) = dty t"
    by (rule bio_cong; simp add: end_trans_def)+
  moreover have "ide_ready (end_trans t) = ide_ready t" by (simp add: end_trans_def ide_ready_def)
  ultimately show "bready (end_trans t) = bready t" "cview (end_trans t) = cview t" "dty (end_trans t) = dty t"
    by (simp_all add: bready_def)
  show "dsk (end_trans t) = dsk t" "log (end_trans t) = (log t)\<lparr>lh_n := 0\<rparr>"
    by (simp_all add: end_trans_def dsk_def fun_eq_iff)
qed

lemma recover_spec:
  assumes r: "rebooted r st D" and h: "good_header st (D st)"
  obtains v where "recover_from_log lr lw r = Ret () v" and "dsk v ROOTDEV = apply_w (recover_writes st D) D"
    and "dtrace v = dtrace r @ map (\<lambda>(b, x). (1, unat b, x)) (recover_writes st D)"
    and "bready v" and "dty v = {}" and "cview v = dsk v ROOTDEV" and "lh_n (log v) = 0"
proof -
  have s: "bready r" "dty r = {}" "l_dev (log r) = ROOTDEV" "l_start (log r) = st" "unat st + 30 < FSSIZE"
    "dsk r ROOTDEV = D" using r by (simp_all add: rebooted_def)
  have V: "cview r = D"
    using cview_clean [of r] s by (auto simp: bready_def fun_eq_iff)
  have st: "unat st < FSSIZE" using s(5) by simp
  have h30: "hdr_n (D st) \<le> 30" using h by (simp add: good_header_def)
  obtain t where rt: "read_head lr r = Ret () (t\<lparr>log := head_of (D st) (log r)\<rparr>)"
    and t: "did r [] t" and dt: "dty t = {}"
    using read_head_spec [of r lr] s st h30 V by metis
  let ?h = "head_of (D st) (log r)" and ?t = "t\<lparr>log := head_of (D st) (log r)\<rparr>"
  have tb: "bready ?t" "cview ?t = D" "dty ?t = {}" "dsk ?t ROOTDEV = D"
    using didD(1,2,5) [OF t] V dt s(6) by (simp_all add: bready_def)
  have lh: "lh_block ?h i = hdr_block (D st) i" if "i < nat (hdr_n (D st))" for i
    using that by (simp add: head_of_def hdr_merge_def)
  have geo: "log_geom ?h"
    using h s lh unfolding log_geom_def good_header_def by (simp add: head_of_def hdr_merge_def)
  obtain a where ra: "install_trans lr lw ?t = Ret () a" and a: "did ?t (install_writes ?h D 0) a" and da: "dty a = {}"
    by (rule install_trans_did [of ?t lr lw]) (use tb geo in simp_all)
  have la: "log a = ?h" using didD(3) [OF a] by simp
  have iw: "install_writes ?h D 0 = map (\<lambda>i. (hdr_block (D st) i, D (log_blk st i))) [0..<nat (hdr_n (D st))]"
    using lh s(4) unfolding install_writes_def by (simp add: head_of_def hdr_merge_def)
  have "st \<notin> fst ` set (install_writes ?h D 0)" using h unfolding iw good_header_def by force
  then have ca: "cview a st = D st" using didD(2) [OF a] tb by (simp add: apply_w_other)
  have "head_bytes ((log a)\<lparr>lh_n := 0\<rparr>) (D st) = put_hdr_n (D st) 0" by (simp add: head_bytes_def)
  then obtain v where rv: "write_head lr lw (end_trans a) = Ret () v"
    and v: "did (end_trans a) [(st, put_hdr_n (D st) 0)] v" and dv: "dty v = {}"
    using write_head_did [of "end_trans a" lr lw] didD(1) [OF a] s(3,4) st da ca la by (simp add: head_of_def) metis
  have lv: "lh_n (log v) = 0" using didD(3) [OF v] by simp
  have dk: "dsk v ROOTDEV = apply_w (recover_writes st D) D"
    using didD(5) [OF v] didD(5) [OF a] tb(4) iw by (simp add: recover_writes_def)
  have "cview v = dsk v ROOTDEV"
    using didD(2) [OF v] didD(2) [OF a] tb(2) dk iw by (simp add: recover_writes_def)
  moreover have "dtrace v = dtrace r @ map (\<lambda>(b, x). (1, unat b, x)) (recover_writes st D)"
    using didD(6) [OF v] didD(6) [OF a] didD(6) [OF t] iw by (simp add: recover_writes_def end_trans_def)
  moreover have "recover_from_log lr lw r = Ret () v"
    using rt ra rv by (simp add: recover_from_log_def end_trans_def)
  ultimately show thesis using that dk didD(1) [OF v] dv lv by simp
qed


subsection \<open>Crashes\<close>

text \<open>Repeating a sequence of writes after part of it has been done makes no difference.\<close>

lemma apply_w_last:
  "apply_w W V b = (case find (\<lambda>w. fst w = b) (rev W) of None \<Rightarrow> V b | Some w \<Rightarrow> snd w)"
proof (induction W rule: rev_induct)
  case (snoc w W)
  then show ?case by (cases w) auto
qed simp

lemma apply_w_absorb: "apply_w W (apply_w (take k W) D) = apply_w W D"
proof
  fix b
  show "apply_w W (apply_w (take k W) D) b = apply_w W D b"
  proof (cases "find (\<lambda>w. fst w = b) (rev W)")
    case None
    then have "b \<notin> fst ` set (take k W)" using set_take_subset [of k W] by (force simp: find_None_iff)
    then show ?thesis using apply_w_last [of W D b] apply_w_last [of W "apply_w (take k W) D" b] None
      by (simp add: apply_w_other)
  next
    case (Some w)
    then show ?thesis using apply_w_last [of W D b] apply_w_last [of W "apply_w (take k W) D" b] by simp
  qed
qed

lemma home_writes_lookup:
  assumes "inj_on (lh_block l) {..<nat (lh_n l)}" and "i < nat (lh_n l)"
  shows "(lh_block l i, x i) \<in> set (map (\<lambda>i. (lh_block l i, x i)) [0..<nat (lh_n l)])"
    and "distinct (map fst (map (\<lambda>i. (lh_block l i, x i)) [0..<nat (lh_n l)]))"
  using assms by (auto simp: comp_def distinct_map atLeast0LessThan)

text \<open>
  The disk when the machine stops after the header has been written: the log holds the new
  content of every block, whatever part of the installation has happened.
\<close>

lemma after_header:
  fixes Dsk :: "u32 \<Rightarrow> u8 list"
  assumes g: "log_geom l" and n: "0 < lh_n l" and len: "length (V (l_start l)) = BSIZE"
    and k: "nat (lh_n l) < k"
  defines "D \<equiv> apply_w (take k (commit_writes l V)) Dsk" and "st \<equiv> l_start l"
  shows "hdr_n (D st) = lh_n l"
    and "\<And>i. i < nat (lh_n l) \<Longrightarrow> hdr_block (D st) i = lh_block l i"
    and "\<And>i. i < nat (lh_n l) \<Longrightarrow> D (log_blk st i) = V (lh_block l i)"
    and "\<And>bn. \<not> log_area st bn \<Longrightarrow> bn \<notin> lh_block l ` {..<nat (lh_n l)} \<Longrightarrow> D bn = Dsk bn"
proof -
  let ?n = "nat (lh_n l)"
  let ?h1 = "head_bytes l (V st)" and ?h2 = "head_bytes l (head_bytes l (V st))"
  let ?R = "home_writes l V @ [(st, ?h2)]"
  define W' where "W' = take (k - Suc ?n) ?R"
  have l1: "length (log_writes l V 0) = ?n" by (simp add: log_writes_def)
  have tk: "take k (commit_writes l V) = log_writes l V 0 @ (st, ?h1) # W'"
  proof -
    obtain m where m: "k = ?n + Suc m" using k less_iff_Suc_add [of ?n k] by auto
    show ?thesis using l1 unfolding m W'_def by (simp add: commit_writes_def st_def)
  qed
  have D: "D = apply_w W' ((apply_w (log_writes l V 0) Dsk)(st := ?h1))"
    by (simp add: D_def tk)
  have sub: "set W' \<subseteq> set ?R" unfolding W'_def by (rule set_take_subset)
  then have fs: "fst ` set W' \<subseteq> lh_block l ` {..<?n} \<union> {st}"
    using image_mono [OF sub, of fst] fst_home_writes [of l V] by auto
  have n30: "lh_n l \<le> 30" and st30: "unat st + 30 < FSSIZE" using g by (simp_all add: log_geom_def st_def)
  note h1 = head_bytes_props [OF len [folded st_def], of l] 
  note h2 = head_bytes_props [OF h1(1), of l]
  have "apply_w W' U st \<in> {U st, ?h1, ?h2}" for U
  proof (cases "st \<in> fst ` set W'")
    case False
    then show ?thesis by (simp add: apply_w_other)
  next
    case True
    have "st \<notin> fst ` set (home_writes l V)" using log_geomD(6) [OF g] unfolding fst_home_writes st_def by force
    then have "(st, ?h2) \<in> set W'" and all: "\<And>x. (st, x) \<in> set W' \<Longrightarrow> x = ?h2"
      using True sub by force+
    then obtain W1 W2 where w: "W' = W1 @ (st, ?h2) # W2" "(st, ?h2) \<notin> set W2"
      using split_list_last [of "(st, ?h2)" W'] by blast
    have "st \<notin> fst ` set W2"
    proof
      assume "st \<in> fst ` set W2"
      then obtain x where "(st, x) \<in> set W2" by auto
      with all [of x] w show False by auto
    qed
    with w(1) show ?thesis by (simp add: apply_w_other)
  qed
  then have "D st \<in> {?h1, ?h2}" unfolding D by (metis fun_upd_same insertE insertI1 insertI2 singletonD)
  then show "hdr_n (D st) = lh_n l" and "\<And>i. i < ?n \<Longrightarrow> hdr_block (D st) i = lh_block l i"
    using h1 h2 n n30 by auto
  show "D (log_blk st i) = V (lh_block l i)" if i: "i < ?n" for i
  proof -
    have "log_blk st i \<notin> fst ` set W'"
      using fs log_geomD(5) [OF g i] log_geomD(6) [OF g] log_blk_ne_start [OF st30 log_geomD(1) [OF g i]]
      unfolding st_def by fastforce
    then show ?thesis
      using apply_log_writes [OF g i, of V Dsk] log_blk_ne_start [OF st30 log_geomD(1) [OF g i]]
      by (simp add: D apply_w_other st_def)
  qed
  show "D bn = Dsk bn" if b: "\<not> log_area st bn" "bn \<notin> lh_block l ` {..<?n}" for bn
  proof -
    have "bn \<notin> fst ` set W'" "bn \<noteq> st" using fs b by auto
    then show ?thesis
      using apply_log_writes_other [OF g, of bn V 0 Dsk] b(1) by (simp add: D apply_w_other st_def)
  qed
qed

text \<open>The disk when the machine stops before that: only blocks of the log have changed.\<close>

lemma before_header:
  assumes g: "log_geom l" and k: "k \<le> nat (lh_n l)" and b: "\<not> log_area (l_start l) bn \<or> bn = l_start l"
  shows "apply_w (take k (commit_writes l V)) D0 bn = D0 bn"
proof (rule apply_w_other)
  have "take k (commit_writes l V) = take k (log_writes l V 0)"
    using k by (simp add: commit_writes_def log_writes_def)
  then have "set (take k (commit_writes l V)) \<subseteq> set (log_writes l V 0)" by (metis set_take_subset)
  moreover have "bn \<notin> fst ` set (log_writes l V 0)"
  proof
    assume "bn \<in> fst ` set (log_writes l V 0)"
    then obtain i where i: "i < nat (lh_n l)" "bn = log_blk (l_start l) i" by (auto simp: log_writes_def)
    then show False
      using b log_geomD(5) [OF g i(1)] log_blk_ne_start [of "l_start l" i] g log_geomD(1) [OF g i(1)]
      by (auto simp: log_geom_def)
  qed
  ultimately show "bn \<notin> fst ` set (take k (commit_writes l V))" by blast
qed


subsection \<open>Properties of commit and recovery\<close>

text \<open>The transaction in memory: the dirty blocks are the logged ones, each logged once.\<close>

definition all_logged :: "kstate \<Rightarrow> bool" where
  "all_logged s \<longleftrightarrow> inj_on (lh_block (log s)) {..<nat (lh_n (log s))}
   \<and> (\<forall>bn. (ROOTDEV, bn) \<in> dty s \<longrightarrow> bn \<in> lh_block (log s) ` {..<nat (lh_n (log s))})"

lemma recover_after_header:
  assumes pre: "commit_pre s" and al: "all_logged s" and k: "nat (lh_n (log s)) < k"
    and bn: "\<not> log_area (l_start (log s)) bn"
  defines "D \<equiv> apply_w (take k (commit_writes (log s) (cview s))) (dsk s ROOTDEV)" and "st \<equiv> l_start (log s)"
  shows "good_header st (D st)" and "apply_w (recover_writes st D) D bn = cview s bn"
proof -
  let ?l = "log s" and ?n = "nat (lh_n (log s))"
  have g: "log_geom ?l" and n: "0 < lh_n ?l" and s: "bready s"
    using pre by (simp_all add: commit_pre_def)
  have ok: "cache_ok s" "lkd s = {}" using s by (simp_all add: bready_def)
  note a = after_header [where V = "cview s" and Dsk = "dsk s ROOTDEV", OF g n length_cview [OF ok(1)] k, folded D_def st_def]
  show "good_header st (D st)"
    using a(1,2) g unfolding good_header_def log_geom_def st_def by simp
  let ?W = "map (\<lambda>i. (lh_block ?l i, cview s (lh_block ?l i))) [0..<?n]"
  have w: "recover_writes st D = ?W @ [(st, put_hdr_n (D st) 0)]"
    using a(2,3) unfolding recover_writes_def a(1) by simp
  have bs: "bn \<noteq> st" using bn unfolding st_def by auto
  show "apply_w (recover_writes st D) D bn = cview s bn"
  proof (cases "bn \<in> lh_block ?l ` {..<?n}")
    case True
    then obtain i where i: "i < ?n" "bn = lh_block ?l i" by auto
    have "apply_w ?W D (lh_block ?l i) = cview s (lh_block ?l i)"
      by (rule apply_w_in [OF home_writes_lookup(2,1)]) (use al i in \<open>simp_all add: all_logged_def\<close>)
    then show ?thesis using bs i by (simp add: w)
  next
    case False
    then have "bn \<notin> fst ` set ?W" by force
    then have "apply_w (recover_writes st D) D bn = D bn" using bs by (simp add: w apply_w_other)
    also have "\<dots> = dsk s ROOTDEV bn" by (rule a(4)) (use bn False in \<open>simp_all add: st_def\<close>)
    also have "\<dots> = cview s bn"
      by (rule cview_clean [OF ok(1), symmetric]) (use al False ok in \<open>auto simp: all_logged_def\<close>)
    finally show ?thesis .
  qed
qed

text \<open>States to try the theorems on: a booted kernel with a given log, and one with a transaction pending.\<close>

lemma boot_log_ex:
  assumes "\<forall>bn. length (D bn) = BSIZE"
  shows "\<exists>s. bready s \<and> dty s = {} \<and> log s = l \<and> dsk s ROOTDEV = D \<and> \<not> is_loop_mounted s"
proof -
  let ?k = "kstate0 (\<lambda>d n. D (of_nat n))"
  have z: "core (bufs ?k i) = core buf0" for i by (simp add: kstate0_def)
  have d: "length (disk ?k d n) = BSIZE" for d n by (simp add: kstate0_def assms)
  obtain B where c: "\<forall>i. core (B i) = core buf0" and ok: "cache_ok (?k\<lparr>bufs := B\<rparr>)"
    by (rule binit_run [OF z d])
  let ?s = "?k\<lparr>bufs := B\<rparr>\<lparr>log := l\<rparr>"
  have "lkd (?k\<lparr>bufs := B\<rparr>) = {}" "dty (?k\<lparr>bufs := B\<rparr>) = {}"
    using bready0 [of "?k\<lparr>bufs := B\<rparr>"] c by simp_all
  moreover have "ide_ready (?k\<lparr>bufs := B\<rparr>)" by (simp add: ide_ready_def kstate0_def)
  moreover have "dsk ?s ROOTDEV = D" by (simp add: dsk_def kstate0_def fun_eq_iff)
  moreover have "\<not> is_loop_mounted ?s" by (simp add: kstate0_def)
  ultimately show ?thesis using ok by (intro exI [of _ ?s]) (simp add: bready_def)
qed

lemma pending_ex:
  assumes D: "\<forall>bn. length (D bn) = BSIZE" and x: "length x = BSIZE" and bn: "unat bn < FSSIZE"
  shows "\<exists>s. bready s \<and> dty s = {(ROOTDEV, bn)} \<and> log s = l \<and> dsk s ROOTDEV = D \<and> cview s = D(bn := x)
     \<and> \<not> is_loop_mounted s"
proof -
  obtain s where s: "bready s" "dty s = {}" "log s = l" "dsk s ROOTDEV = D" "\<not> is_loop_mounted s"
    using boot_log_ex [OF D] by blast
  then have ok: "cache_ok s" "ide_ready s" "lkd s = {}" by (simp_all add: bready_def)
  have cv: "cview s = D" using cview_clean [OF ok(1)] s(2,4) ok(3) by (auto simp: fun_eq_iff)
  have "wp (bread (\<lambda>_. panic []) ROOTDEV bn) (bread_post s bn) s" by (rule bread_wp) (use ok s bn in simp_all)
  then obtain b t where "bread_post s bn b t" by (rule wpE)
  then have tf: "bframe s t" and t: "cache_ok t" "cview t = cview s" "holds t b bn" "lkd t = {(ROOTDEV, bn)}" "dty t = {}"
    using ok s(2) by (simp_all add: bread_post_def)
  let ?m = "bmod t b x True"
  note m = bmod_post [OF t(1,3) x, of True]
  have mf: "bframe s ?m" by (rule bframe_trans [OF tf bmod_bframe])
  have "wp (brelse b) (\<lambda>_. brelse_post ?m b bn) ?m"
    by (rule brelse_wp [OF m(1) _ m(3)]) (use ok bframeD(23) [OF mf] m(6) in simp_all)
  from wp_unit [OF this] obtain u where "brelse_post ?m b bn u" by blast
  then have uf: "bframe ?m u" and u: "cache_ok u" "cview u = cview ?m" "lkd u = {}" "dty u = {(ROOTDEV, bn)}"
    using m(5,6) t(4,5) by (simp_all add: brelse_post_def)
  have su: "bframe s u" by (rule bframe_trans [OF mf uf])
  show ?thesis
    using u m(2) t(2) cv ok s bframeD(13,15,22,23) [OF su]
    by (intro exI [of _ u]) (simp add: bready_def)
qed

definition demo_log :: log where
  "demo_log = \<lparr>l_start = 2, l_size = 30, l_outstanding = 0, l_committing = True, l_dev = ROOTDEV,
     lh_n = 1, lh_block = (\<lambda>_. 100)\<rparr>"

lemma demo_pending:
  assumes D: "\<forall>bn. length (D bn) = BSIZE"
  shows "\<exists>s. commit_pre s \<and> all_logged s \<and> log s = demo_log \<and> dsk s ROOTDEV = D
     \<and> dty s = {(ROOTDEV, 100)} \<and> cview s = D(100 := replicate BSIZE 1)"
proof -
  obtain s where s: "bready s" "dty s = {(ROOTDEV, 100)}" "log s = demo_log" "dsk s ROOTDEV = D"
    "cview s = D(100 := replicate BSIZE 1)" "\<not> is_loop_mounted s"
    using pending_ex [OF D, of "replicate BSIZE 1" 100 demo_log] by auto
  then have "commit_pre s" "all_logged s"
    by (simp_all add: commit_pre_def all_logged_def log_geom_def demo_log_def log_area_def inj_on_def) auto
  with s show ?thesis by blast
qed

text \<open>
  (C1) Crash atomicity. A commit that starts with an erased header on disk issues a sequence \<open>W\<close> of
  block writes such that, if the machine stops after any number \<open>k\<close> of them and the kernel
  boots again and recovers, the file system (every block outside the log) is either exactly as it
  was on disk before the commit or exactly as the transaction left it in the cache.
\<close>

theorem commit_crash_atomic:
  assumes pre: "commit_pre s" and al: "all_logged s" and erased: "hdr_n (dsk s ROOTDEV (l_start (log s))) = 0"
  shows "\<exists>u W. commit lr lw s = Ret () u \<and> dtrace u = dtrace s @ map (\<lambda>(b, x). (1, unat b, x)) W
    \<and> (\<forall>k r. rebooted r (l_start (log s)) (apply_w (take k W) (dsk s ROOTDEV)) \<longrightarrow>
        (\<exists>v. recover_from_log lr lw r = Ret () v
          \<and> ((\<forall>bn. \<not> log_area (l_start (log s)) bn \<longrightarrow> cview v bn = dsk s ROOTDEV bn)
             \<or> (\<forall>bn. \<not> log_area (l_start (log s)) bn \<longrightarrow> cview v bn = cview s bn))))"
proof -
  let ?l = "log s" and ?st = "l_start (log s)" and ?D0 = "dsk s ROOTDEV"
  let ?W = "commit_writes (log s) (cview s)"
  obtain t where ct: "commit lr lw s = Ret () (end_trans t)" and t: "did s ?W t"
    by (rule commit_spec [OF pre])
  have g: "log_geom ?l" using pre by (simp add: commit_pre_def)
  have rec: "\<exists>v. recover_from_log lr lw r = Ret () v
          \<and> ((\<forall>bn. \<not> log_area ?st bn \<longrightarrow> cview v bn = ?D0 bn)
             \<or> (\<forall>bn. \<not> log_area ?st bn \<longrightarrow> cview v bn = cview s bn))"
    if r: "rebooted r ?st (apply_w (take k ?W) ?D0)" for k r
  proof -
    define D where "D = apply_w (take k ?W) ?D0"
    have gh: "good_header ?st (D ?st)"
    proof (cases "k \<le> nat (lh_n ?l)")
      case True
      then have "D ?st = ?D0 ?st" using before_header [OF g True, of ?st] by (simp add: D_def)
      then show ?thesis using erased by (simp add: good_header_def)
    next
      case False
      then have "\<not> log_area ?st (lh_block ?l 0)"
        using log_geomD(6) [OF g, of 0] pre by (simp add: commit_pre_def)
      with False show ?thesis using recover_after_header(1) [OF pre al, of k "lh_block ?l 0"] by (simp add: D_def)
    qed
    obtain v where v: "recover_from_log lr lw r = Ret () v" "dsk v ROOTDEV = apply_w (recover_writes ?st D) D"
      "cview v = dsk v ROOTDEV"
      by (rule recover_spec [OF r [folded D_def] gh])
    show ?thesis
    proof (cases "k \<le> nat (lh_n ?l)")
      case True
      then have "D ?st = ?D0 ?st" using before_header [OF g True, of ?st] by (simp add: D_def)
      then have "recover_writes ?st D = [(?st, put_hdr_n (?D0 ?st) 0)]"
        using erased by (simp add: recover_writes_def)
      then have "cview v bn = ?D0 bn" if "\<not> log_area ?st bn" for bn
        using v(2,3) that before_header [OF g True, of bn] by (auto simp: D_def)
      then show ?thesis using v(1) by blast
    next
      case False
      then have "cview v bn = cview s bn" if "\<not> log_area ?st bn" for bn
        using v(2,3) recover_after_header(2) [OF pre al _ that, of k] by (simp add: D_def)
      then show ?thesis using v(1) by blast
    qed
  qed
  have "dtrace (end_trans t) = dtrace s @ map (\<lambda>(b, x). (1, unat b, x)) ?W"
    using didD(6) [OF t] by (simp add: end_trans_def)
  then show ?thesis using ct rec by blast
qed

theorem commit_crash_atomic_witness:
  "\<exists>s u W. log s = demo_log \<and> cview s 100 = replicate BSIZE 1 \<and> dsk s ROOTDEV 100 = replicate BSIZE 0
    \<and> commit (\<lambda>_. panic []) (\<lambda>_. panic []) s = Ret () u
    \<and> dtrace u = dtrace s @ map (\<lambda>(b, x). (1, unat b, x)) W
    \<and> (\<forall>k r. rebooted r 2 (apply_w (take k W) (dsk s ROOTDEV)) \<longrightarrow>
        (\<exists>v. recover_from_log (\<lambda>_. panic []) (\<lambda>_. panic []) r = Ret () v
          \<and> (cview v 100 = replicate BSIZE 0 \<or> cview v 100 = replicate BSIZE 1)))"
proof -
  obtain s where s: "commit_pre s" "all_logged s" "log s = demo_log" "dsk s ROOTDEV = (\<lambda>_. replicate BSIZE 0)"
    "cview s = (\<lambda>_. replicate BSIZE 0)(100 := replicate BSIZE 1)"
    using demo_pending [of "\<lambda>_. replicate BSIZE 0"] by auto
  have h: "hdr_n (dsk s ROOTDEV (l_start (log s))) = 0"
    by (simp add: s hdr_n_def get32_def bslice_def word32_def)
  have st: "l_start (log s) = 2" and a: "\<not> log_area 2 100" by (simp_all add: s demo_log_def log_area_def)
  let ?z = "\<lambda>_. panic []"
  obtain u W where u: "commit ?z ?z s = Ret () u" "dtrace u = dtrace s @ map (\<lambda>(b, x). (1, unat b, x)) W"
    and rec: "\<forall>k r. rebooted r 2 (apply_w (take k W) (dsk s ROOTDEV)) \<longrightarrow>
        (\<exists>v. recover_from_log ?z ?z r = Ret () v
          \<and> ((\<forall>bn. \<not> log_area 2 bn \<longrightarrow> cview v bn = dsk s ROOTDEV bn)
             \<or> (\<forall>bn. \<not> log_area 2 bn \<longrightarrow> cview v bn = cview s bn)))"
    using commit_crash_atomic [OF s(1,2) h, of ?z ?z, unfolded st] by blast
  have c: "cview s 100 = replicate BSIZE 1" "dsk s ROOTDEV 100 = replicate BSIZE 0" by (simp_all add: s)
  have "\<exists>v. recover_from_log ?z ?z r = Ret () v \<and> (cview v 100 = replicate BSIZE 0 \<or> cview v 100 = replicate BSIZE 1)"
    if "rebooted r 2 (apply_w (take k W) (dsk s ROOTDEV))" for k r
  proof -
    from rec that obtain v where v: "recover_from_log ?z ?z r = Ret () v"
      "(\<forall>bn. \<not> log_area 2 bn \<longrightarrow> cview v bn = dsk s ROOTDEV bn)
         \<or> (\<forall>bn. \<not> log_area 2 bn \<longrightarrow> cview v bn = cview s bn)" by blast
    from v(2) a c have "cview v 100 = replicate BSIZE 0 \<or> cview v 100 = replicate BSIZE 1" by auto
    with v(1) show ?thesis by blast
  qed
  then show ?thesis using s(3) c u by blast
qed

text \<open>
  A commit does not erase its header: when it returns, the header on disk still names all the
  blocks it wrote, although the transaction in memory is empty. (The second call of
  \<^verbatim>\<open>write_head\<close> in \<^verbatim>\<open>commit\<close> is meant to erase it, but \<^verbatim>\<open>log.lh.n\<close> is set to 0 only after it.)
\<close>

lemma header_after_commit:
  assumes pre: "commit_pre s" and c: "commit lr lw s = Ret () u"
  shows "lh_n (log u) = 0" and "hdr_n (dsk u ROOTDEV (l_start (log s))) = lh_n (log s)"
    and "\<And>i. i < nat (lh_n (log s)) \<Longrightarrow> hdr_block (dsk u ROOTDEV (l_start (log s))) i = lh_block (log s) i"
proof -
  let ?l = "log s" and ?W = "commit_writes (log s) (cview s)"
  obtain t where ct: "commit lr lw s = Ret () (end_trans t)" and t: "did s ?W t"
    by (rule commit_spec [OF pre])
  then have u: "u = end_trans t" using c by simp
  have g: "log_geom ?l" and n: "0 < lh_n ?l" and ok: "cache_ok s"
    using pre by (simp_all add: commit_pre_def bready_def)
  have "nat (lh_n ?l) < length ?W" by (simp add: commit_writes_def log_writes_def)
  note a = after_header(1,2) [where V = "cview s" and Dsk = "dsk s ROOTDEV", OF g n length_cview [OF ok] this]
  show "lh_n (log u) = 0" "hdr_n (dsk u ROOTDEV (l_start ?l)) = lh_n ?l"
    using a(1) didD(5) [OF t] by (simp_all add: u)
  show "hdr_block (dsk u ROOTDEV (l_start ?l)) i = lh_block ?l i" if "i < nat (lh_n ?l)" for i
    using a(2) [OF that] didD(5) [OF t] by (simp add: u)
qed

text \<open>While a commit writes its log blocks, the first of them is in place from the first write on.\<close>

lemma first_log_write:
  assumes g: "log_geom l" and k: "0 < k" "k \<le> nat (lh_n l)"
  shows "apply_w (take k (commit_writes l V)) D0 (log_blk (l_start l) 0) = V (lh_block l 0)"
proof (rule apply_w_in)
  have tk: "take k (commit_writes l V) = take k (log_writes l V 0)"
    using k by (simp add: commit_writes_def log_writes_def)
  show "distinct (map fst (take k (commit_writes l V)))"
    using distinct_log_writes [OF g, of V 0] by (simp add: tk take_map [symmetric])
  obtain m where "k = Suc m" using k(1) by (cases k) auto
  moreover have "log_writes l V 0 = (log_blk (l_start l) 0, V (lh_block l 0)) # log_writes l V (Suc 0)"
    by (rule log_writes_step) (use k in simp)
  ultimately show "(log_blk (l_start l) 0, V (lh_block l 0)) \<in> set (take k (commit_writes l V))"
    unfolding tk by simp
qed

text \<open>The block writes are determined by the trace of the disk.\<close>

lemma trace_inj: "map (\<lambda>(b, x). (1 :: nat, unat (b :: u32), x)) W = map (\<lambda>(b, x). (1, unat b, x)) W' \<Longrightarrow> W = W'"
  by (rule map_injective) (auto simp: inj_def word_unat_eq_iff)

text \<open>
  (C22) The consequence: after a commit, a crash during the next commit is not safe. The first commit leaves its header on
  the disk; nothing but a commit or a recovery writes that block. If the machine then stops in a later commit after at
  least one of the log blocks of the new transaction has been written, but before its header, recovery overwrites the block
  that the \<^emph>\<open>old\<close> transaction logged first with the content of the \<^emph>\<open>new\<close> transaction's first block. (\<open>s\<close> and \<open>s'\<close> are the
  states before the two commits, \<open>W\<close> the block writes of the second.)
\<close>

theorem crash_in_next_commit_corrupts:
  assumes pre: "commit_pre s" and al: "all_logged s" and c: "commit lr lw s = Ret () u"
    and pre': "commit_pre s'" and st: "l_start (log s') = l_start (log s)"
    and hdr: "dsk s' ROOTDEV (l_start (log s)) = dsk u ROOTDEV (l_start (log s))"
  shows "\<exists>u' W. commit lr lw s' = Ret () u' \<and> dtrace u' = dtrace s' @ map (\<lambda>(b, x). (1, unat b, x)) W
    \<and> (\<forall>k r. 0 < k \<and> k \<le> nat (lh_n (log s')) \<and> rebooted r (l_start (log s)) (apply_w (take k W) (dsk s' ROOTDEV)) \<longrightarrow>
        (\<exists>v. recover_from_log lr lw r = Ret () v \<and> cview v (lh_block (log s) 0) = cview s' (lh_block (log s') 0)))"
proof -
  let ?l = "log s" and ?l' = "log s'" and ?st = "l_start (log s)" and ?n = "nat (lh_n (log s))"
  let ?W = "commit_writes (log s') (cview s')"
  have g: "log_geom ?l" and n: "0 < lh_n ?l" using pre by (simp_all add: commit_pre_def)
  have g': "log_geom ?l'" and n': "0 < nat (lh_n ?l')" using pre' by (simp_all add: commit_pre_def)
  have h: "hdr_n (dsk s' ROOTDEV ?st) = lh_n ?l" "\<And>i. i < ?n \<Longrightarrow> hdr_block (dsk s' ROOTDEV ?st) i = lh_block ?l i"
    using header_after_commit [OF pre c] hdr by simp_all
  obtain t where ct: "commit lr lw s' = Ret () (end_trans t)" and t: "did s' ?W t" by (rule commit_spec [OF pre'])
  have rec: "\<exists>v. recover_from_log lr lw r = Ret () v \<and> cview v (lh_block ?l 0) = cview s' (lh_block ?l' 0)"
    if k: "0 < k" "k \<le> nat (lh_n ?l')" and r: "rebooted r ?st (apply_w (take k ?W) (dsk s' ROOTDEV))" for k r
  proof -
    define D where "D = apply_w (take k ?W) (dsk s' ROOTDEV)"
    have Dst: "D ?st = dsk s' ROOTDEV ?st" using before_header [OF g' k(2), of ?st] st by (simp add: D_def)
    have gh: "good_header ?st (D ?st)" using h g unfolding Dst good_header_def log_geom_def by simp
    have D0: "D (log_blk ?st 0) = cview s' (lh_block ?l' 0)"
      using first_log_write [OF g' k] by (simp add: D_def st)
    obtain v where v: "recover_from_log lr lw r = Ret () v" "dsk v ROOTDEV = apply_w (recover_writes ?st D) D"
      "cview v = dsk v ROOTDEV"
      by (rule recover_spec [OF r [folded D_def] gh])
    have "recover_writes ?st D = map (\<lambda>i. (lh_block ?l i, D (log_blk ?st i))) [0..<?n] @ [(?st, put_hdr_n (D ?st) 0)]"
      using h unfolding recover_writes_def Dst by simp
    moreover have "apply_w (map (\<lambda>i. (lh_block ?l i, D (log_blk ?st i))) [0..<?n]) D (lh_block ?l 0) = D (log_blk ?st 0)"
      using home_writes_lookup [of ?l 0 "\<lambda>i. D (log_blk ?st i)"] al n
      by (intro apply_w_in) (simp_all add: all_logged_def)
    moreover have "lh_block ?l 0 \<noteq> ?st" using log_geomD(6) [OF g, of 0] n by auto
    ultimately show ?thesis using v D0 by simp
  qed
  have "dtrace (end_trans t) = dtrace s' @ map (\<lambda>(b, x). (1, unat b, x)) ?W"
    using didD(6) [OF t] by (simp add: end_trans_def)
  then show ?thesis using ct rec by blast
qed

definition demo_log' :: log where
  "demo_log' = demo_log\<lparr>lh_block := (\<lambda>_. 200)\<rparr>"

theorem crash_in_next_commit_corrupts_witness:
  "\<exists>s u s' u' W r v. commit (\<lambda>_. panic []) (\<lambda>_. panic []) s = Ret () u \<and> cview u 100 = replicate BSIZE 1
     \<and> dsk s' ROOTDEV = dsk u ROOTDEV \<and> log s' = demo_log' \<and> cview s' 100 = replicate BSIZE 1
     \<and> commit (\<lambda>_. panic []) (\<lambda>_. panic []) s' = Ret () u' \<and> dtrace u' = dtrace s' @ map (\<lambda>(b, x). (1, unat b, x)) W
     \<and> rebooted r 2 (apply_w (take 1 W) (dsk s' ROOTDEV))
     \<and> recover_from_log (\<lambda>_. panic []) (\<lambda>_. panic []) r = Ret () v \<and> cview v 100 = replicate BSIZE 2"
proof -
  let ?z = "\<lambda>_. panic [] :: unit kM"
  obtain s where s: "commit_pre s" "all_logged s" "log s = demo_log" "dty s = {(ROOTDEV, 100)}"
    "cview s = (\<lambda>_. replicate BSIZE 0)(100 := replicate BSIZE 1)"
    using demo_pending [of "\<lambda>_. replicate BSIZE 0"] by auto
  obtain t where ct: "commit ?z ?z s = Ret () (end_trans t)" and t: "did s (commit_writes (log s) (cview s)) t"
    and dt: "dty t = dty s - Pair ROOTDEV ` lh_block (log s) ` {..<nat (lh_n (log s))}"
    by (rule commit_spec [OF s(1)])
  let ?u = "end_trans t" and ?D = "dsk (end_trans t) ROOTDEV"
  have d0: "dty t = {}" using dt by (simp add: s demo_log_def)
  have tb: "bready t" by (rule didD(1) [OF t])
  have cu: "cview t = dsk t ROOTDEV"
    using cview_clean [of t] tb d0 by (auto simp: bready_def fun_eq_iff)
  have len: "\<forall>bn. length (?D bn) = BSIZE" using length_cview [of t] tb by (simp add: cu [symmetric] bready_def)
  have u100: "cview t 100 = replicate BSIZE 1"
    using didD(2) [OF t] by (simp add: s commit_writes_def home_writes_def log_writes_def demo_log_def)
  obtain s' where s': "bready s'" "dty s' = {(ROOTDEV, 200)}" "log s' = demo_log'" "dsk s' ROOTDEV = ?D"
    "cview s' = ?D(200 := replicate BSIZE 2)" "\<not> is_loop_mounted s'"
    using pending_ex [OF len, of "replicate BSIZE 2" 200 demo_log'] by auto
  have pre': "commit_pre s'"
    using s' by (simp add: commit_pre_def log_geom_def demo_log_def demo_log'_def log_area_def) auto
  have st: "l_start (log s') = 2" "l_start (log s) = 2" by (simp_all add: s s' demo_log_def demo_log'_def)
  obtain u' W where u': "commit ?z ?z s' = Ret () u'" "dtrace u' = dtrace s' @ map (\<lambda>(b, x). (1, unat b, x)) W"
    and rec: "\<And>k r. 0 < k \<Longrightarrow> k \<le> nat (lh_n (log s')) \<Longrightarrow> rebooted r 2 (apply_w (take k W) (dsk s' ROOTDEV)) \<Longrightarrow>
        \<exists>v. recover_from_log ?z ?z r = Ret () v \<and> cview v (lh_block (log s) 0) = cview s' (lh_block (log s') 0)"
    using crash_in_next_commit_corrupts [OF s(1,2) ct pre'] st s'(4) by auto
  obtain t' where "commit ?z ?z s' = Ret () (end_trans t')" and t': "did s' (commit_writes (log s') (cview s')) t'"
    by (rule commit_spec [OF pre'])
  then have "W = commit_writes (log s') (cview s')"
    using u' didD(6) [OF t'] by (intro trace_inj) (simp add: end_trans_def)
  then have W: "take 1 W = [(3, replicate BSIZE 2)]"
    by (simp add: s' commit_writes_def log_writes_def demo_log_def demo_log'_def)
  have "\<forall>bn. length (apply_w (take 1 W) (dsk s' ROOTDEV) bn) = BSIZE" unfolding W s'(4) using len by simp
  from boot_log_ex [OF this, of demo_log] obtain r where
    r: "bready r" "dty r = {}" "log r = demo_log" "dsk r ROOTDEV = apply_w (take 1 W) (dsk s' ROOTDEV)" by blast
  have rb: "rebooted r 2 (apply_w (take 1 W) (dsk s' ROOTDEV))" using r by (simp add: rebooted_def demo_log_def)
  obtain v where v: "recover_from_log ?z ?z r = Ret () v" "cview v 100 = cview s' 200"
    using rec [OF _ _ rb] by (auto simp: s s' demo_log_def demo_log'_def)
  have "cview ?u 100 = replicate BSIZE 1" "cview s' 100 = replicate BSIZE 1" "cview v 100 = replicate BSIZE 2"
    using u100 v(2) by (simp_all add: s'(5) cu)
  then show ?thesis using ct s'(3,4) u' rb v(1) by blast
qed

text \<open>Installing a header whose entries are the last for their block.\<close>

lemma apply_recover:
  assumes h: "good_header st (D st)" and len: "length (D st) = BSIZE"
  defines "n \<equiv> nat (hdr_n (D st))" and "V \<equiv> apply_w (recover_writes st D) D"
  shows "hdr_n (V st) = 0"
    and "i < n \<Longrightarrow> \<forall>j. i < j \<and> j < n \<longrightarrow> hdr_block (D st) j \<noteq> hdr_block (D st) i \<Longrightarrow>
      V (hdr_block (D st) i) = D (log_blk st i)"
    and "\<not> log_area st bn \<Longrightarrow> bn \<notin> hdr_block (D st) ` {..<n} \<Longrightarrow> V bn = D bn"
proof -
  let ?w = "\<lambda>i. (hdr_block (D st) i, D (log_blk st i))"
  have V: "V = (apply_w (map ?w [0..<n]) D)(st := put_hdr_n (D st) 0)"
    by (simp add: V_def recover_writes_def n_def)
  show "hdr_n (V st) = 0" using len by (simp add: V)
  show "V (hdr_block (D st) i) = D (log_blk st i)"
    if i: "i < n" and last: "\<forall>j. i < j \<and> j < n \<longrightarrow> hdr_block (D st) j \<noteq> hdr_block (D st) i"
  proof -
    have "[0..<n] = [0..<i] @ i # [Suc i..<n]" using i by (metis less_imp_le_nat upt_add_eq_append upt_conv_Cons le0 le_add_diff_inverse)
    then have m: "map ?w [0..<n] = map ?w [0..<i] @ ?w i # map ?w [Suc i..<n]" by simp
    have "hdr_block (D st) i \<notin> fst ` set (map ?w [Suc i..<n])" using last by (auto simp: Suc_le_eq)
    moreover have "hdr_block (D st) i \<noteq> st" using h i by (auto simp: good_header_def n_def)
    ultimately show ?thesis unfolding V m by (simp add: apply_w_other)
  qed
  show "V bn = D bn" if "\<not> log_area st bn" "bn \<notin> hdr_block (D st) ` {..<n}"
  proof -
    have "bn \<notin> fst ` set (map ?w [0..<n])" using that(2) by force
    moreover have "bn \<noteq> st" using that(1) by auto
    ultimately show ?thesis by (simp add: V apply_w_other)
  qed
qed

text \<open>A recovery that follows one interrupted after \<open>k\<close> of its writes.\<close>

lemma recover_again:
  assumes st30: "unat st + 30 < FSSIZE" and h: "good_header st (D st)" and len: "length (D st) = BSIZE"
    and r': "rebooted r' st (apply_w (take k (recover_writes st D)) D)"
  shows "\<exists>v'. recover_from_log lr lw r' = Ret () v'
     \<and> (\<forall>bn. \<not> log_area st bn \<longrightarrow> cview v' bn = apply_w (recover_writes st D) D bn)"
proof -
  let ?n = "nat (hdr_n (D st))"
  define W where "W = map (\<lambda>i. (hdr_block (D st) i, D (log_blk st i))) [0..<?n]"
  define D' where "D' = apply_w (take k (recover_writes st D)) D"
  have rw: "recover_writes st D = W @ [(st, put_hdr_n (D st) 0)]" by (simp add: recover_writes_def W_def)
  have fW: "\<forall>b\<in>fst ` set W. \<not> log_area st b" using h by (auto simp: W_def good_header_def)
  show ?thesis
  proof (cases "k \<le> length W")
    case True
    then have tk: "D' = apply_w (take k W) D" by (simp add: D'_def rw)
    have area: "D' b = D b" if "log_area st b" for b
      unfolding tk by (rule apply_w_other) (use fW that set_take_subset [of k W] in fastforce)
    then have hs: "D' st = D st" by simp
    have lb: "D' (log_blk st i) = D (log_blk st i)" if "i < ?n" for i
    proof (rule area)
      have "hdr_n (D st) \<le> 30" using h by (simp add: good_header_def)
      with that have "i < 30" by linarith
      with unat_log_blk [OF st30 this] show "log_area st (log_blk st i)" by (simp add: log_area_def)
    qed
    have rw': "recover_writes st D' = W @ [(st, put_hdr_n (D st) 0)]"
      using lb by (simp add: recover_writes_def W_def hs)
    obtain v' where v': "recover_from_log lr lw r' = Ret () v'" "dsk v' ROOTDEV = apply_w (recover_writes st D') D'"
      "cview v' = dsk v' ROOTDEV"
      by (rule recover_spec [OF r' [folded D'_def]]) (use h in \<open>simp add: hs\<close>)
    have "apply_w W (apply_w (take k W) D) = apply_w W D" by (rule apply_w_absorb)
    then show ?thesis using v' rw rw' by (simp add: tk)
  next
    case False
    then have tk: "D' = apply_w (recover_writes st D) D" by (simp add: D'_def rw)
    have hs: "D' st = put_hdr_n (D st) 0" by (simp add: tk rw)
    then have n0: "hdr_n (D' st) = 0" using len by simp
    obtain v' where v': "recover_from_log lr lw r' = Ret () v'" "dsk v' ROOTDEV = apply_w (recover_writes st D') D'"
      "cview v' = dsk v' ROOTDEV"
      by (rule recover_spec [OF r' [folded D'_def]]) (use n0 in \<open>simp add: good_header_def\<close>)
    have "recover_writes st D' = [(st, put_hdr_n (D' st) 0)]" using n0 by (simp add: recover_writes_def)
    then have "cview v' bn = apply_w (recover_writes st D) D bn" if "\<not> log_area st bn" for bn
      using v' that by (auto simp: tk)
    then show ?thesis using v'(1) by blast
  qed
qed

text \<open>
  (C21) Recovery installs the committed transaction and can itself be interrupted. It copies each logged block to its home
  (for a block that the header names twice, the last entry counts), changes no other block outside the log and erases the header. If the
  machine stops after any number \<open>k\<close> of the block writes \<open>W\<close> that this recovery issues, recovering again
  produces the same file system as the uninterrupted recovery.
\<close>

theorem recovery_restartable:
  assumes r: "rebooted r st D" and h: "good_header st (D st)" and len: "length (D st) = BSIZE"
  shows "\<exists>v W. recover_from_log lr lw r = Ret () v \<and> dtrace v = dtrace r @ map (\<lambda>(b, x). (1, unat b, x)) W
    \<and> hdr_n (cview v st) = 0
    \<and> (\<forall>i<nat (hdr_n (D st)). (\<forall>j. i < j \<and> j < nat (hdr_n (D st)) \<longrightarrow> hdr_block (D st) j \<noteq> hdr_block (D st) i) \<longrightarrow>
        cview v (hdr_block (D st) i) = D (log_blk st i))
    \<and> (\<forall>bn. \<not> log_area st bn \<and> bn \<notin> hdr_block (D st) ` {..<nat (hdr_n (D st))} \<longrightarrow> cview v bn = D bn)
    \<and> (\<forall>k r'. rebooted r' st (apply_w (take k W) D) \<longrightarrow>
        (\<exists>v'. recover_from_log lr lw r' = Ret () v' \<and> (\<forall>bn. \<not> log_area st bn \<longrightarrow> cview v' bn = cview v bn)))"
proof -
  obtain v where v: "recover_from_log lr lw r = Ret () v" "dsk v ROOTDEV = apply_w (recover_writes st D) D"
    "dtrace v = dtrace r @ map (\<lambda>(b, x). (1, unat b, x)) (recover_writes st D)" "cview v = dsk v ROOTDEV"
    by (rule recover_spec [OF r h])
  have "unat st + 30 < FSSIZE" using r by (simp add: rebooted_def)
  note again = recover_again [where D = D and lr = lr and lw = lw, OF this h len]
  show ?thesis
    unfolding v(1) using v(2-4) apply_recover [where D = D, OF h len] again
    by (intro exI [of _ v] exI [of _ "recover_writes st D"]) simp
qed

definition stale_disk :: "u32 \<Rightarrow> u8 list" where
  "stale_disk bn = (if bn = 2 then put_hdr_block (put_hdr_n (replicate BSIZE 0) 1) 0 200
     else if bn = 3 then replicate BSIZE 7 else replicate BSIZE 0)"

theorem recovery_restartable_witness:
  "\<exists>r v W r' v'. rebooted r 2 stale_disk \<and> recover_from_log (\<lambda>_. panic []) (\<lambda>_. panic []) r = Ret () v
     \<and> dtrace v = dtrace r @ map (\<lambda>(b, x). (1, unat b, x)) W \<and> cview v 200 = replicate BSIZE 7
     \<and> rebooted r' 2 (apply_w (take 1 W) stale_disk)
     \<and> recover_from_log (\<lambda>_. panic []) (\<lambda>_. panic []) r' = Ret () v' \<and> cview v' 200 = replicate BSIZE 7"
proof -
  let ?z = "\<lambda>_. panic [] :: unit kM"
  have len: "\<forall>bn. length (stale_disk bn) = BSIZE" by (simp add: stale_disk_def)
  have h: "hdr_n (stale_disk 2) = 1" "hdr_block (stale_disk 2) 0 = 200" by (simp_all add: stale_disk_def)
  have gh: "good_header 2 (stale_disk 2)" by (simp add: good_header_def h log_area_def)
  obtain r where r: "bready r" "dty r = {}" "log r = demo_log" "dsk r ROOTDEV = stale_disk"
    using boot_log_ex [OF len] by blast
  then have rb: "rebooted r 2 stale_disk" by (simp add: rebooted_def demo_log_def)
  have l2: "length (stale_disk 2) = BSIZE" using len by blast
  obtain v W where v: "recover_from_log ?z ?z r = Ret () v" "dtrace v = dtrace r @ map (\<lambda>(b, x). (1, unat b, x)) W"
    "cview v 200 = stale_disk (log_blk 2 0)"
    and again: "\<And>r' k. rebooted r' 2 (apply_w (take k W) stale_disk) \<Longrightarrow>
      \<exists>v'. recover_from_log ?z ?z r' = Ret () v' \<and> (\<forall>bn. \<not> log_area 2 bn \<longrightarrow> cview v' bn = cview v bn)"
    using recovery_restartable [OF rb gh l2, of ?z ?z] h by auto
  obtain v0 where "recover_from_log ?z ?z r = Ret () v0"
    "dtrace v0 = dtrace r @ map (\<lambda>(b, x). (1, unat b, x)) (recover_writes 2 stale_disk)"
    by (rule recover_spec [OF rb gh])
  then have "W = recover_writes 2 stale_disk" using v by (intro trace_inj) simp
  then have "\<forall>bn. length (apply_w (take 1 W) stale_disk bn) = BSIZE" using len by (simp add: recover_writes_def h)
  from boot_log_ex [OF this, of demo_log] obtain r' where
    r': "bready r'" "dty r' = {}" "log r' = demo_log" "dsk r' ROOTDEV = apply_w (take 1 W) stale_disk" by blast
  then have rb': "rebooted r' 2 (apply_w (take 1 W) stale_disk)" by (simp add: rebooted_def demo_log_def)
  have na: "\<not> log_area 2 200" by (simp add: log_area_def)
  have "cview v 200 = replicate BSIZE 7" using v(3) by (simp add: stale_disk_def)
  with again [OF rb'] na v rb rb' show ?thesis by metis
qed

end
