(* ===== verification/Console_Out.thy ===== *)
theory Console_Out
  imports Locks
begin

text \<open>
  Console output (first half of \<^verbatim>\<open>console.c\<close>): the serial port, the text display with its cursor and
  scrolling, number formatting and \<^verbatim>\<open>cprintf\<close>. The arguments of \<^verbatim>\<open>cprintf\<close> after the format are
  a list; following the list past its end is a \<open>Fault\<close>. The cursor position that the code keeps in
  two ports of the display is the field \<open>crt_pos\<close>. The flag \<^verbatim>\<open>cons.locking\<close> is set from
  \<^verbatim>\<open>consoleinit\<close> on, so \<^verbatim>\<open>cprintf\<close> takes the lock.
\<close>

abbreviation (input) BACKSPACE :: u32 where "BACKSPACE \<equiv> 0x100"

definition uartputc :: "u32 \<Rightarrow> unit kM" where
  "uartputc c = modify (\<lambda>s. s\<lparr>uart_out := uart_out s @ [ucast c]\<rparr>)"

text \<open>Scroll up by one line; \<open>pos\<close> is the new position of the cursor.\<close>

definition cga_scroll :: "int \<Rightarrow> (nat \<Rightarrow> u16) \<Rightarrow> nat \<Rightarrow> u16" where
  "cga_scroll pos d i =
     (if nat pos \<le> i \<and> i < 24 * 80 then 0
      else if i < 23 * 80 then d (i + 80) else d i)"

definition cgaputc :: "u32 \<Rightarrow> unit kM" where
  "cgaputc c =
     bind (gets crt_pos) (\<lambda>pos.
     bind (if c = 10 then ret (pos + (80 - pos mod 80))
           else if c = BACKSPACE then ret (if 0 < pos then pos - 1 else pos)
           else bind (modify (\<lambda>s. s\<lparr>crt := (crt s)(nat pos := ucast (c AND 0xff) OR 0x0700)\<rparr>)) (\<lambda>_. ret (pos + 1))) (\<lambda>pos.
     bind (panic_if (pos < 0 \<or> 25 * 80 < pos) ''pos under/overflow'') (\<lambda>_.
     bind (if 24 \<le> pos div 80
           then bind (modify (\<lambda>s. s\<lparr>crt := cga_scroll (pos - 80) (crt s)\<rparr>)) (\<lambda>_. ret (pos - 80))
           else ret pos) (\<lambda>pos.
     modify (\<lambda>s. s\<lparr>crt_pos := pos, crt := (crt s)(nat pos := 0x20 OR 0x0700)\<rparr>)))))"

text \<open>
  \<^verbatim>\<open>panicked\<close> is not a field: only \<^verbatim>\<open>panic\<close> sets it, and a panic is an outcome without a state, so it is 0 in every state.
\<close>

definition consputc :: "u32 \<Rightarrow> unit kM" where
  "consputc c =
     bind (if c = BACKSPACE
           then bind (uartputc 8) (\<lambda>_. bind (uartputc 0x20) (\<lambda>_. uartputc 8))
           else uartputc c) (\<lambda>_.
     cgaputc c)"

primrec consputs :: "u32 list \<Rightarrow> unit kM" where
  "consputs [] = ret ()"
| "consputs (c # cs) = bind (consputc c) (\<lambda>_. consputs cs)"

definition digit_char :: "nat \<Rightarrow> u8" where
  "digit_char k = (if k < 10 then 48 + of_nat k else 87 + of_nat k)"

text \<open>The digits of \<open>x\<close>, least significant first, as the loop of \<^verbatim>\<open>printint\<close> stores them.\<close>

function digits_of :: "nat \<Rightarrow> nat \<Rightarrow> u8 list" where
  "digits_of base x = digit_char (x mod base) # (if x div base = 0 \<or> base \<le> 1 then [] else digits_of base (x div base))"
  by pat_completeness auto
termination
  by (relation "measure snd") (auto intro!: div_less_dividend simp: Suc_le_eq intro: Nat.gr0I)

declare digits_of.simps [simp del]

definition int_chars :: "u32 \<Rightarrow> nat \<Rightarrow> bool \<Rightarrow> u8 list" where
  "int_chars xx base sign =
     (let neg = sign \<and> sint xx < 0;
          x = (if neg then - xx else xx)
      in rev (digits_of base (unat x) @ (if neg then [45] else [])))"

definition printint :: "u32 \<Rightarrow> nat \<Rightarrow> bool \<Rightarrow> unit kM" where
  "printint xx base sign = consputs (map ucast (int_chars xx base sign))"

datatype parg = PInt u32 | PStr "u8 list option"

definition arg_int :: "parg list \<Rightarrow> u32 kM" where
  "arg_int as = (case as of PInt x # _ \<Rightarrow> ret x | _ \<Rightarrow> fault ''cprintf argument'')"

definition arg_str :: "parg list \<Rightarrow> u8 list kM" where
  "arg_str as = (case as of
       PStr (Some x) # _ \<Rightarrow> ret x
     | PStr None # _ \<Rightarrow> ret [40, 110, 117, 108, 108, 41]
     | _ \<Rightarrow> fault ''cprintf argument'')"

fun cprintf_loop :: "u8 list \<Rightarrow> parg list \<Rightarrow> unit kM" where
  "cprintf_loop [] as = ret ()"
| "cprintf_loop (c # cs) as =
     (if c = 0 then ret ()
      else if c \<noteq> 37 then bind (consputc (ucast c)) (\<lambda>_. cprintf_loop cs as)
      else (case cs of
        [] \<Rightarrow> ret ()
      | d # ds \<Rightarrow>
          if d = 0 then ret ()
          else if d = 100 then
            bind (arg_int as) (\<lambda>x. bind (printint x 10 True) (\<lambda>_. cprintf_loop ds (tl as)))
          else if d = 120 \<or> d = 112 then
            bind (arg_int as) (\<lambda>x. bind (printint x 16 False) (\<lambda>_. cprintf_loop ds (tl as)))
          else if d = 115 then
            bind (arg_str as) (\<lambda>x. bind (consputs (map ucast (takeWhile (\<lambda>c. c \<noteq> 0) x))) (\<lambda>_. cprintf_loop ds (tl as)))
          else if d = 37 then bind (consputc 37) (\<lambda>_. cprintf_loop ds as)
          else bind (consputc 37) (\<lambda>_. bind (consputc (ucast d)) (\<lambda>_. cprintf_loop ds as))))"

text \<open>The format may be null. \<open>cons_locking\<close> is \<^verbatim>\<open>cons.locking\<close>.\<close>

definition cprintf :: "u8 list option \<Rightarrow> parg list \<Rightarrow> unit kM" where
  "cprintf fmt as =
     bind (gets cons_locking) (\<lambda>locking.
     bind (when_do locking (acquire Lk_cons)) (\<lambda>_.
     case fmt of
       None \<Rightarrow> panic ''null fmt''
     | Some fmt \<Rightarrow>
         bind (cprintf_loop fmt as) (\<lambda>_.
         when_do locking (release Lk_cons))))"

subsection \<open>Reading numbers back\<close>

definition digit_val :: "u8 \<Rightarrow> nat" where
  "digit_val c = (if c < 58 then unat c - 48 else unat c - 87)"

definition nat_val :: "nat \<Rightarrow> u8 list \<Rightarrow> nat" where
  "nat_val base cs = foldl (\<lambda>n c. n * base + digit_val c) 0 cs"

definition int_val :: "u8 list \<Rightarrow> int" where
  "int_val cs = (case cs of [] \<Rightarrow> 0 | c # ds \<Rightarrow> if c = 45 then - int (nat_val 10 ds) else int (nat_val 10 cs))"

lemma unat_u8_small: "k < 256 \<Longrightarrow> unat (of_nat k :: u8) = k"
  by (simp add: unat_of_nat take_bit_nat_eq_self)

lemma unat_digit_char:
  assumes "k < 16"
  shows "unat (digit_char k) = (if k < 10 then 48 + k else 87 + k)"
  using assms by (auto simp: digit_char_def unat_word_ariths unat_u8_small)

lemma digit_val_char: "k < 16 \<Longrightarrow> digit_val (digit_char k) = k"
  using unat_digit_char [of k] by (auto simp: digit_val_def word_less_nat_alt)

lemma digit_char_not_minus: "k < 16 \<Longrightarrow> digit_char k \<noteq> 45"
  using unat_digit_char [of k] by (auto simp: word_unat_eq_iff)

lemma nat_val_snoc: "nat_val base (cs @ [c]) = nat_val base cs * base + digit_val c"
  by (simp add: nat_val_def)

lemma nat_val_digits:
  "1 < base \<Longrightarrow> base \<le> 16 \<Longrightarrow> nat_val base (rev (digits_of base x)) = x"
proof (induction x rule: less_induct)
  case (less x)
  have d: "digit_val (digit_char (x mod base)) = x mod base"
    using less.prems mod_less_divisor [of base x] by (intro digit_val_char) linarith
  show ?case
  proof (cases "x div base = 0")
    case True
    then have "x mod base = x" using less.prems by (simp add: div_eq_0_iff)
    with True d show ?thesis by (subst digits_of.simps) (simp add: nat_val_def)
  next
    case False
    then have "0 < x" by (cases x) auto
    then have "x div base < x" using less.prems by simp
    then have "nat_val base (rev (digits_of base (x div base))) = x div base"
      using less.prems by (intro less.IH)
    with False d less.prems show ?thesis
      by (subst digits_of.simps) (simp add: nat_val_snoc)
  qed
qed

lemma length_digits:
  "x < base ^ Suc k \<Longrightarrow> 1 < base \<Longrightarrow> length (digits_of base x) \<le> Suc k"
proof (induction k arbitrary: x)
  case 0
  then show ?case by (subst digits_of.simps) simp
next
  case (Suc k)
  then have "x div base < base ^ Suc k" by (simp add: less_mult_imp_div_less mult.commute)
  from Suc.IH [OF this Suc.prems(2)] show ?case by (subst digits_of.simps) simp
qed

lemma hd_digits:
  assumes "1 < base" and "base \<le> 16"
  shows "digits_of base x \<noteq> []" and "\<forall>c\<in>set (digits_of base x). c \<noteq> 45"
proof -
  show "digits_of base x \<noteq> []" by (subst digits_of.simps) simp
  show "\<forall>c\<in>set (digits_of base x). c \<noteq> 45"
  proof (induction x rule: less_induct)
    case (less x)
    have "x mod base < base" using assms by simp
    then have m: "digit_char (x mod base) \<noteq> 45" using assms by (intro digit_char_not_minus) linarith
    show ?case
    proof (cases "x div base = 0")
      case True
      with m show ?thesis by (subst digits_of.simps) simp
    next
      case False
      then have "0 < x" by (cases x) auto
      with assms have "x div base < x" by simp
      from less.IH [OF this] m assms show ?thesis by (subst digits_of.simps) simp
    qed
  qed
qed

lemma unat_abs_sint: "int (unat (if sint xx < 0 then - xx else xx :: u32)) = (if sint xx < 0 then - sint xx else sint xx)"
proof (cases "uint xx < 2 ^ 31")
  case False
  have u: "uint xx < 2 ^ 32" using unsigned_less [of xx] by simp
  have "uint (- xx) = - uint xx mod 2 ^ 32" by (simp add: uint_word_ariths)
  also have "\<dots> = 2 ^ 32 - uint xx" using False u by (subst zmod_zminus1_eq_if) simp
  finally show ?thesis using False u by (simp add: sint_u32)
qed (simp add: sint_u32)

text \<open>
  (C36) Printing a number and reading the characters back gives the number: \<^verbatim>\<open>printint\<close> with sign prints
  every 32-bit integer, the least one included, in decimal, and at most 11 characters, which fit
  in its buffer of 16.
\<close>

theorem printint_roundtrip:
  "int_val (int_chars xx 10 True) = sint xx \<and> length (int_chars xx 10 True) \<le> 11"
proof -
  let ?neg = "sint xx < 0"
  let ?x = "if ?neg then - xx else xx"
  let ?d = "digits_of 10 (unat ?x)"
  have lt: "unat ?x < 10 ^ Suc 9" using unsigned_less [of ?x] by (auto intro: less_trans)
  have len: "length ?d \<le> 10" using length_digits [OF lt] by simp
  have v: "nat_val 10 (rev ?d) = unat ?x" by (rule nat_val_digits) simp_all
  have ne: "rev ?d \<noteq> []" "\<forall>c\<in>set (rev ?d). c \<noteq> 45" using hd_digits [of 10 "unat ?x"] by simp_all
  have "int (unat ?x) = (if ?neg then - sint xx else sint xx)"
    by (rule unat_abs_sint)
  then show ?thesis
  proof (cases ?neg)
    case True
    then have "int_chars xx 10 True = 45 # rev ?d" by (simp add: int_chars_def)
    with True v len \<open>int (unat ?x) = _\<close> show ?thesis by (simp add: int_val_def)
  next
    case False
    then have "int_chars xx 10 True = rev ?d" by (simp add: int_chars_def)
    moreover obtain c cs where "rev ?d = c # cs" using ne(1) by (cases "rev ?d") auto
    ultimately show ?thesis using False v len ne(2) \<open>int (unat ?x) = _\<close> by (simp add: int_val_def)
  qed
qed

subsection \<open>The cursor\<close>

lemma cgaputc_first:
  "(if c = 10 then ret (p + (80 - p mod 80))
    else if c = BACKSPACE then ret (if 0 < p then p - 1 else p)
    else bind (modify (\<lambda>s. s\<lparr>crt := (crt s)(nat p := v)\<rparr>)) (\<lambda>_. ret (p + 1))) s =
   Ret (if c = 10 then p + (80 - p mod 80) else if c = BACKSPACE then (if 0 < p then p - 1 else p) else p + 1)
     (s\<lparr>crt := if c = 10 \<or> c = BACKSPACE then crt s else (crt s)(nat p := v)\<rparr>)"
  by simp

definition cframe :: "kstate \<Rightarrow> kstate \<Rightarrow> bool" where
  "cframe s t \<longleftrightarrow> t = s\<lparr>uart_out := uart_out t, crt := crt t, crt_pos := crt_pos t\<rparr>"

abbreviation cursor_ok :: "kstate \<Rightarrow> bool" where
  "cursor_ok s \<equiv> 0 \<le> crt_pos s \<and> crt_pos s < 24 * 80"

lemma cgaputc_ok:
  assumes "0 \<le> crt_pos s" and "crt_pos s < 24 * 80"
  shows "\<exists>t. cgaputc c s = Ret () t \<and> 0 \<le> crt_pos t \<and> crt_pos t < 24 * 80
     \<and> t = s\<lparr>crt := crt t, crt_pos := crt_pos t\<rparr> \<and> (\<forall>i\<ge>24 * 80. crt t i = crt s i)"
proof -
  let ?p = "crt_pos s"
  define q where "q = (if c = 10 then ?p + (80 - ?p mod 80) else if c = BACKSPACE then (if 0 < ?p then ?p - 1 else ?p) else ?p + 1)"
  define d where "d = (if c = 10 \<or> c = BACKSPACE then crt s else (crt s)(nat ?p := ucast (c AND 0xff) OR 0x0700))"
  have "?p + (80 - ?p mod 80) = 80 * (?p div 80 + 1)" by (simp add: algebra_simps minus_mod_eq_mult_div)
  then have q: "0 \<le> q" "q \<le> 1920" using assms by (auto simp: q_def)
  have d: "\<forall>i\<ge>1920. d i = crt s i" using assms by (auto simp: d_def)
  let ?q = "if 24 \<le> q div 80 then q - 80 else q"
  let ?d = "if 24 \<le> q div 80 then cga_scroll (q - 80) d else d"
  have r: "cgaputc c s = Ret () (s\<lparr>crt_pos := ?q, crt := ?d(nat ?q := 0x20 OR 0x0700)\<rparr>)"
    using q by (simp add: cgaputc_def q_def [symmetric] d_def [symmetric] cgaputc_first)
  have "0 \<le> ?q" "?q < 1920" using q by auto
  moreover have e: "\<forall>i\<ge>1920. ?d i = crt s i" using d by (simp add: cga_scroll_def)
  moreover have "\<forall>i\<ge>1920. (?d(nat ?q := 0x20 OR 0x0700)) i = crt s i" using e \<open>?q < 1920\<close> by auto
  ultimately show ?thesis unfolding r by (simp del: fun_upd_apply)
qed

lemma consputc_ok:
  assumes "cursor_ok s"
  obtains t where "consputc c s = Ret () t" and "cframe s t" and "cursor_ok t"
proof -
  let ?u = "s\<lparr>uart_out := uart_out s @ (if c = BACKSPACE then [8, 0x20, 8] else [ucast c])\<rparr>"
  obtain t where t: "cgaputc c ?u = Ret () t" "cursor_ok t" "t = ?u\<lparr>crt := crt t, crt_pos := crt_pos t\<rparr>"
    using cgaputc_ok [of ?u c] assms by auto
  have "consputc c s = Ret () t" using t(1) by (auto simp: consputc_def uartputc_def)
  moreover have "cframe s t" unfolding cframe_def by (subst (1 2 3 4) t(3)) simp
  ultimately show ?thesis using that t(2) by blast
qed

text \<open>
  (C37) The cursor stays on the first 24 lines: from any position there, writing any character
  (newline and backspace included) does not panic, ends in such a position, and touches nothing
  beyond the 24 lines.
\<close>

theorem cgaputc_cursor:
  assumes "0 \<le> crt_pos s" and "crt_pos s < 24 * 80"
  shows "\<exists>t. cgaputc c s = Ret () t \<and> 0 \<le> crt_pos t \<and> crt_pos t < 24 * 80
     \<and> t = s\<lparr>crt := crt t, crt_pos := crt_pos t\<rparr> \<and> (\<forall>i\<ge>24 * 80. crt t i = crt s i)"
  using cgaputc_ok [OF assms] .

theorem cgaputc_cursor_witness:
  "\<exists>t. cgaputc 10 ((kstate0 (\<lambda>_ _. []))\<lparr>crt_pos := 1900\<rparr>) = Ret () t \<and> crt_pos t < 1920"
  using cgaputc_cursor [of "(kstate0 (\<lambda>_ _. []))\<lparr>crt_pos := 1900\<rparr>" 10] by auto

end
