(* ===== verification/Ring.thy ===== *)
theory Ring
  imports Xv6_Prelude
begin

text \<open>
  Circular buffers whose read and write positions are 32-bit counters that are never reset: the
  byte at position \<open>p\<close> is in slot \<open>p % N\<close>, and the difference of the counters, modulo
  \<open>2 ^ 32\<close>, is the number of bytes stored. The pipe (\<open>N\<close> = 512) and the console input
  (\<open>N\<close> = 128) work like this. The counters may wrap around because \<open>N\<close> divides \<open>2 ^ 32\<close>.
\<close>

definition ring_list :: "nat \<Rightarrow> (nat \<Rightarrow> u8) \<Rightarrow> u32 \<Rightarrow> u32 \<Rightarrow> u8 list" where
  "ring_list N d r w = map (\<lambda>i. d (unat (r + of_nat i) mod N)) [0..<unat (w - r)]"

lemma length_ring_list [simp]: "length (ring_list N d r w) = unat (w - r)"
  by (simp add: ring_list_def)

lemma ring_list_empty [simp]: "ring_list N d r r = []"
  by (simp add: ring_list_def)

lemma ring_list_Nil_iff: "ring_list N d r w = [] \<longleftrightarrow> r = w"
  by (auto simp: ring_list_def unat_eq_zero)

lemma unat_succ: "unat (x :: u32) + 1 < 2 ^ 32 \<Longrightarrow> unat (x + 1) = unat x + 1"
  by (simp add: unat_word_ariths)

lemma ring_list_get:
  assumes "r \<noteq> w"
  shows "ring_list N d r w = d (unat r mod N) # ring_list N d (r + 1) w"
proof -
  have nz: "w - r \<noteq> 0" using assms by simp
  have e: "w - (r + 1) = (w - r) - 1" by simp
  have n: "unat (w - r) = Suc (unat (w - (r + 1)))"
    unfolding e unat_minus_one [OF nz] using nz by (simp add: unat_gt_0 [symmetric] del: right_minus_eq)
  have "[0..<unat (w - r)] = 0 # map Suc [0..<unat (w - (r + 1))]" unfolding n by (simp add: upt_conv_Cons map_Suc_upt)
  then show ?thesis by (simp add: ring_list_def add.assoc)
qed

lemma ring_dist:
  assumes "unat (w - r) + unat (e - w :: u32) < 2 ^ 32"
  shows "unat (e - r) = unat (w - r) + unat (e - w)"
proof -
  have "unat (e - r) = unat ((w - r) + (e - w))" by simp
  also have "\<dots> = (unat (w - r) + unat (e - w)) mod 2 ^ 32" by (simp only: unat_word_ariths) simp
  finally show ?thesis using assms by simp
qed

lemma ring_list_append:
  assumes "unat (w - r) + unat (e - w) < 2 ^ 32"
  shows "ring_list N d r e = ring_list N d r w @ ring_list N d w e"
proof -
  let ?a = "unat (w - r)" and ?b = "unat (e - w)"
  have w: "r + of_nat (?a + i) = w + of_nat i" for i by simp
  have "ring_list N d r e = map (\<lambda>i. d (unat (r + of_nat i) mod N)) ([0..<?a] @ [?a..<?a + ?b])"
    unfolding ring_list_def ring_dist [OF assms] upt_add_eq_append [OF le0] ..
  also have "[a..<a + b] = map (\<lambda>i. a + i) [0..<b]" for a b :: nat by (induction b) simp_all
  finally show ?thesis unfolding ring_list_def map_append map_map comp_def w .
qed

lemma ring_list_snoc:
  assumes "r \<noteq> w"
  shows "ring_list N d r w = ring_list N d r (w - 1) @ [d (unat (w - 1) mod N)]"
proof -
  have nz: "w - r \<noteq> 0" using assms by simp
  have e: "w - 1 - r = (w - r) - 1" by simp
  have n: "unat (w - r) = Suc (unat (w - 1 - r))"
    unfolding e unat_minus_one [OF nz] using nz by (simp add: unat_gt_0 [symmetric] del: right_minus_eq)
  have "r + of_nat (unat (w - 1 - r)) = w - 1" by simp
  then show ?thesis unfolding ring_list_def n by simp
qed

locale ring =
  fixes N :: nat
  assumes pos: "0 < N" and dvd: "N dvd 2 ^ 32"
begin

lemma le: "N \<le> 2 ^ 32"
  using dvd by (rule dvd_imp_le) simp

text \<open>Positions less than \<open>N\<close> apart are in different slots, across the wrap-around too.\<close>

lemma slot_eq_iff:
  assumes "unat (b - a :: u32) < N"
  shows "unat a mod N = unat b mod N \<longleftrightarrow> a = b"
proof
  assume m: "unat a mod N = unat b mod N"
  have "unat b = unat (a + (b - a))" by simp
  also have "\<dots> = (unat a + unat (b - a)) mod 2 ^ 32" by (simp only: unat_word_ariths) simp
  finally have "unat b mod N = (unat a + unat (b - a)) mod N" using dvd by (simp add: mod_mod_cancel)
  with m have "(unat a + unat (b - a)) mod N = unat a mod N" by simp
  then have "N dvd unat (b - a)" by (metis add_diff_cancel_left' mod_eq_dvd_iff_nat le_add1)
  with assms have "unat (b - a) = 0" using nat_dvd_not_less pos by blast
  then have "b - a = 0" by (simp only: unat_eq_zero)
  then show "a = b" by simp
qed simp

lemma list_put:
  assumes "unat (w - r) < N" and "unat (w - r) + 1 < 2 ^ 32"
  shows "ring_list N (d(unat w mod N := c)) r (w + 1) = ring_list N d r w @ [c]"
proof -
  have n: "unat (w + 1 - r) = Suc (unat (w - r))"
    using unat_succ [OF assms(2)] by (simp add: algebra_simps)
  have w: "r + of_nat (unat (w - r)) = w" by simp
  have s: "unat (r + of_nat i) mod N \<noteq> unat w mod N" if i: "i < unat (w - r)" for i
  proof -
    let ?a = "r + of_nat i :: u32"
    have "i < 2 ^ 32" using less_trans [OF i unsigned_less] by simp
    have ui: "unat (of_nat i :: u32) = i" using \<open>i < 2 ^ 32\<close> by (simp add: unat_of_nat take_bit_nat_eq_self)
    have e: "w - ?a = (w - r) - of_nat i" by simp
    have "unat ((w - r) - of_nat i) = unat (w - r) - i"
      using i ui unat_sub [of "of_nat i" "w - r"] by (simp add: word_le_nat_alt)
    then have d: "unat (w - ?a) = unat (w - r) - i" unfolding e .
    then have "?a \<noteq> w" using i by auto
    moreover have "unat (w - ?a) < N" using d assms(1) by simp
    ultimately show ?thesis using slot_eq_iff by blast
  qed
  show ?thesis unfolding ring_list_def n using s by (simp add: w)
qed

lemma list_keep:
  assumes "unat (w - r) + unat (e - w) < N"
  shows "ring_list N (d(unat e mod N := c)) r w = ring_list N d r w"
proof -
  have lt: "unat (w - r) + unat (e - w) < 2 ^ 32" using assms le by linarith
  have "unat (r + of_nat i) mod N \<noteq> unat e mod N" if i: "i < unat (w - r)" for i
  proof -
    let ?a = "r + of_nat i :: u32"
    have "i < 2 ^ 32" using less_trans [OF i unsigned_less] by simp
    then have ui: "unat (of_nat i :: u32) = i" by (simp add: unat_of_nat take_bit_nat_eq_self)
    have e: "e - ?a = (e - r) - of_nat i" by simp
    have "unat ((e - r) - of_nat i) = unat (e - r) - i"
      using i ui ring_dist [OF lt] unat_sub [of "of_nat i" "e - r"] by (simp add: word_le_nat_alt)
    then have d: "unat (e - ?a) = unat (e - r) - i" unfolding e .
    then have "?a \<noteq> e" using i ring_dist [OF lt] by auto
    moreover have "unat (e - ?a) < N" using d assms ring_dist [OF lt] by simp
    ultimately show ?thesis using slot_eq_iff by blast
  qed
  then show ?thesis by (simp add: ring_list_def)
qed

end

interpretation pipe_ring: ring 512
  by unfold_locales simp_all

interpretation cons_ring: ring 128
  by unfold_locales simp_all

end
