(* ===== verification/Log_Write.thy ===== *)
theory Log_Write
  imports Log_Crash
begin

text \<open>
  Recording blocks in a transaction (\<^verbatim>\<open>log_write\<close>) and reserving space for an operation
  (\<^verbatim>\<open>begin_op\<close>). \<open>logged l\<close> is the list of block numbers in the header of the log \<open>l\<close>.
\<close>

subsection \<open>The list of logged blocks\<close>

definition logged :: "log \<Rightarrow> u32 list" where
  "logged l = map (lh_block l) [0..<nat (lh_n l)]"

lemma log_slot_le: "log_slot l bn \<le> nat (lh_n l)"
proof -
  have "length (takeWhile (\<lambda>i. lh_block l i \<noteq> bn) [0..<nat (lh_n l)]) \<le> length [0..<nat (lh_n l)]"
    by (rule length_takeWhile_le)
  then show ?thesis by (simp add: log_slot_def)
qed

lemma log_slot_before: "j < log_slot l bn \<Longrightarrow> lh_block l j \<noteq> bn"
  using takeWhile_nth [of j "\<lambda>i. lh_block l i \<noteq> bn" "[0..<nat (lh_n l)]"] nth_mem
    set_takeWhileD log_slot_le [of l bn]
  by (fastforce simp: log_slot_def)

lemma log_slot_found: "log_slot l bn < nat (lh_n l) \<Longrightarrow> lh_block l (log_slot l bn) = bn"
  using nth_length_takeWhile [of "\<lambda>i. lh_block l i \<noteq> bn" "[0..<nat (lh_n l)]"] by (simp add: log_slot_def)

lemma in_logged: "bn \<in> set (logged l) \<longleftrightarrow> log_slot l bn < nat (lh_n l)"
proof
  assume "bn \<in> set (logged l)"
  then obtain i where i: "i < nat (lh_n l)" "lh_block l i = bn" by (auto simp: logged_def)
  then have "\<not> i < log_slot l bn" using log_slot_before by blast
  with i show "log_slot l bn < nat (lh_n l)" by simp
next
  assume "log_slot l bn < nat (lh_n l)"
  with log_slot_found [OF this] show "bn \<in> set (logged l)" by (force simp: logged_def)
qed

text \<open>Adding a block to the header is insertion into a list without repetition.\<close>

lemma logged_add:
  assumes "0 \<le> lh_n l"
  shows "logged (log_add l bn) = (if bn \<in> set (logged l) then logged l else logged l @ [bn])"
    and "lh_n (log_add l bn) = (if bn \<in> set (logged l) then lh_n l else lh_n l + 1)"
proof -
  let ?i = "log_slot l bn"
  have "logged (log_add l bn) = logged l \<and> lh_n (log_add l bn) = lh_n l" if "?i < nat (lh_n l)"
    using log_slot_found [OF that] that assms by (auto simp: log_add_def logged_def Let_def fun_upd_idem)
  moreover have "logged (log_add l bn) = logged l @ [bn] \<and> lh_n (log_add l bn) = lh_n l + 1" if "\<not> ?i < nat (lh_n l)"
  proof -
    have i: "?i = nat (lh_n l)" using that log_slot_le [of l bn] by simp
    have "nat (1 + lh_n l) = Suc (nat (lh_n l))" using assms by simp
    then show ?thesis using i assms by (simp add: log_add_def logged_def Let_def add.commute)
  qed
  ultimately show "logged (log_add l bn) = (if bn \<in> set (logged l) then logged l else logged l @ [bn])"
    and "lh_n (log_add l bn) = (if bn \<in> set (logged l) then lh_n l else lh_n l + 1)"
    unfolding in_logged by auto
qed

lemma log_add_fields [simp]:
  "l_start (log_add l bn) = l_start l" "l_size (log_add l bn) = l_size l" "l_dev (log_add l bn) = l_dev l"
  "l_outstanding (log_add l bn) = l_outstanding l" "l_committing (log_add l bn) = l_committing l"
  by (simp_all add: log_add_def Let_def)

subsection \<open>log_write\<close>

definition log_ok :: "log \<Rightarrow> bool" where
  "log_ok l \<longleftrightarrow> 0 \<le> lh_n l \<and> lh_n l < LOGSIZE \<and> lh_n l < l_size l - 1 \<and> 1 \<le> l_outstanding l"

lemma log_write_run:
  assumes "held t = []" and "b_dev (bufs t b) = ROOTDEV" and "log_ok (log t)"
  shows "log_write b t = Ret () ((bmod t b (b_data (bufs t b)) True)\<lparr>log := log_add (log t) (b_blockno (bufs t b))\<rparr>)"
  using assms by (simp add: log_write_def log_ok_def bmod_def)

text \<open>The whole idiom: write a held buffer's new bytes, log it, release it.\<close>

lemma log_write_wp:
  assumes "cache_ok t" and "ide_ready t" and "holds t b bn" and "log_ok (log t)"
    and Q: "\<And>u. bframe (t\<lparr>log := log_add (log t) bn\<rparr>) u \<Longrightarrow> cache_ok u \<Longrightarrow> cview u = cview t \<Longrightarrow> holds u b bn \<Longrightarrow>
       lkd u = lkd t \<Longrightarrow> dty u = insert (ROOTDEV, bn) (dty t) \<Longrightarrow> others b t u \<Longrightarrow> Q () u"
  shows "wp (log_write b) Q t"
proof -
  have d: "b_data (bufs t b) = cview t bn" by (rule holds_cview [OF assms(1,3)])
  have len: "length (b_data (bufs t b)) = BSIZE" unfolding d by (rule length_cview [OF assms(1)])
  note m = bmod_post [OF assms(1,3) len, of True]
  let ?u = "(bmod t b (b_data (bufs t b)) True)\<lparr>log := log_add (log t) bn\<rparr>"
  have r: "log_write b t = Ret () ?u"
    using log_write_run [of t b] assms(2,4) is_forD [OF holdsD(3) [OF assms(3)]] by (simp add: ide_ready_def)
  have "bframe (t\<lparr>log := log_add (log t) bn\<rparr>) ?u" by (simp add: bframe_def bmod_def)
  moreover have "others b t ?u" using m(4) by (simp add: others_def)
  ultimately have "Q () ?u" using m by (intro Q) (simp_all add: d fun_upd_idem)
  with r show ?thesis by (simp add: wp_def)
qed

text \<open>
  (C11) \<^verbatim>\<open>log_write\<close> maintains the header as an ordered set of block numbers: a block already in the
  transaction is absorbed, a new one is appended; the buffer becomes dirty, so that it stays in
  the cache until the commit; and the content the kernel sees does not change.
\<close>

theorem log_write_absorbs:
  assumes "cache_ok t" and "ide_ready t" and "holds t b bn" and "log_ok (log t)"
  shows "\<exists>u. log_write b t = Ret () u
     \<and> logged (log u) = (if bn \<in> set (logged (log t)) then logged (log t) else logged (log t) @ [bn])
     \<and> 0 \<le> lh_n (log u) \<and> lh_n (log u) \<le> LOGSIZE
     \<and> (ROOTDEV, bn) \<in> dty u \<and> cache_ok u \<and> cview u = cview t \<and> lkd u = lkd t"
proof -
  have "wp (log_write b) (\<lambda>_ u. log u = log_add (log t) bn \<and> dty u = insert (ROOTDEV, bn) (dty t) \<and> cache_ok u
      \<and> cview u = cview t \<and> lkd u = lkd t) t"
    by (rule log_write_wp [OF assms]) (auto dest: bframeD(13))
  from wp_unit [OF this] show ?thesis
    using logged_add [of "log t" bn] assms(4) by (auto simp: log_ok_def)
qed

definition open_log :: log where
  "open_log = demo_log\<lparr>l_outstanding := 1, lh_n := 0, l_committing := False\<rparr>"

lemma open_held_ex:
  "\<exists>t b. cache_ok t \<and> ide_ready t \<and> holds t b 100 \<and> log t = open_log"
proof -
  have "\<forall>bn::u32. length (replicate BSIZE (0::u8)) = BSIZE" by simp
  from boot_log_ex [OF this, of open_log]
  obtain s where s: "bready s" "dty s = {}" "log s = open_log" by blast
  have "wp (bread (\<lambda>_. panic []) ROOTDEV 100) (bread_post s 100) s"
    by (rule bread_wp) (use s in \<open>simp_all add: bready_def\<close>)
  then obtain b t where "bread_post s 100 b t" by (rule wpE)
  then have "bframe s t" "cache_ok t" "holds t b 100" by (simp_all add: bread_post_def)
  with bframeD(13,23) [of s t] s show ?thesis by (auto simp: bready_def)
qed

theorem log_write_absorbs_witness:
  "\<exists>t b u. log t = open_log \<and> log_write b t = Ret () u \<and> logged (log u) = [100]"
proof -
  obtain t b where t: "cache_ok t" "ide_ready t" "holds t b 100" "log t = open_log"
    using open_held_ex by blast
  have "log_ok (log t)" by (simp add: t log_ok_def open_log_def demo_log_def)
  moreover have "logged (log t) = []" by (simp add: t logged_def open_log_def)
  ultimately show ?thesis using log_write_absorbs [OF t(1-3)] t(4) by (metis append_Nil empty_iff list.set(1))
qed

text \<open>
  \<^verbatim>\<open>log_write\<close> panics, without touching the log, exactly when the transaction is full (the
  smaller of \<open>LOGSIZE\<close> and the log's size less one) or no operation is open.
\<close>

theorem log_write_panics:
  assumes "held t = []" and "b_dev (bufs t b) = ROOTDEV"
  shows "log_write b t =
     (if LOGSIZE \<le> lh_n (log t) \<or> l_size (log t) - 1 \<le> lh_n (log t) then Panic ''too big a transaction''
      else if l_outstanding (log t) < 1 then Panic ''log_write outside of trans''
      else Ret () (t\<lparr>bufs := (bufs t)(b := (bufs t b)\<lparr>b_dirty := True\<rparr>),
                     log := log_add (log t) (b_blockno (bufs t b))\<rparr>))"
  using assms by (simp add: log_write_def)

theorem log_write_panics_witness:
  "\<exists>t b. log t = open_log \<and> log_write b t = Ret () (t\<lparr>bufs := (bufs t)(b := (bufs t b)\<lparr>b_dirty := True\<rparr>),
                     log := log_add open_log 100\<rparr>)"
proof -
  obtain t b where t: "ide_ready t" "holds t b 100" "log t = open_log" using open_held_ex by blast
  have "held t = []" "b_dev (bufs t b) = ROOTDEV" "b_blockno (bufs t b) = 100"
    using t is_forD [OF holdsD(3) [OF t(2)]] by (simp_all add: ide_ready_def)
  with log_write_panics [OF this(1,2)] t(3) show ?thesis
    by (intro exI [of _ t] exI [of _ b]) (simp add: open_log_def demo_log_def)
qed

subsection \<open>begin_op\<close>

definition log_space :: "log \<Rightarrow> bool" where
  "log_space l \<longleftrightarrow> lh_n l + (l_outstanding l + 1) * MAXOPBLOCKS \<le> LOGSIZE"

text \<open>
  (C31) \<^verbatim>\<open>begin_op\<close> admits an operation exactly when no commit is running and the log can still take
  \<open>MAXOPBLOCKS\<close> blocks for it and for every operation already open; after it,
  the blocks logged and the blocks reserved fit in the log. Otherwise the caller sleeps, holding
  no lock, with both logs unchanged.
\<close>

theorem begin_op_reserves:
  assumes "held s = []"
  shows "if \<not> l_committing (log s) \<and> log_space (log s)
            \<and> (is_loop_mounted s \<longrightarrow> \<not> l_committing (loop_log s) \<and> log_space (loop_log s))
         then \<exists>t. begin_op s = Ret () t \<and> held t = [] \<and> log t = (log s)\<lparr>l_outstanding := l_outstanding (log s) + 1\<rparr>
            \<and> loop_log t = (loop_log s)\<lparr>l_outstanding := l_outstanding (loop_log s) + 1\<rparr>
            \<and> lh_n (log t) + l_outstanding (log t) * MAXOPBLOCKS \<le> LOGSIZE
         else \<exists>t. begin_op s = Sleep Ch_log t \<and> held t = [] \<and> log t = log s \<and> loop_log t = loop_log s
            \<and> p_state (ptable t (curproc s)) = SLEEPING"
proof -
  let ?c = "l_committing (log s) \<or> (is_loop_mounted s \<and> l_committing (loop_log s))"
  let ?f = "lh_n (log s) + (l_outstanding (log s) + 1) * MAXOPBLOCKS > LOGSIZE
      \<or> (is_loop_mounted s \<and> lh_n (loop_log s) + (l_outstanding (loop_log s) + 1) * MAXOPBLOCKS > LOGSIZE)"
  have sl: "begin_op s = sleep Ch_log Lk_log (s\<lparr>held := [Lk_log]\<rparr>)" if "?c \<or> ?f"
    using that assms by (auto simp: begin_op_def)
  have ok: "begin_op s = Ret () (s\<lparr>log := (log s)\<lparr>l_outstanding := l_outstanding (log s) + 1\<rparr>,
      loop_log := (loop_log s)\<lparr>l_outstanding := l_outstanding (loop_log s) + 1\<rparr>\<rparr>)" if "\<not> ?c" "\<not> ?f"
    using that assms by (auto simp: begin_op_def)
  show ?thesis
  proof (cases "?c \<or> ?f")
    case True
    then show ?thesis using sl [OF True] by (auto simp: sleep_run log_space_def)
  next
    case False
    then show ?thesis using ok assms by (auto simp: log_space_def)
  qed
qed

theorem begin_op_reserves_witness:
  "(\<exists>t. begin_op (kstate0 zdisk) = Ret () t \<and> l_outstanding (log t) = 1)
   \<and> (\<exists>t. begin_op ((kstate0 zdisk)\<lparr>log := log0\<lparr>l_outstanding := 3\<rparr>\<rparr>) = Sleep Ch_log t)"
  using begin_op_reserves [of "kstate0 zdisk"]
    begin_op_reserves [of "(kstate0 zdisk)\<lparr>log := log0\<lparr>l_outstanding := 3\<rparr>\<rparr>"]
  by (auto simp: kstate0_def log0_def log_space_def)

end
