(* ===== verification/CString.thy ===== *)
theory CString
  imports Xv6_Prelude
begin

text \<open>
  The routines of \<^verbatim>\<open>string.c\<close> on byte lists. A list stands for the memory a pointer points to;
  reading past its end gives the NUL that terminates a string constant. \<open>cstr m\<close> is the string
  stored in \<open>m\<close>: its bytes before the first NUL.
\<close>

definition peek :: "u8 list \<Rightarrow> u8" where
  "peek p = (case p of [] \<Rightarrow> 0 | c # _ \<Rightarrow> c)"

definition cstr :: "u8 list \<Rightarrow> u8 list" where
  "cstr m = takeWhile (\<lambda>c. c \<noteq> 0) m"

lemma peek_simps [simp]: "peek [] = 0" "peek (c # p) = c"
  by (simp_all add: peek_def)

subsection \<open>Memory\<close>

text \<open>\<^verbatim>\<open>memmove\<close>: both loops, one byte at a time, on one memory \<open>m\<close> with addresses \<open>d\<close> and \<open>s\<close>.\<close>

primrec copy_fwd :: "nat \<Rightarrow> nat \<Rightarrow> nat \<Rightarrow> u8 list \<Rightarrow> u8 list" where
  "copy_fwd 0 d s m = m"
| "copy_fwd (Suc n) d s m = copy_fwd n (d + 1) (s + 1) (m[d := m ! s])"

primrec copy_bwd :: "nat \<Rightarrow> nat \<Rightarrow> nat \<Rightarrow> u8 list \<Rightarrow> u8 list" where
  "copy_bwd 0 d s m = m"
| "copy_bwd (Suc n) d s m = copy_bwd n d s (m[d + n := m ! (s + n)])"

definition memmove :: "u8 list \<Rightarrow> nat \<Rightarrow> nat \<Rightarrow> nat \<Rightarrow> u8 list" where
  "memmove m d s n = (if s < d \<and> d < s + n then copy_bwd n d s m else copy_fwd n d s m)"

definition memcpy :: "u8 list \<Rightarrow> nat \<Rightarrow> nat \<Rightarrow> nat \<Rightarrow> u8 list" where
  "memcpy m d s n = memmove m d s n"

lemma copy_fwd_correct:
  assumes "s + n \<le> length m" and "d + n \<le> length m" and "d \<le> s \<or> s + n \<le> d"
  shows "copy_fwd n d s m = bsplice m d (bslice m s n)"
  using assms
proof (induction n arbitrary: d s m)
  case 0
  then show ?case by (simp add: bslice_def bsplice_def)
next
  case (Suc n)
  let ?m = "m[d := m ! s]"
  have "copy_fwd (Suc n) d s m = bsplice ?m (d + 1) (bslice ?m (s + 1) n)"
    using Suc.IH [of "s + 1" ?m "d + 1"] Suc.prems by auto
  also have "\<dots> = bsplice m d (bslice m s (Suc n))"
  proof (rule nth_equalityI)
    fix i assume "i < length (bsplice ?m (d + 1) (bslice ?m (s + 1) n))"
    with Suc.prems have i: "i < length m" by simp
    show "bsplice ?m (d + 1) (bslice ?m (s + 1) n) ! i = bsplice m d (bslice m s (Suc n)) ! i"
      using Suc.prems i by (auto simp: nth_bsplice nth_bslice nth_list_update Suc_diff_Suc)
  qed (use Suc.prems in simp)
  finally show ?case .
qed

lemma copy_bwd_correct:
  assumes "s + n \<le> length m" and "d + n \<le> length m" and "s < d"
  shows "copy_bwd n d s m = bsplice m d (bslice m s n)"
  using assms
proof (induction n arbitrary: m)
  case 0
  then show ?case by (simp add: bslice_def bsplice_def)
next
  case (Suc n)
  let ?m = "m[d + n := m ! (s + n)]"
  have "copy_bwd (Suc n) d s m = bsplice ?m d (bslice ?m s n)"
    using Suc.IH [of ?m] Suc.prems by simp
  also have "\<dots> = bsplice m d (bslice m s (Suc n))"
  proof (rule nth_equalityI)
    fix i assume "i < length (bsplice ?m d (bslice ?m s n))"
    with Suc.prems have i: "i < length m" by simp
    show "bsplice ?m d (bslice ?m s n) ! i = bsplice m d (bslice m s (Suc n)) ! i"
      using Suc.prems i by (auto simp: nth_bsplice nth_bslice nth_list_update less_Suc_eq)
        (subst nth_bslice; simp)
  qed (use Suc.prems in simp)
  finally show ?case .
qed

text \<open>
  (C32) \<^verbatim>\<open>memmove\<close> copies correctly whether or not source and destination overlap: afterwards the
  destination holds the bytes the source held before the call, and nothing else has changed.
\<close>

theorem memmove_correct:
  assumes "s + n \<le> length m" and "d + n \<le> length m"
  shows "memmove m d s n = bsplice m d (bslice m s n)"
  using assms copy_fwd_correct [of s n m d] copy_bwd_correct [of s n m d]
  by (auto simp: memmove_def)

theorem memmove_correct_witness:
  "memmove [1, 2, 3, 4, 5] 1 0 4 = [1, 1, 2, 3, 4]"
  using memmove_correct [of 0 4 "[1, 2, 3, 4, 5]" 1] by (simp add: bsplice_def bslice_def numeral_eq_Suc)

text \<open>\<^verbatim>\<open>memset\<close>: by words when address and count are multiples of 4, else by bytes.\<close>

primrec stosb :: "nat \<Rightarrow> nat \<Rightarrow> u8 \<Rightarrow> u8 list \<Rightarrow> u8 list" where
  "stosb 0 d c m = m"
| "stosb (Suc n) d c m = stosb n (d + 1) c (m[d := c])"

primrec stosl :: "nat \<Rightarrow> nat \<Rightarrow> u32 \<Rightarrow> u8 list \<Rightarrow> u8 list" where
  "stosl 0 d w m = m"
| "stosl (Suc n) d w m = stosl n (d + 4) w (put32 m d w)"

definition memset :: "u8 list \<Rightarrow> nat \<Rightarrow> u32 \<Rightarrow> nat \<Rightarrow> u8 list" where
  "memset m d c n =
     (if d mod 4 = 0 \<and> n mod 4 = 0
      then (let c = c AND 0xFF in
            stosl (n div 4) d (push_bit 24 c OR push_bit 16 c OR push_bit 8 c OR c) m)
      else stosb n d (ucast c) m)"

lemma stosb_correct:
  "d + n \<le> length m \<Longrightarrow> stosb n d c m = bsplice m d (replicate n c)"
proof (induction n arbitrary: d m)
  case 0
  then show ?case by (simp add: bsplice_def)
next
  case (Suc n)
  have "stosb (Suc n) d c m = bsplice (m[d := c]) (d + 1) (replicate n c)"
    using Suc by simp
  also have "\<dots> = bsplice m d (replicate (Suc n) c)"
  proof (rule nth_equalityI)
    fix i assume "i < length (bsplice (m[d := c]) (d + 1) (replicate n c))"
    with Suc.prems have "i < length m" by simp
    then show "bsplice (m[d := c]) (d + 1) (replicate n c) ! i = bsplice m d (replicate (Suc n) c) ! i"
      using Suc.prems by (auto simp: nth_bsplice nth_list_update nth_Cons' simp del: replicate_Suc)
  qed (use Suc.prems in simp)
  finally show ?case .
qed

lemma spread_byte:
  fixes c :: u32
  defines "d \<equiv> c AND 0xFF"
  shows "bytes32 (push_bit 24 d OR push_bit 16 d OR push_bit 8 d OR d) = replicate 4 (ucast c)"
proof -
  have "(0xFF :: u32) = mask 8" by (simp add: mask_eq_exp_minus_1)
  then have "d = take_bit 8 c" by (simp add: d_def take_bit_eq_mask)
  then have b: "bit d n \<longleftrightarrow> n < 8 \<and> bit c n" for n by (simp add: bit_simps)
  have "ucast (drop_bit (8 * k) (push_bit 24 d OR push_bit 16 d OR push_bit 8 d OR d)) = (ucast c :: u8)" if "k < 4" for k
  proof (rule bit_word_eqI)
    fix n assume "n < LENGTH(8)"
    moreover have "k = 0 \<or> k = 1 \<or> k = 2 \<or> k = 3" using that by auto
    ultimately show "bit (ucast (drop_bit (8 * k) (push_bit 24 d OR push_bit 16 d OR push_bit 8 d OR d)) :: u8) n
        = bit (ucast c :: u8) n"
      by (elim disjE) (auto simp: bit_simps b)
  qed
  from this [of 0] this [of 1] this [of 2] this [of 3] show ?thesis
    by (simp add: bytes32_def numeral_eq_Suc)
qed

lemma stosl_correct:
  assumes "d + 4 * n \<le> length m" and "bytes32 w = replicate 4 c"
  shows "stosl n d w m = bsplice m d (replicate (4 * n) c)"
  using assms(1)
proof (induction n arbitrary: d m)
  case 0
  then show ?case by (simp add: bsplice_def)
next
  case (Suc n)
  let ?m = "bsplice m d (replicate 4 c)"
  have "stosl (Suc n) d w m = bsplice ?m (d + 4) (replicate (4 * n) c)"
    using Suc assms(2) by (simp add: put32_def)
  also have "\<dots> = bsplice m d (replicate (4 * Suc n) c)"
    by (rule nth_equalityI) (use Suc.prems in \<open>auto simp: nth_bsplice\<close>)
  finally show ?case .
qed

text \<open>
  \<^verbatim>\<open>memset\<close> fills the area with the low byte of \<open>c\<close>, on the path that stores four bytes at a
  time and on the one that stores single bytes.
\<close>

theorem memset_correct:
  assumes "d + n \<le> length m"
  shows "memset m d c n = bsplice m d (replicate n (ucast c))"
proof (cases "d mod 4 = 0 \<and> n mod 4 = 0")
  case True
  then have "4 * (n div 4) = n" by auto
  with stosl_correct [of d "n div 4" m _ "ucast c", OF _ spread_byte] assms True show ?thesis
    by (simp add: memset_def Let_def)
next
  case False
  then show ?thesis using stosb_correct [OF assms] by (auto simp: memset_def)
qed

theorem memset_correct_witness: "memset [9, 9, 9, 9, 9] 0 7 4 = [7, 7, 7, 7, 9]"
proof -
  have "replicate 4 (7 :: u8) = [7, 7, 7, 7]" by (simp add: numeral_eq_Suc)
  then show ?thesis using memset_correct [of 0 4 "[9, 9, 9, 9, 9]" 7] by (simp add: bsplice_def)
qed

subsection \<open>Strings\<close>

fun strncmp :: "u8 list \<Rightarrow> u8 list \<Rightarrow> nat \<Rightarrow> int" where
  "strncmp p q 0 = 0"
| "strncmp p q (Suc n) =
     (if peek p \<noteq> 0 \<and> peek p = peek q then strncmp (tl p) (tl q) n
      else uint (peek p) - uint (peek q))"

text \<open>
  \<^verbatim>\<open>strncpy(s, t, n)\<close>: what is in the \<open>n\<close> bytes of \<open>s\<close> afterwards. After the terminating NUL has been
  copied the second loop fills the rest with NULs.
\<close>

fun strncpy :: "u8 list \<Rightarrow> nat \<Rightarrow> u8 list" where
  "strncpy t 0 = []"
| "strncpy t (Suc n) = (if peek t = 0 then 0 # replicate n 0 else peek t # strncpy (tl t) n)"

text \<open>\<^verbatim>\<open>safestrcpy(s, t, n)\<close>: the bytes written, at most \<open>n\<close>.\<close>

fun safestrcpy :: "u8 list \<Rightarrow> nat \<Rightarrow> u8 list" where
  "safestrcpy t 0 = []"
| "safestrcpy t (Suc 0) = [0]"
| "safestrcpy t (Suc (Suc n)) = (if peek t = 0 then [0] else peek t # safestrcpy (tl t) (Suc n))"

lemma cstr_simps [simp]:
  "cstr [] = []" "cstr (c # m) = (if c = 0 then [] else c # cstr m)"
  by (simp_all add: cstr_def)

lemma strncmp_eq: "strncmp p q n = 0 \<longleftrightarrow> take n (cstr p) = take n (cstr q)"
proof (induction p q n rule: strncmp.induct)
  case (2 p q n)
  show ?case
  proof (cases "peek p \<noteq> 0 \<and> peek p = peek q")
    case True
    then obtain c p' q' where "p = c # p'" "q = c # q'" "c \<noteq> 0"
      by (cases p; cases q) auto
    with 2 show ?thesis by simp
  next
    case False
    have "uint (peek p) - uint (peek q) = 0 \<longleftrightarrow> peek p = peek q"
      by (simp add: word_uint_eq_iff)
    then show ?thesis using False by (cases p; cases q) auto
  qed
qed simp

lemma length_strncpy [simp]: "length (strncpy t n) = n"
  by (induction t n rule: strncpy.induct) auto

lemma takeWhile_replicate0 [simp]: "takeWhile (\<lambda>c. c \<noteq> 0) (replicate n (0::u8)) = []"
  by (cases n) auto

lemma cstr_strncpy: "cstr (strncpy t n) = take n (cstr t)"
proof (induction t n rule: strncpy.induct)
  case (2 t n)
  then show ?case by (cases t) auto
qed simp

lemma cstr_safestrcpy: "0 < n \<Longrightarrow> cstr (safestrcpy t n) = take (n - 1) (cstr t)"
proof (induction t n rule: safestrcpy.induct)
  case (3 t n)
  then show ?case by (cases t) auto
qed auto

text \<open>
  Comparing against a name stored in \<open>n\<close> bytes with \<^verbatim>\<open>strncpy\<close> is comparing the first \<open>n\<close>
  characters: names that agree on them are the same name, also when they fill the field and no
  NUL is stored.
\<close>

theorem strncmp_strncpy:
  "strncmp p (strncpy t n) n = 0 \<longleftrightarrow> take n (cstr p) = take n (cstr t)"
  by (simp add: strncmp_eq cstr_strncpy)

text \<open>
  \<^verbatim>\<open>safestrcpy\<close> writes at most \<open>n\<close> bytes, always ends them with a NUL and stores the longest
  prefix of the source that leaves room for it.
\<close>

theorem safestrcpy_terminated:
  "0 < n \<Longrightarrow> safestrcpy t n = take (n - 1) (cstr t) @ [0] \<and> length (safestrcpy t n) \<le> n"
proof (induction t n rule: safestrcpy.induct)
  case (3 t n)
  then show ?case by (cases t) auto
qed auto

theorem safestrcpy_terminated_witness:
  "safestrcpy [104, 101, 108, 108, 111] 4 = [104, 101, 108, 0]"
  using safestrcpy_terminated [of 4 "[104, 101, 108, 108, 111]"] by (simp add: cstr_def)

primrec strlen :: "u8 list \<Rightarrow> nat" where
  "strlen [] = 0"
| "strlen (c # s) = (if c = 0 then 0 else Suc (strlen s))"

lemma strlen_cstr: "strlen s = length (cstr s)"
  by (induction s) auto

fun memcmp :: "u8 list \<Rightarrow> u8 list \<Rightarrow> nat \<Rightarrow> int" where
  "memcmp p q 0 = 0"
| "memcmp p q (Suc n) = (if peek p \<noteq> peek q then uint (peek p) - uint (peek q) else memcmp (tl p) (tl q) n)"

lemma memcmp_eq:
  "n \<le> length p \<Longrightarrow> n \<le> length q \<Longrightarrow> memcmp p q n = 0 \<longleftrightarrow> take n p = take n q"
proof (induction p q n rule: memcmp.induct)
  case (2 p q n)
  then show ?case by (cases p; cases q) (auto simp: word_uint_eq_iff)
qed simp

end
