(* ===== verification/Inode.thy ===== *)
theory Inode
  imports Log_Write CString
begin

text \<open>
  Blocks and inodes of the file system (\<^verbatim>\<open>fs.c\<close>, first half): the free bitmap, the inode cache,
  and the block map of an inode. The argument \<open>lr\<close> is what \<^verbatim>\<open>bread\<close> calls for a block of a loop
  device. The counters of the loops over the bitmap and the inode blocks are natural numbers, as
  the C integers are below \<open>2 ^ 31\<close>; the superblock is read once before a loop, since nothing in
  the loop assigns to it; the struct at index \<open>k\<close> of an inode block is the one at byte \<open>64 * k\<close>.
  \<^verbatim>\<open>initlock\<close> on the cache's spinlock and the boot message of \<^verbatim>\<open>iinit\<close> are left out.
\<close>

subsection \<open>Blocks\<close>

definition BBLOCK :: "u32 \<Rightarrow> superblock \<Rightarrow> u32" where
  "BBLOCK b x = b div 4096 + sb_bmapstart x"

definition IBLOCK :: "u32 \<Rightarrow> superblock \<Rightarrow> u32" where
  "IBLOCK i x = i div 8 + sb_inodestart x"

definition bzero :: "(nat \<Rightarrow> unit kM) \<Rightarrow> u32 \<Rightarrow> u32 \<Rightarrow> unit kM" where
  "bzero lr dev bno =
     bind (bread lr dev bno) (\<lambda>bp.
     bind (upd_buf bp (\<lambda>bf. bf\<lparr>b_data := replicate BSIZE 0\<rparr>)) (\<lambda>_.
     bind (log_write bp) (\<lambda>_.
     brelse bp)))"

definition bit_used :: "u8 list \<Rightarrow> nat \<Rightarrow> bool" where
  "bit_used d bi \<longleftrightarrow> d ! (bi div 8) AND push_bit (bi mod 8) 1 \<noteq> 0"

definition mark_bit :: "u8 list \<Rightarrow> nat \<Rightarrow> u8 list" where
  "mark_bit d bi = d[bi div 8 := d ! (bi div 8) OR push_bit (bi mod 8) 1]"

definition clear_bit :: "u8 list \<Rightarrow> nat \<Rightarrow> u8 list" where
  "clear_bit d bi = d[bi div 8 := d ! (bi div 8) AND NOT (push_bit (bi mod 8) 1)]"

text \<open>The outer loop of \<^verbatim>\<open>balloc\<close> from bit \<open>b\<close> on; \<open>size\<close> is \<^verbatim>\<open>sb.size\<close>.\<close>

function balloc_from :: "(nat \<Rightarrow> unit kM) \<Rightarrow> u32 \<Rightarrow> superblock \<Rightarrow> nat \<Rightarrow> u32 kM" where
  "balloc_from lr dev x b =
     (if b < unat (sb_size x) then
       bind (bread lr dev (BBLOCK (of_nat b) x)) (\<lambda>bp.
       bind (gets (\<lambda>s. b_data (bufs s bp))) (\<lambda>d.
       case find (\<lambda>bi. \<not> bit_used d bi) [0..<min BPB (unat (sb_size x) - b)] of
         Some bi \<Rightarrow>
           bind (upd_buf bp (\<lambda>bf. bf\<lparr>b_data := mark_bit (b_data bf) bi\<rparr>)) (\<lambda>_.
           bind (log_write bp) (\<lambda>_.
           bind (brelse bp) (\<lambda>_.
           bind (bzero lr dev (of_nat (b + bi))) (\<lambda>_.
           ret (of_nat (b + bi))))))
       | None \<Rightarrow>
           bind (brelse bp) (\<lambda>_.
           balloc_from lr dev x (b + BPB))))
      else panic ''balloc: out of blocks'')"
  by pat_completeness auto
termination
  by (relation "measure (\<lambda>(lr, dev, x, b). unat (sb_size x) - b)") auto

declare balloc_from.simps [simp del]

definition balloc :: "(nat \<Rightarrow> unit kM) \<Rightarrow> u32 \<Rightarrow> u32 kM" where
  "balloc lr dev = bind (gets sb) (\<lambda>x. balloc_from lr dev x 0)"

definition bfree :: "(nat \<Rightarrow> unit kM) \<Rightarrow> u32 \<Rightarrow> u32 \<Rightarrow> unit kM" where
  "bfree lr dev b =
     bind (gets sb) (\<lambda>x.
     bind (bread lr dev (BBLOCK b x)) (\<lambda>bp.
     bind (gets (\<lambda>s. b_data (bufs s bp))) (\<lambda>d.
     bind (panic_if (\<not> bit_used d (unat b mod BPB)) ''freeing free block'') (\<lambda>_.
     bind (upd_buf bp (\<lambda>bf. bf\<lparr>b_data := clear_bit (b_data bf) (unat b mod BPB)\<rparr>)) (\<lambda>_.
     bind (log_write bp) (\<lambda>_.
     brelse bp))))))"

subsection \<open>Inodes\<close>

definition iinit :: "(nat \<Rightarrow> unit kM) \<Rightarrow> u32 \<Rightarrow> unit kM" where
  "iinit lr dev =
     bind (modify (\<lambda>s. s\<lparr>icache := (\<lambda>i. if i < NINODE then (icache s i)\<lparr>i_lock := unlocked\<rparr> else icache s i)\<rparr>)) (\<lambda>_.
     bind (readsb lr dev) (\<lambda>x.
     modify (\<lambda>s. s\<lparr>sb := x\<rparr>)))"

definition iget :: "u32 \<Rightarrow> u32 \<Rightarrow> nat kM" where
  "iget dev inum =
     bind (acquire Lk_icache) (\<lambda>_.
     bind (gets icache) (\<lambda>ic.
     case find (\<lambda>i. 0 < i_ref (ic i) \<and> i_dev (ic i) = dev \<and> i_inum (ic i) = inum) [0..<NINODE] of
       Some ip \<Rightarrow>
         bind (upd_inode ip (\<lambda>i. i\<lparr>i_ref := i_ref i + 1\<rparr>)) (\<lambda>_.
         bind (release Lk_icache) (\<lambda>_.
         ret ip))
     | None \<Rightarrow>
         (case find (\<lambda>i. i_ref (ic i) = 0) [0..<NINODE] of
            None \<Rightarrow> panic ''iget: no inodes''
          | Some ip \<Rightarrow>
              bind (upd_inode ip (\<lambda>i. i\<lparr>i_dev := dev, i_inum := inum, i_ref := 1, i_valid := False\<rparr>)) (\<lambda>_.
              bind (release Lk_icache) (\<lambda>_.
              ret ip)))))"

definition dinode0 :: dinode where
  "dinode0 = \<lparr>di_type = 0, di_major = 0, di_minor = 0, di_nlink = 0, di_size = 0,
     di_addrs = replicate (NDIRECT + 1) 0\<rparr>"

abbreviation dip_off :: "u32 \<Rightarrow> nat" where
  "dip_off inum \<equiv> unat inum mod IPB * DINODE_SIZE"

function ialloc_from :: "(nat \<Rightarrow> unit kM) \<Rightarrow> u32 \<Rightarrow> u16 \<Rightarrow> superblock \<Rightarrow> nat \<Rightarrow> nat kM" where
  "ialloc_from lr dev type x inum =
     (if inum < unat (sb_ninodes x) then
       bind (bread lr dev (IBLOCK (of_nat inum) x)) (\<lambda>bp.
       bind (gets (\<lambda>s. get_dinode (b_data (bufs s bp)) (inum mod IPB * DINODE_SIZE))) (\<lambda>dip.
       if di_type dip = 0 then
         bind (upd_buf bp (\<lambda>bf. bf\<lparr>b_data :=
                 put_dinode (b_data bf) (inum mod IPB * DINODE_SIZE) (dinode0\<lparr>di_type := type\<rparr>)\<rparr>)) (\<lambda>_.
         bind (log_write bp) (\<lambda>_.
         bind (brelse bp) (\<lambda>_.
         iget dev (of_nat inum))))
       else
         bind (brelse bp) (\<lambda>_.
         ialloc_from lr dev type x (inum + 1))))
      else panic ''ialloc: no inodes'')"
  by pat_completeness auto
termination
  by (relation "measure (\<lambda>(lr, dev, type, x, inum). unat (sb_ninodes x) - inum)") auto

declare ialloc_from.simps [simp del]

definition ialloc :: "(nat \<Rightarrow> unit kM) \<Rightarrow> u32 \<Rightarrow> u16 \<Rightarrow> nat kM" where
  "ialloc lr dev type = bind (gets sb) (\<lambda>x. ialloc_from lr dev type x 1)"

definition to_dinode :: "inode \<Rightarrow> dinode" where
  "to_dinode i = \<lparr>di_type = i_type i, di_major = i_major i, di_minor = i_minor i,
     di_nlink = i_nlink i, di_size = i_size i, di_addrs = i_addrs i\<rparr>"

definition from_dinode :: "dinode \<Rightarrow> inode \<Rightarrow> inode" where
  "from_dinode x i = i\<lparr>i_type := di_type x, i_major := di_major x, i_minor := di_minor x,
     i_nlink := di_nlink x, i_size := di_size x, i_addrs := di_addrs x\<rparr>"

definition iupdate :: "(nat \<Rightarrow> unit kM) \<Rightarrow> nat \<Rightarrow> unit kM" where
  "iupdate lr ip =
     bind (gets (\<lambda>s. (icache s ip, sb s))) (\<lambda>(i, x).
     bind (bread lr (i_dev i) (IBLOCK (i_inum i) x)) (\<lambda>bp.
     bind (gets (\<lambda>s. to_dinode (icache s ip))) (\<lambda>di.
     bind (upd_buf bp (\<lambda>bf. bf\<lparr>b_data := put_dinode (b_data bf) (dip_off (i_inum i)) di\<rparr>)) (\<lambda>_.
     bind (log_write bp) (\<lambda>_.
     brelse bp)))))"

definition idup :: "nat \<Rightarrow> nat kM" where
  "idup ip =
     bind (acquire Lk_icache) (\<lambda>_.
     bind (upd_inode ip (\<lambda>i. i\<lparr>i_ref := i_ref i + 1\<rparr>)) (\<lambda>_.
     bind (release Lk_icache) (\<lambda>_.
     ret ip)))"

definition ilock :: "(nat \<Rightarrow> unit kM) \<Rightarrow> nat option \<Rightarrow> unit kM" where
  "ilock lr ip' =
     (case ip' of None \<Rightarrow> panic ''ilock'' | Some ip \<Rightarrow>
     bind (gets (\<lambda>s. icache s ip)) (\<lambda>i.
     bind (panic_if (i_ref i < 1) ''ilock'') (\<lambda>_.
     bind (acquiresleep (SlInode ip)) (\<lambda>_.
     bind (gets (\<lambda>s. (icache s ip, sb s))) (\<lambda>(i, x).
     when_do (\<not> i_valid i)
       (bind (bread lr (i_dev i) (IBLOCK (i_inum i) x)) (\<lambda>bp.
        bind (gets (\<lambda>s. get_dinode (b_data (bufs s bp)) (dip_off (i_inum i)))) (\<lambda>dip.
        bind (upd_inode ip (from_dinode dip)) (\<lambda>_.
        bind (brelse bp) (\<lambda>_.
        bind (upd_inode ip (\<lambda>i. i\<lparr>i_valid := True\<rparr>)) (\<lambda>_.
        panic_if (di_type dip = 0) ''ilock: no type'')))))))))))"

definition iunlock :: "nat option \<Rightarrow> unit kM" where
  "iunlock ip' =
     (case ip' of None \<Rightarrow> panic ''iunlock'' | Some ip \<Rightarrow>
     bind (holdingsleep (SlInode ip)) (\<lambda>h.
     bind (gets (\<lambda>s. i_ref (icache s ip))) (\<lambda>r.
     bind (panic_if (\<not> h \<or> r < 1) ''iunlock'') (\<lambda>_.
     releasesleep (SlInode ip)))))"

subsection \<open>The block map\<close>

definition bmap :: "(nat \<Rightarrow> unit kM) \<Rightarrow> nat \<Rightarrow> u32 \<Rightarrow> u32 kM" where
  "bmap lr ip bn =
     bind (gets (\<lambda>s. icache s ip)) (\<lambda>i.
     if unat bn < NDIRECT then
       (let addr = i_addrs i ! unat bn in
        if addr = 0 then
          bind (balloc lr (i_dev i)) (\<lambda>addr.
          bind (upd_inode ip (\<lambda>i. i\<lparr>i_addrs := (i_addrs i)[unat bn := addr]\<rparr>)) (\<lambda>_.
          ret addr))
        else ret addr)
     else if unat bn - NDIRECT < NINDIRECT then
       bind (let addr = i_addrs i ! NDIRECT in
             if addr = 0 then
               bind (balloc lr (i_dev i)) (\<lambda>addr.
               bind (upd_inode ip (\<lambda>i. i\<lparr>i_addrs := (i_addrs i)[NDIRECT := addr]\<rparr>)) (\<lambda>_.
               ret addr))
             else ret addr) (\<lambda>ind.
       bind (bread lr (i_dev i) ind) (\<lambda>bp.
       bind (gets (\<lambda>s. get32 (b_data (bufs s bp)) (4 * (unat bn - NDIRECT)))) (\<lambda>addr.
       bind (if addr = 0 then
               bind (balloc lr (i_dev i)) (\<lambda>addr.
               bind (upd_buf bp (\<lambda>bf. bf\<lparr>b_data := put32 (b_data bf) (4 * (unat bn - NDIRECT)) addr\<rparr>)) (\<lambda>_.
               bind (log_write bp) (\<lambda>_.
               ret addr)))
             else ret addr) (\<lambda>addr.
       bind (brelse bp) (\<lambda>_.
       ret addr)))))
     else panic ''bmap: out of range'')"

primrec itrunc_direct :: "(nat \<Rightarrow> unit kM) \<Rightarrow> nat \<Rightarrow> nat list \<Rightarrow> unit kM" where
  "itrunc_direct lr ip [] = ret ()"
| "itrunc_direct lr ip (k # ks) =
     bind (gets (\<lambda>s. icache s ip)) (\<lambda>i.
     bind (when_do (i_addrs i ! k \<noteq> 0)
       (bind (bfree lr (i_dev i) (i_addrs i ! k)) (\<lambda>_.
        upd_inode ip (\<lambda>i. i\<lparr>i_addrs := (i_addrs i)[k := 0]\<rparr>)))) (\<lambda>_.
     itrunc_direct lr ip ks))"

primrec itrunc_indirect :: "(nat \<Rightarrow> unit kM) \<Rightarrow> nat \<Rightarrow> nat \<Rightarrow> nat list \<Rightarrow> unit kM" where
  "itrunc_indirect lr ip bp [] = ret ()"
| "itrunc_indirect lr ip bp (j # js) =
     bind (gets (\<lambda>s. (i_dev (icache s ip), get32 (b_data (bufs s bp)) (4 * j)))) (\<lambda>(dev, a).
     bind (when_do (a \<noteq> 0) (bfree lr dev a)) (\<lambda>_.
     itrunc_indirect lr ip bp js))"

definition itrunc :: "(nat \<Rightarrow> unit kM) \<Rightarrow> nat \<Rightarrow> unit kM" where
  "itrunc lr ip =
     bind (itrunc_direct lr ip [0..<NDIRECT]) (\<lambda>_.
     bind (gets (\<lambda>s. icache s ip)) (\<lambda>i.
     bind (when_do (i_addrs i ! NDIRECT \<noteq> 0)
       (bind (bread lr (i_dev i) (i_addrs i ! NDIRECT)) (\<lambda>bp.
        bind (itrunc_indirect lr ip bp [0..<NINDIRECT]) (\<lambda>_.
        bind (brelse bp) (\<lambda>_.
        bind (bfree lr (i_dev i) (i_addrs i ! NDIRECT)) (\<lambda>_.
        upd_inode ip (\<lambda>i. i\<lparr>i_addrs := (i_addrs i)[NDIRECT := 0]\<rparr>))))))) (\<lambda>_.
     bind (upd_inode ip (\<lambda>i. i\<lparr>i_size := 0\<rparr>)) (\<lambda>_.
     iupdate lr ip))))"

definition iput :: "(nat \<Rightarrow> unit kM) \<Rightarrow> nat \<Rightarrow> unit kM" where
  "iput lr ip =
     bind (acquiresleep (SlInode ip)) (\<lambda>_.
     bind (gets (\<lambda>s. icache s ip)) (\<lambda>i.
     bind (when_do (i_valid i \<and> i_nlink i = 0)
       (bind (acquire Lk_icache) (\<lambda>_.
        bind (gets (\<lambda>s. i_ref (icache s ip))) (\<lambda>r.
        bind (release Lk_icache) (\<lambda>_.
        when_do (r = 1)
          (bind (itrunc lr ip) (\<lambda>_.
           bind (upd_inode ip (\<lambda>i. i\<lparr>i_type := 0\<rparr>)) (\<lambda>_.
           bind (iupdate lr ip) (\<lambda>_.
           upd_inode ip (\<lambda>i. i\<lparr>i_valid := False\<rparr>)))))))))) (\<lambda>_.
     bind (releasesleep (SlInode ip)) (\<lambda>_.
     bind (acquire Lk_icache) (\<lambda>_.
     bind (upd_inode ip (\<lambda>i. i\<lparr>i_ref := i_ref i - 1\<rparr>)) (\<lambda>_.
     bind (gets (\<lambda>s. i_ref (icache s ip))) (\<lambda>r.
     bind (when_do (r = 0)
       (upd_inode ip (\<lambda>i. i\<lparr>i_type := 0, i_major := 0, i_minor := 0, i_nlink := 0, i_size := 0,
                          i_addrs := replicate (NDIRECT + 1) 0\<rparr>))) (\<lambda>_.
     release Lk_icache))))))))"

definition iunlockput :: "(nat \<Rightarrow> unit kM) \<Rightarrow> nat \<Rightarrow> unit kM" where
  "iunlockput lr ip = bind (iunlock (Some ip)) (\<lambda>_. iput lr ip)"

record stat =
  st_type :: u16
  st_dev :: u32
  st_ino :: u32
  st_nlink :: u16
  st_size :: u32

definition stati :: "nat \<Rightarrow> stat kM" where
  "stati ip = gets (\<lambda>s. let i = icache s ip in
     \<lparr>st_type = i_type i, st_dev = i_dev i, st_ino = i_inum i, st_nlink = i_nlink i, st_size = i_size i\<rparr>)"

end
