(* ===== verification/Console.thy ===== *)
theory Console
  imports Console_Out Ring Inode
begin

text \<open>
  Console input (second half of \<^verbatim>\<open>console.c\<close>) and the process listing \<^verbatim>\<open>procdump\<close> that it triggers.
  The interrupt handler gets the list of codes that successive calls of its argument \<^verbatim>\<open>getc\<close>
  return before the first negative one. \<open>pcs p\<close> are the return addresses on the kernel stack of
  process \<open>p\<close>, which \<^verbatim>\<open>getcallerpcs\<close> collects. The buffer is a ring of 128 bytes with three
  counters: bytes between \<open>input_r\<close> and \<open>input_w\<close> are complete lines, bytes between \<open>input_w\<close>
  and \<open>input_e\<close> are being edited. \<^verbatim>\<open>consoleread\<close> returns the number the C function returns and the
  bytes it stored.
\<close>

subsection \<open>Operations\<close>

definition bytes_of :: "string \<Rightarrow> u8 list" where
  "bytes_of cs = map (\<lambda>c. of_nat (of_char c)) cs"

definition state_name :: "procstate \<Rightarrow> u8 list" where
  "state_name st = bytes_of (case st of
       UNUSED \<Rightarrow> ''unused'' | EMBRYO \<Rightarrow> ''embryo'' | SLEEPING \<Rightarrow> ''sleep ''
     | RUNNABLE \<Rightarrow> ''runble'' | RUNNING \<Rightarrow> ''run   '' | ZOMBIE \<Rightarrow> ''zombie'')"

primrec print_pcs :: "u32 list \<Rightarrow> unit kM" where
  "print_pcs [] = ret ()"
| "print_pcs (pc # ps) =
     (if pc = 0 then ret ()
      else bind (cprintf (Some (bytes_of '' %p'')) [PInt pc]) (\<lambda>_. print_pcs ps))"

primrec procdump_from :: "(nat \<Rightarrow> u32 list) \<Rightarrow> nat list \<Rightarrow> unit kM" where
  "procdump_from pcs [] = ret ()"
| "procdump_from pcs (i # is) =
     bind (gets (\<lambda>s. ptable s i)) (\<lambda>p.
     bind (when_do (p_state p \<noteq> UNUSED)
       (bind (cprintf (Some (bytes_of ''%d %s %s''))
                [PInt (of_int (p_pid p)), PStr (Some (state_name (p_state p))), PStr (Some (p_name p))]) (\<lambda>_.
        bind (when_do (p_state p = SLEEPING) (print_pcs (take 10 (pcs i)))) (\<lambda>_.
        cprintf (Some [10]) [])))) (\<lambda>_.
     procdump_from pcs is))"

definition procdump :: "(nat \<Rightarrow> u32 list) \<Rightarrow> unit kM" where
  "procdump pcs = procdump_from pcs [0..<NPROC]"

primrec kill_line :: "nat \<Rightarrow> unit kM" where
  "kill_line 0 = ret ()"
| "kill_line (Suc n) =
     bind (gets (\<lambda>s. (input_e s, input_w s, input_buf s))) (\<lambda>(e, w, b).
     if e \<noteq> w \<and> b (unat (e - 1) mod INPUT_BUF) \<noteq> 10 then
       bind (modify (\<lambda>s. s\<lparr>input_e := input_e s - 1\<rparr>)) (\<lambda>_.
       bind (consputc BACKSPACE) (\<lambda>_.
       kill_line n))
     else ret ())"

definition cons_store :: "u32 \<Rightarrow> unit kM" where
  "cons_store c =
     bind (gets (\<lambda>s. (input_e s, input_r s))) (\<lambda>(e, r).
     when_do (c \<noteq> 0 \<and> unat (e - r) < INPUT_BUF)
       (let c = (if c = 13 then 10 else c) in
        bind (modify (\<lambda>s. s\<lparr>input_buf := (input_buf s)(unat (input_e s) mod INPUT_BUF := ucast c)\<rparr>)) (\<lambda>_.
        bind (modify (\<lambda>s. s\<lparr>input_e := input_e s + 1\<rparr>)) (\<lambda>_.
        bind (consputc c) (\<lambda>_.
        bind (gets (\<lambda>s. (input_e s, input_r s))) (\<lambda>(e, r).
        when_do (c = 10 \<or> c = 4 \<or> e = r + 128)
          (bind (modify (\<lambda>s. s\<lparr>input_w := input_e s\<rparr>)) (\<lambda>_.
           wakeup Ch_input))))))))"

text \<open>One key; the result says whether the process listing was asked for.\<close>

definition cons_key :: "u32 \<Rightarrow> bool kM" where
  "cons_key c =
     (if c = 16 then ret True
      else if c = 21 then
        bind (gets (\<lambda>s. unat (input_e s - input_w s))) (\<lambda>n. bind (kill_line n) (\<lambda>_. ret False))
      else if c = 8 \<or> c = 0x7f then
        bind (gets (\<lambda>s. input_e s \<noteq> input_w s)) (\<lambda>b.
        bind (when_do b
          (bind (modify (\<lambda>s. s\<lparr>input_e := input_e s - 1\<rparr>)) (\<lambda>_.
           consputc BACKSPACE))) (\<lambda>_.
        ret False))
      else bind (cons_store c) (\<lambda>_. ret False))"

primrec cons_keys :: "u32 list \<Rightarrow> bool \<Rightarrow> bool kM" where
  "cons_keys [] d = ret d"
| "cons_keys (c # cs) d = bind (cons_key c) (\<lambda>p. cons_keys cs (d \<or> p))"

definition consoleintr :: "(nat \<Rightarrow> u32 list) \<Rightarrow> u32 list \<Rightarrow> unit kM" where
  "consoleintr pcs cs =
     bind (acquire Lk_cons) (\<lambda>_.
     bind (cons_keys cs False) (\<lambda>doprocdump.
     bind (release Lk_cons) (\<lambda>_.
     when_do doprocdump (procdump pcs))))"

text \<open>The loop of \<^verbatim>\<open>consoleread\<close> with \<open>n\<close> bytes to go; the flag is false if the reader was killed.\<close>

primrec consoleread_loop :: "nat \<Rightarrow> nat \<Rightarrow> u8 list \<Rightarrow> (bool \<times> u8 list) kM" where
  "consoleread_loop target 0 acc = ret (True, acc)"
| "consoleread_loop target (Suc n) acc =
     bind (gets (\<lambda>s. (input_r s, input_w s, p_killed (ptable s (curproc s))))) (\<lambda>(r, w, killed).
     if r = w then
       if killed then ret (False, acc) else sleep Ch_input Lk_cons
     else
       bind (gets (\<lambda>s. input_buf s (unat r mod INPUT_BUF))) (\<lambda>c.
       bind (modify (\<lambda>s. s\<lparr>input_r := input_r s + 1\<rparr>)) (\<lambda>_.
       if c = 4 then
         bind (when_do (Suc n < target) (modify (\<lambda>s. s\<lparr>input_r := input_r s - 1\<rparr>))) (\<lambda>_.
         ret (True, acc))
       else if c = 10 then ret (True, acc @ [c])
       else consoleread_loop target n (acc @ [c]))))"

definition consoleread :: "(nat \<Rightarrow> unit kM) \<Rightarrow> nat \<Rightarrow> int \<Rightarrow> (int \<times> u8 list) kM" where
  "consoleread lr ip n =
     bind (iunlock (Some ip)) (\<lambda>_.
     bind (acquire Lk_cons) (\<lambda>_.
     bind (consoleread_loop (nat n) (nat n) []) (\<lambda>(alive, bs).
     bind (release Lk_cons) (\<lambda>_.
     bind (ilock lr (Some ip)) (\<lambda>_.
     ret (if alive then int (length bs) else -1, bs))))))"

definition consolewrite :: "(nat \<Rightarrow> unit kM) \<Rightarrow> nat \<Rightarrow> u8 list \<Rightarrow> int \<Rightarrow> int kM" where
  "consolewrite lr ip buf n =
     bind (iunlock (Some ip)) (\<lambda>_.
     bind (acquire Lk_cons) (\<lambda>_.
     bind (consputs (map ucast (take (nat n) buf))) (\<lambda>_.
     bind (release Lk_cons) (\<lambda>_.
     bind (ilock lr (Some ip)) (\<lambda>_.
     ret n)))))"

definition consoleinit :: "unit kM" where
  "consoleinit =
     modify (\<lambda>s. s\<lparr>devsw_write := (devsw_write s)(1 := Some Fn_consolewrite),
                   devsw_read := (devsw_read s)(1 := Some Fn_consoleread),
                   cons_locking := True\<rparr>)"

end
