(* ===== verification/Console_Line.thy ===== *)
theory Console_Line
  imports Console
begin

text \<open>
  The console's line discipline: \<^verbatim>\<open>consoleintr\<close> as a line editor on lists of bytes, \<^verbatim>\<open>consoleread\<close> as
  taking the first line. The two regions of the ring are \<open>in_lines\<close> and \<open>in_edit\<close>.
\<close>

subsection \<open>The line editor\<close>

definition key_spec :: "u32 \<Rightarrow> u8 list \<times> u8 list \<Rightarrow> u8 list \<times> u8 list" where
  "key_spec c LE = (case LE of (L, E) \<Rightarrow>
     if c = 16 then (L, E)
     else if c = 21 then (L, [])
     else if c = 8 \<or> c = 0x7f then (L, butlast E)
     else if c = 0 \<or> INPUT_BUF \<le> length L + length E then (L, E)
     else let k = (if c = 13 then 10 else c); E' = E @ [ucast k]
          in if k = 10 \<or> k = 4 \<or> length L + length E' = INPUT_BUF then (L @ E', []) else (L, E'))"

definition in_lines :: "kstate \<Rightarrow> u8 list" where
  "in_lines s = ring_list INPUT_BUF (input_buf s) (input_r s) (input_w s)"

definition in_edit :: "kstate \<Rightarrow> u8 list" where
  "in_edit s = ring_list INPUT_BUF (input_buf s) (input_w s) (input_e s)"

definition input_ok :: "kstate \<Rightarrow> bool" where
  "input_ok s \<longleftrightarrow> length (in_lines s) + length (in_edit s) \<le> INPUT_BUF \<and> 10 \<notin> set (in_edit s)
   \<and> cursor_ok s \<and> Lk_ptable \<notin> set (held s)"

lemma cframeD:
  assumes "cframe s t"
  shows "input_buf t = input_buf s" "input_r t = input_r s" "input_w t = input_w s" "input_e t = input_e s"
    "held t = held s" "ptable t = ptable s" "curproc t = curproc s"
  by (subst assms [unfolded cframe_def], simp)+

lemma input_cong:
  assumes "input_buf t = input_buf s" and "input_r t = input_r s" and "input_w t = input_w s" and "input_e t = input_e s"
  shows "in_lines t = in_lines s" and "in_edit t = in_edit s"
  using assms by (simp_all add: in_lines_def in_edit_def)

definition simulates :: "kstate \<Rightarrow> u32 \<Rightarrow> kstate \<Rightarrow> bool" where
  "simulates s c t \<longleftrightarrow> input_ok t \<and> (in_lines t, in_edit t) = key_spec c (in_lines s, in_edit s)
     \<and> held t = held s"

lemma edit_snoc:
  assumes "input_e s \<noteq> input_w s"
  shows "in_edit s = ring_list INPUT_BUF (input_buf s) (input_w s) (input_e s - 1)
           @ [input_buf s (unat (input_e s - 1) mod INPUT_BUF)]"
  unfolding in_edit_def by (rule ring_list_snoc) (use assms in simp)

lemma erase_step:
  assumes ok: "input_ok s" and ne: "input_e s \<noteq> input_w s"
  obtains t where "consputc BACKSPACE (s\<lparr>input_e := input_e s - 1\<rparr>) = Ret () t" and "input_ok t"
    and "in_lines t = in_lines s" and "in_edit t = butlast (in_edit s)" and "held t = held s"
    and "input_w t = input_w s" and "input_e t = input_e s - 1"
proof -
  let ?u = "s\<lparr>input_e := input_e s - 1\<rparr>"
  have cu: "cursor_ok ?u" using ok by (simp add: input_ok_def)
  obtain t where t: "consputc BACKSPACE ?u = Ret () t" "cframe ?u t" "cursor_ok t" by (rule consputc_ok [OF cu])
  note f = cframeD [OF t(2)]
  have l: "in_lines t = in_lines s" using f by (simp add: in_lines_def)
  have e: "in_edit t = butlast (in_edit s)" using f edit_snoc [OF ne] by (simp add: in_edit_def)
  have "10 \<notin> set (butlast (in_edit s))" using ok by (auto simp: input_ok_def dest: in_set_butlastD)
  then have "input_ok t" using ok t(3) f l e by (auto simp: input_ok_def)
  then show ?thesis using that t(1) l e f by simp
qed

lemma kill_line_run:
  "input_ok s \<Longrightarrow> n = unat (input_e s - input_w s) \<Longrightarrow>
   \<exists>t. kill_line n s = Ret () t \<and> input_ok t \<and> in_lines t = in_lines s \<and> in_edit t = [] \<and> held t = held s"
proof (induction n arbitrary: s)
  case 0
  then have "input_e s = input_w s" by (metis eq_iff_diff_eq_0 unat_eq_zero)
  then show ?case using 0 by (simp add: in_edit_def)
next
  case (Suc n)
  then have ne: "input_e s \<noteq> input_w s" by auto
  obtain t where t: "consputc BACKSPACE (s\<lparr>input_e := input_e s - 1\<rparr>) = Ret () t" "input_ok t"
    "in_lines t = in_lines s" "in_edit t = butlast (in_edit s)" "held t = held s"
    "input_w t = input_w s" "input_e t = input_e s - 1"
    by (rule erase_step [OF Suc.prems(1) ne])
  have e: "input_e t - input_w t = input_e s - input_w s - 1" using t(6,7) by simp
  have "n = unat (input_e t - input_w t)"
    unfolding e using Suc.prems(2) unat_minus_one [of "input_e s - input_w s"] ne by simp
  from Suc.IH [OF t(2) this] obtain u where u: "kill_line n t = Ret () u" "input_ok u" "in_lines u = in_lines t"
    "in_edit u = []" "held u = held t" by blast
  have "input_buf s (unat (input_e s - 1) mod INPUT_BUF) \<noteq> 10"
    using Suc.prems(1) edit_snoc [OF ne] by (auto simp: input_ok_def)
  then have "kill_line (Suc n) s = Ret () u" using ne t(1) u(1) by simp
  then show ?case using u t by auto
qed


lemma store_step:
  assumes ok: "input_ok s" and c: "c \<noteq> 0" "c \<noteq> 16" "c \<noteq> 21" "c \<noteq> 8" "c \<noteq> 0x7f" "c < 256"
  obtains t where "cons_store c s = Ret () t" and "simulates s c t"
proof (cases "length (in_lines s) + length (in_edit s) < INPUT_BUF")
  case False
  have d: "unat (input_e s - input_r s) = length (in_lines s) + length (in_edit s)"
    using ok ring_dist [of "input_w s" "input_r s" "input_e s"] by (simp add: input_ok_def in_lines_def in_edit_def)
  have "cons_store c s = Ret () s" using False d by (simp add: cons_store_def)
  moreover have "simulates s c s" using ok c False by (simp add: simulates_def key_spec_def)
  ultimately show ?thesis by (rule that)
next
  case True
  let ?k = "if c = 13 then 10 else c"
  let ?e = "input_e s" and ?w = "input_w s" and ?r = "input_r s"
  let ?b = "(input_buf s)(unat ?e mod INPUT_BUF := ucast ?k)"
  let ?u = "s\<lparr>input_buf := ?b, input_e := ?e + 1\<rparr>"
  have lens: "unat (?w - ?r) + unat (?e - ?w) < 128" using True by (simp add: in_lines_def in_edit_def)
  have d: "unat (?e - ?r) = unat (?w - ?r) + unat (?e - ?w)" by (rule ring_dist) (use lens in simp)
  have cu: "cursor_ok ?u" using ok by (simp add: input_ok_def)
  obtain t where t: "consputc ?k ?u = Ret () t" "cframe ?u t" "cursor_ok t" by (rule consputc_ok [OF cu])
  note f = cframeD [OF t(2)]
  have L: "ring_list 128 ?b ?r ?w = in_lines s"
    unfolding in_lines_def by (rule cons_ring.list_keep) (use lens in simp)
  have E: "ring_list 128 ?b ?w (?e + 1) = in_edit s @ [ucast ?k]"
    unfolding in_edit_def by (rule cons_ring.list_put) (use lens in simp_all)
  have len1: "unat (?e + 1 - ?w) = Suc (length (in_edit s))" using arg_cong [OF E, of length] by simp
  have LE: "ring_list 128 ?b ?r (?e + 1) = in_lines s @ in_edit s @ [ucast ?k]"
    using ring_list_append [of ?w ?r "?e + 1" 128 ?b] L E len1 lens by (simp add: in_edit_def)
  have full: "?e + 1 = ?r + 128 \<longleftrightarrow> length (in_lines s) + length (in_edit s @ [ucast ?k :: u8]) = 128"
  proof -
    have "?e + 1 = ?r + 128 \<longleftrightarrow> ?e + 1 - ?r = 128" by (auto simp: algebra_simps)
    also have "\<dots> \<longleftrightarrow> unat (?e + 1 - ?r) = 128" by (simp add: word_unat_eq_iff)
    finally show ?thesis using arg_cong [OF LE, of length] by simp
  qed
  have ten: "(ucast ?k :: u8) = 10 \<longleftrightarrow> ?k = 10"
  proof
    assume "(ucast ?k :: u8) = 10"
    then have "unat (ucast ?k :: u8) = 10" by simp
    moreover have "unat (ucast ?k :: u8) = unat ?k" using c(6) by (simp add: unsigned_ucast_eq word_less_nat_alt take_bit_nat_eq_self)
    ultimately show "?k = 10" by (simp add: word_unat_eq_iff)
  qed simp
  show ?thesis
  proof (cases "?k = 10 \<or> ?k = 4 \<or> ?e + 1 = ?r + 128")
    case commit: True
    let ?t = "wake Ch_input (t\<lparr>input_w := input_e t\<rparr>)"
    have "cons_store c s = Ret () ?t"
      using t(1) commit c(1) d lens f ok by (simp add: cons_store_def Let_def input_ok_def)
    moreover have l: "in_lines ?t = in_lines s @ in_edit s @ [ucast ?k]"
      using LE f by (simp add: in_lines_def wake_def)
    moreover have e: "in_edit ?t = []" by (simp add: in_edit_def wake_def)
    moreover have "input_ok ?t"
      using l e True t(3) f ok by (simp add: input_ok_def wake_def)
    ultimately show ?thesis
      using that [of ?t] c commit full True f by (simp add: simulates_def key_spec_def Let_def)
  next
    case False
    have "cons_store c s = Ret () t"
      using t(1) False c(1) d lens f by (simp add: cons_store_def Let_def)
    moreover have l: "in_lines t = in_lines s" using L f by (simp add: in_lines_def)
    moreover have e: "in_edit t = in_edit s @ [ucast ?k]" using E f by (simp add: in_edit_def)
    moreover have "input_ok t" using l e True t(3) f ok ten False by (simp add: input_ok_def)
    ultimately show ?thesis
      using that [of t] c False full True f by (simp add: simulates_def key_spec_def Let_def)
  qed
qed

lemma cons_key_run:
  assumes ok: "input_ok s" and c: "c < 256"
  shows "\<exists>t. cons_key c s = Ret (c = 16) t \<and> simulates s c t"
proof -
  consider "c = 16" | "c = 21" | "c = 8 \<or> c = 0x7f" | "c = 0" | "c \<noteq> 0" "c \<noteq> 16" "c \<noteq> 21" "c \<noteq> 8" "c \<noteq> 0x7f" by blast
  then show ?thesis
  proof cases
    case 2
    from kill_line_run [OF ok refl] show ?thesis using 2 by (auto simp: cons_key_def simulates_def key_spec_def)
  next
    case 3
    show ?thesis
    proof (cases "input_e s = input_w s")
      case True
      then show ?thesis using 3 ok by (auto simp: cons_key_def simulates_def key_spec_def in_edit_def)
    next
      case False
      obtain t where "consputc BACKSPACE (s\<lparr>input_e := input_e s - 1\<rparr>) = Ret () t" "input_ok t"
        "in_lines t = in_lines s" "in_edit t = butlast (in_edit s)" "held t = held s"
        by (rule erase_step [OF ok False])
      with 3 False show ?thesis by (auto simp: cons_key_def simulates_def key_spec_def)
    qed
  next
    case 5
    obtain t where "cons_store c s = Ret () t" "simulates s c t" by (rule store_step [OF ok 5 c])
    with 5 show ?thesis by (simp add: cons_key_def)
  qed (use ok in \<open>auto simp: cons_key_def cons_store_def simulates_def key_spec_def\<close>)
qed

lemma cons_keys_run:
  "input_ok s \<Longrightarrow> \<forall>c\<in>set cs. c < 256 \<Longrightarrow>
   \<exists>t. cons_keys cs d s = Ret (d \<or> 16 \<in> set cs) t \<and> input_ok t \<and> held t = held s
     \<and> (in_lines t, in_edit t) = foldl (\<lambda>le c. key_spec c le) (in_lines s, in_edit s) cs"
proof (induction cs arbitrary: s d)
  case (Cons c cs)
  then obtain t where t: "cons_key c s = Ret (c = 16) t" "simulates s c t" using cons_key_run [of s c] by auto
  then have "input_ok t" by (simp add: simulates_def)
  from Cons.IH [OF this, of "d \<or> c = 16"] Cons.prems(2) obtain u where
    "cons_keys cs (d \<or> c = 16) t = Ret ((d \<or> c = 16) \<or> 16 \<in> set cs) u" "input_ok u" "held u = held t"
    "(in_lines u, in_edit u) = foldl (\<lambda>le c. key_spec c le) (in_lines t, in_edit t) cs" by auto
  with t show ?case by (auto simp: simulates_def)
qed simp


text \<open>
  (C33) The keyboard handler implements a line editor on two lists, the finished lines and the line being
  typed: backspace removes the last byte of the line, control-U the whole line, other keys are
  appended while there is room, and newline, control-D or a full buffer finish the line. Finished
  bytes are never changed. The positions in the ring may wrap around.
\<close>

theorem consoleintr_refines_editor:
  assumes "input_ok s" and "held s = []" and "\<forall>c\<in>set cs. c < 256" and "16 \<notin> set cs"
  shows "\<exists>t. consoleintr pcs cs s = Ret () t \<and> input_ok t \<and> held t = []
     \<and> (in_lines t, in_edit t) = foldl (\<lambda>le c. key_spec c le) (in_lines s, in_edit s) cs"
proof -
  let ?s = "s\<lparr>held := [Lk_cons]\<rparr>"
  have "input_ok ?s" "in_lines ?s = in_lines s" "in_edit ?s = in_edit s"
    using assms(1) by (simp_all add: input_ok_def in_lines_def in_edit_def)
  with cons_keys_run [of ?s cs False] assms(3,4) obtain t where
    t: "cons_keys cs False ?s = Ret False t" "input_ok t" "held t = [Lk_cons]"
    "(in_lines t, in_edit t) = foldl (\<lambda>le c. key_spec c le) (in_lines s, in_edit s) cs" by auto
  let ?t = "t\<lparr>held := []\<rparr>"
  have "consoleintr pcs cs s = Ret () ?t" using t(1,3) assms(2) by (simp add: consoleintr_def)
  moreover have "input_ok ?t" "in_lines ?t = in_lines t" "in_edit ?t = in_edit t"
    using t(2) by (simp_all add: input_ok_def in_lines_def in_edit_def)
  ultimately show ?thesis using t(4) by auto
qed

lemma input_ok0: "input_ok (kstate0 D)"
  by (simp add: input_ok_def in_lines_def in_edit_def kstate0_def)

theorem consoleintr_refines_editor_witness:
  "\<exists>t. consoleintr (\<lambda>_. []) [97, 98, 8, 99, 13] (kstate0 (\<lambda>_ _. [])) = Ret () t \<and> in_lines t = [97, 99, 10]"
proof -
  have "in_lines (kstate0 D) = []" "in_edit (kstate0 D) = []" "held (kstate0 D) = []" for D
    by (simp_all add: in_lines_def in_edit_def kstate0_def)
  with consoleintr_refines_editor [OF input_ok0, of "\<lambda>_ _. []" "[97, 98, 8, 99, 13]" "\<lambda>_. []"]
  show ?thesis by (auto simp: key_spec_def Let_def)
qed

subsection \<open>Reading lines\<close>

fun take_line :: "nat \<Rightarrow> u8 list \<Rightarrow> u8 list" where
  "take_line 0 L = []"
| "take_line (Suc n) [] = []"
| "take_line (Suc n) (c # L) = (if c = 4 then [] else if c = 10 then [c] else c # take_line n L)"

text \<open>What is left of the lines: control-D is consumed only by a read that returns nothing.\<close>

fun drop_line :: "nat \<Rightarrow> nat \<Rightarrow> u8 list \<Rightarrow> u8 list" where
  "drop_line t 0 L = L"
| "drop_line t (Suc n) [] = []"
| "drop_line t (Suc n) (c # L) =
     (if c = 4 then if Suc n < t then c # L else L else if c = 10 then L else drop_line t n L)"

lemma consoleread_loop_run:
  "n \<le> length (in_lines s) \<or> 10 \<in> set (in_lines s) \<or> 4 \<in> set (in_lines s) \<Longrightarrow>
   \<exists>r. consoleread_loop t n acc s = Ret (True, acc @ take_line n (in_lines s)) (s\<lparr>input_r := r\<rparr>)
     \<and> in_lines (s\<lparr>input_r := r\<rparr>) = drop_line t n (in_lines s)"
proof (induction n arbitrary: s acc)
  case 0
  have "s\<lparr>input_r := input_r s\<rparr> = s" by simp
  then show ?case by (intro exI [of _ "input_r s"]) simp
next
  case (Suc n)
  then have ne: "input_r s \<noteq> input_w s" by (auto simp: in_lines_def)
  let ?c = "input_buf s (unat (input_r s) mod 128)" and ?s = "s\<lparr>input_r := input_r s + 1\<rparr>"
  have L: "in_lines s = ?c # in_lines ?s"
    unfolding in_lines_def using ring_list_get [OF ne, of 128 "input_buf s"] by simp
  consider "?c = 4" "Suc n < t" | "?c = 4" "\<not> Suc n < t" | "?c = 10" | "?c \<noteq> 4" "?c \<noteq> 10" by blast
  then show ?case
  proof cases
    case 1
    then show ?thesis using ne L by (intro exI [of _ "input_r s"]) simp
  next
    case 4
    then have "n \<le> length (in_lines ?s) \<or> 10 \<in> set (in_lines ?s) \<or> 4 \<in> set (in_lines ?s)"
      using Suc.prems unfolding L by auto
    from Suc.IH [OF this, of "acc @ [?c]"] obtain r where
      "consoleread_loop t n (acc @ [?c]) ?s = Ret (True, (acc @ [?c]) @ take_line n (in_lines ?s)) (?s\<lparr>input_r := r\<rparr>)"
      "in_lines (?s\<lparr>input_r := r\<rparr>) = drop_line t n (in_lines ?s)" by blast
    then show ?thesis using 4 ne L by (intro exI [of _ r]) simp
  qed (use ne L in \<open>auto intro: exI [of _ "input_r s + 1"]\<close>)
qed

text \<open>
  (C34) Reading the console returns the first finished line, or as much of it as fits: the bytes up to
  and including the newline. A control-D ends the read without being returned; it is consumed
  only if no byte came before it, so that the next read returns 0.
\<close>

theorem consoleread_line:
  assumes "input_ok s" and "held s = []" and "i_lock (icache s ip) = mylock s" and "1 \<le> i_ref (icache s ip)"
    and "i_valid (icache s ip)" and "0 \<le> n"
    and "nat n \<le> length (in_lines s) \<or> 10 \<in> set (in_lines s) \<or> 4 \<in> set (in_lines s)"
  shows "\<exists>t. consoleread lr ip n s = Ret (int (length (take_line (nat n) (in_lines s))), take_line (nat n) (in_lines s)) t
     \<and> in_lines t = drop_line (nat n) (nat n) (in_lines s) \<and> icache t = icache s \<and> held t = []"
proof -
  let ?s1 = "wake (Ch_sleeplock (SlInode ip)) (set_sl (SlInode ip) unlocked s)"
  let ?s2 = "?s1\<lparr>held := [Lk_cons]\<rparr>"
  have un: "iunlock (Some ip) s = Ret () ?s1"
    using assms(2-4) by (simp add: iunlock_def mylock_def)
  have l2: "in_lines ?s2 = in_lines s" by (simp add: in_lines_def wake_def)
  obtain r where r: "consoleread_loop (nat n) (nat n) [] ?s2 = Ret (True, take_line (nat n) (in_lines s)) (?s2\<lparr>input_r := r\<rparr>)"
    "in_lines (?s2\<lparr>input_r := r\<rparr>) = drop_line (nat n) (nat n) (in_lines s)"
    using consoleread_loop_run [of "nat n" ?s2 "nat n" "[]"] assms(7) l2 by auto
  let ?s3 = "?s2\<lparr>input_r := r\<rparr>\<lparr>held := []\<rparr>"
  let ?s4 = "set_sl (SlInode ip) (mylock ?s3) ?s3"
  have il: "ilock lr (Some ip) ?s3 = Ret () ?s4"
    using assms(4,5) by (simp add: ilock_def)
  have "consoleread lr ip n s = Ret (int (length (take_line (nat n) (in_lines s))), take_line (nat n) (in_lines s)) ?s4"
    using un r(1) il assms(2) by (simp add: consoleread_def)
  moreover have "in_lines ?s4 = drop_line (nat n) (nat n) (in_lines s)" using r(2) by (simp add: in_lines_def)
  moreover have "icache ?s4 = icache s"
    using assms(3) by (simp add: mylock_def fun_upd_idem)
  ultimately show ?thesis using assms(2) by simp
qed


definition demo_cons :: kstate where
  "demo_cons = (kstate0 (\<lambda>_ _. []))\<lparr>
     icache := (\<lambda>_. inode0\<lparr>i_lock := \<lparr>sl_locked = True, sl_pid = 0\<rparr>, i_ref := 1, i_valid := True\<rparr>),
     input_buf := (\<lambda>i. if i = 0 then 97 else 10), input_w := 2, input_e := 2\<rparr>"

theorem consoleread_line_witness:
  "\<exists>t. consoleread (\<lambda>_. panic []) 0 2 demo_cons = Ret (2, [97, 10]) t \<and> in_lines t = []"
proof -
  have l: "in_lines demo_cons = [97, 10]" and e: "in_edit demo_cons = []"
    by (simp_all add: in_lines_def in_edit_def demo_cons_def kstate0_def ring_list_def upt_rec)
  have ok: "input_ok demo_cons" unfolding input_ok_def l e by (simp add: demo_cons_def kstate0_def)
  have "i_lock (icache demo_cons 0) = mylock demo_cons" "held demo_cons = []" "1 \<le> i_ref (icache demo_cons 0)"
    "i_valid (icache demo_cons 0)"
    by (simp_all add: demo_cons_def kstate0_def mylock_def proc0_def)
  moreover have "take_line 2 [97, 10] = [97, 10]" "drop_line 2 2 [97, 10] = []"
    unfolding numeral_2_eq_2 take_line.simps drop_line.simps by simp_all
  ultimately show ?thesis
    using consoleread_line [OF ok, of 0 2 "\<lambda>_. panic []"] l by auto
qed

end
