(* ===== verification/Mount.thy ===== *)
theory Mount
  imports Inode
begin

text \<open>
  The mount table (\<^verbatim>\<open>sysmount.c\<close>, without the two system calls): a table of reference-counted
  entries, the active ones linked into the list \<open>pmntlist\<close>. A walk along the list visits at most
  \<open>NMNT\<close> entries unless the list is cyclic, so \<open>NMNT + 1\<close> rounds decide it; a cyclic list, on
  which the C loop would not end, is a \<open>Fault\<close>.
\<close>

subsection \<open>Operations\<close>

definition mountinit :: "unit kM" where
  "mountinit =
     bind (upd_mnt 0 (\<lambda>m. m\<lparr>m_devno := 0, m_mnti := None, m_refcnt := 1\<rparr>)) (\<lambda>_.
     modify (\<lambda>s. s\<lparr>prootmnt := Some 0, pmntlist := Some 0\<rparr>))"

definition mntalloc :: "nat kM" where
  "mntalloc =
     bind (acquire Lk_gmnt) (\<lambda>_.
     bind (gets gmnttable) (\<lambda>tab.
     case find (\<lambda>i. m_refcnt (tab i) = 0) [0..<NMNT] of
       None \<Rightarrow> panic ''[mntalloc] no free mount entry''
     | Some m \<Rightarrow>
         bind (upd_mnt m (\<lambda>e. e\<lparr>m_refcnt := 2\<rparr>)) (\<lambda>_.
         bind (release Lk_gmnt) (\<lambda>_.
         ret m))))"

definition mntdup :: "nat \<Rightarrow> nat kM" where
  "mntdup m =
     bind (acquire Lk_gmnt) (\<lambda>_.
     bind (upd_mnt m (\<lambda>e. e\<lparr>m_refcnt := m_refcnt e + 1\<rparr>)) (\<lambda>_.
     bind (release Lk_gmnt) (\<lambda>_.
     ret m)))"

definition mntput :: "nat \<Rightarrow> unit kM" where
  "mntput m =
     bind (acquire Lk_gmnt) (\<lambda>_.
     bind (upd_mnt m (\<lambda>e. e\<lparr>m_refcnt := m_refcnt e - 1\<rparr>)) (\<lambda>_.
     release Lk_gmnt))"

text \<open>The walk that \<^verbatim>\<open>mntlookup\<close>, \<^verbatim>\<open>getmntpnt\<close> and \<^verbatim>\<open>sys_umount\<close> share: the first entry with \<open>P\<close>.\<close>

primrec mnt_find :: "nat \<Rightarrow> (mntent \<Rightarrow> bool) \<Rightarrow> nat option \<Rightarrow> nat option kM" where
  "mnt_find 0 P cur = fault ''mount list does not end''"
| "mnt_find (Suc k) P cur =
     (case cur of
        None \<Rightarrow> ret None
      | Some m \<Rightarrow>
          bind (gets (\<lambda>s. gmnttable s m)) (\<lambda>e.
          bind (panic_if (m_refcnt e = 0) ''[mntlookup] mnt entry in active mount list has a zero refcnt'') (\<lambda>_.
          if P e then ret (Some m) else mnt_find k P (m_next e))))"

definition mntlookup :: "nat \<Rightarrow> nat option kM" where
  "mntlookup ip =
     bind (acquire Lk_gmnt) (\<lambda>_.
     bind (gets pmntlist) (\<lambda>l.
     bind (mnt_find (NMNT + 1) (\<lambda>e. m_mnti e = Some ip) l) (\<lambda>r.
     bind (release Lk_gmnt) (\<lambda>_.
     case r of None \<Rightarrow> ret None | Some m \<Rightarrow> bind (mntdup m) (\<lambda>m. ret (Some m))))))"

definition getmntpnt :: "u32 \<Rightarrow> nat option kM" where
  "getmntpnt devno =
     bind (acquire Lk_gmnt) (\<lambda>_.
     bind (gets pmntlist) (\<lambda>l.
     bind (mnt_find (NMNT + 1) (\<lambda>e. m_devno e = devno) l) (\<lambda>r.
     bind (release Lk_gmnt) (\<lambda>_.
     case r of None \<Rightarrow> ret None | Some m \<Rightarrow> gets (\<lambda>s. m_mnti (gmnttable s m))))))"

end
