(* ===== verification/File_IO.thy ===== *)
theory File_IO
  imports Console Mount
begin

text \<open>
  Inode contents, directories and path names (\<^verbatim>\<open>fs.c\<close>, second half). \<^verbatim>\<open>readi\<close> returns the number
  the C function returns together with the bytes it stored at \<^verbatim>\<open>dst\<close>; \<^verbatim>\<open>writei\<close> gets the bytes at
  \<^verbatim>\<open>src\<close> as a list. Path names and directory names are byte lists read as C strings: they end at the
  first 0 byte or at the end of the list. \<^verbatim>\<open>namex\<close> returns the inode, if any, and the final
  content of the caller's \<^verbatim>\<open>name\<close> buffer.
\<close>

subsection \<open>Inode contents\<close>

function readi_loop :: "(nat \<Rightarrow> unit kM) \<Rightarrow> nat \<Rightarrow> u32 \<Rightarrow> nat \<Rightarrow> u8 list kM" where
  "readi_loop lr ip off n =
     (if n = 0 then ret []
      else
        bind (bmap lr ip (off div 512)) (\<lambda>a.
        bind (gets (\<lambda>s. i_dev (icache s ip))) (\<lambda>dev.
        bind (bread lr dev a) (\<lambda>bp.
        bind (gets (\<lambda>s. bslice (b_data (bufs s bp)) (unat off mod BSIZE) (min n (BSIZE - unat off mod BSIZE)))) (\<lambda>d.
        bind (brelse bp) (\<lambda>_.
        bind (readi_loop lr ip (off + of_nat (min n (BSIZE - unat off mod BSIZE)))
                (n - min n (BSIZE - unat off mod BSIZE))) (\<lambda>r.
        ret (d @ r))))))))"
  by pat_completeness auto
termination
  by (relation "measure (\<lambda>(lr, ip, off, n). n)") auto

declare readi_loop.simps [simp del]

definition devno_ok :: "u16 \<Rightarrow> bool" where
  "devno_ok major \<longleftrightarrow> \<not> (sint major < 0 \<or> int NDEV \<le> sint major)"

definition readi :: "(nat \<Rightarrow> unit kM) \<Rightarrow> nat \<Rightarrow> u32 \<Rightarrow> u32 \<Rightarrow> (int \<times> u8 list) kM" where
  "readi lr ip off n =
     bind (gets (\<lambda>s. icache s ip)) (\<lambda>i.
     if i_type i = T_DEV then
       bind (gets (\<lambda>s. devsw_read s (nat (sint (i_major i))))) (\<lambda>f.
       if \<not> devno_ok (i_major i) then ret (-1, [])
       else (case f of
           None \<Rightarrow> ret (-1, [])
         | Some Fn_consoleread \<Rightarrow> consoleread lr ip (sint n)
         | Some Fn_consolewrite \<Rightarrow> fault ''not a read function''))
     else if i_size i < off \<or> off + n < off then ret (-1, [])
     else
       (let n = (if i_size i < off + n then i_size i - off else n) in
        bind (readi_loop lr ip off (unat n)) (\<lambda>d.
        ret (sint n, d))))"

text \<open>The loop of \<^verbatim>\<open>writei\<close>; the result is the final value of \<^verbatim>\<open>off\<close>.\<close>

function writei_loop :: "(nat \<Rightarrow> unit kM) \<Rightarrow> nat \<Rightarrow> u8 list \<Rightarrow> u32 \<Rightarrow> nat \<Rightarrow> u32 kM" where
  "writei_loop lr ip src off n =
     (if n = 0 then ret off
      else
        bind (bmap lr ip (off div 512)) (\<lambda>a.
        bind (gets (\<lambda>s. i_dev (icache s ip))) (\<lambda>dev.
        bind (bread lr dev a) (\<lambda>bp.
        bind (upd_buf bp (\<lambda>bf. bf\<lparr>b_data :=
                bsplice (b_data bf) (unat off mod BSIZE) (take (min n (BSIZE - unat off mod BSIZE)) src)\<rparr>)) (\<lambda>_.
        bind (log_write bp) (\<lambda>_.
        bind (brelse bp) (\<lambda>_.
        writei_loop lr ip (drop (min n (BSIZE - unat off mod BSIZE)) src)
          (off + of_nat (min n (BSIZE - unat off mod BSIZE))) (n - min n (BSIZE - unat off mod BSIZE)))))))))"
  by pat_completeness auto
termination
  by (relation "measure (\<lambda>(lr, ip, src, off, n). n)") auto

declare writei_loop.simps [simp del]

definition writei :: "(nat \<Rightarrow> unit kM) \<Rightarrow> nat \<Rightarrow> u8 list \<Rightarrow> u32 \<Rightarrow> u32 \<Rightarrow> int kM" where
  "writei lr ip src off n =
     bind (gets (\<lambda>s. icache s ip)) (\<lambda>i.
     if i_type i = T_DEV then
       bind (gets (\<lambda>s. devsw_write s (nat (sint (i_major i))))) (\<lambda>f.
       if \<not> devno_ok (i_major i) then ret (-1)
       else (case f of
           None \<Rightarrow> ret (-1)
         | Some Fn_consolewrite \<Rightarrow> consolewrite lr ip src (sint n)
         | Some Fn_consoleread \<Rightarrow> fault ''not a write function''))
     else if i_size i < off \<or> off + n < off then ret (-1)
     else if MAXFILE * BSIZE < unat (off + n) then ret (-1)
     else
       bind (writei_loop lr ip src off (unat n)) (\<lambda>off'.
       bind (gets (\<lambda>s. i_size (icache s ip))) (\<lambda>sz.
       bind (when_do (0 < n \<and> sz < off')
         (bind (upd_inode ip (\<lambda>i. i\<lparr>i_size := off'\<rparr>)) (\<lambda>_.
          iupdate lr ip))) (\<lambda>_.
       ret (sint n)))))"

subsection \<open>Directories\<close>

definition namecmp :: "u8 list \<Rightarrow> u8 list \<Rightarrow> int" where
  "namecmp s t = strncmp s t DIRSIZ"

function dirlookup_from :: "(nat \<Rightarrow> unit kM) \<Rightarrow> nat \<Rightarrow> u8 list \<Rightarrow> nat \<Rightarrow> nat \<Rightarrow> (nat \<times> u32) option kM" where
  "dirlookup_from lr dp name sz off =
     (if off < sz then
        bind (readi lr dp (of_nat off) 16) (\<lambda>(r, d).
        bind (panic_if (r \<noteq> 16) ''dirlookup read'') (\<lambda>_.
        let de = get_dirent d in
        if de_inum de = 0 then dirlookup_from lr dp name sz (off + 16)
        else if namecmp name (de_name de) = 0 then
          bind (gets (\<lambda>s. i_dev (icache s dp))) (\<lambda>dev.
          bind (iget dev (ucast (de_inum de))) (\<lambda>ip.
          ret (Some (ip, of_nat off))))
        else dirlookup_from lr dp name sz (off + 16)))
      else ret None)"
  by pat_completeness auto
termination
  by (relation "measure (\<lambda>(lr, dp, name, sz, off). sz - off)") auto

declare dirlookup_from.simps [simp del]

text \<open>The inode found and the offset stored at \<^verbatim>\<open>*poff\<close>.\<close>

definition dirlookup :: "(nat \<Rightarrow> unit kM) \<Rightarrow> nat \<Rightarrow> u8 list \<Rightarrow> (nat \<times> u32) option kM" where
  "dirlookup lr dp name =
     bind (gets (\<lambda>s. icache s dp)) (\<lambda>i.
     bind (panic_if (i_type i \<noteq> T_DIR) ''dirlookup not DIR'') (\<lambda>_.
     dirlookup_from lr dp name (unat (i_size i)) 0))"

function free_dirent_from :: "(nat \<Rightarrow> unit kM) \<Rightarrow> nat \<Rightarrow> nat \<Rightarrow> nat \<Rightarrow> nat kM" where
  "free_dirent_from lr dp sz off =
     (if off < sz then
        bind (readi lr dp (of_nat off) 16) (\<lambda>(r, d).
        bind (panic_if (r \<noteq> 16) ''dirlink read'') (\<lambda>_.
        if de_inum (get_dirent d) = 0 then ret off
        else free_dirent_from lr dp sz (off + 16)))
      else ret off)"
  by pat_completeness auto
termination
  by (relation "measure (\<lambda>(lr, dp, sz, off). sz - off)") auto

declare free_dirent_from.simps [simp del]

definition dirlink :: "(nat \<Rightarrow> unit kM) \<Rightarrow> nat \<Rightarrow> u8 list \<Rightarrow> u32 \<Rightarrow> int kM" where
  "dirlink lr dp name inum =
     bind (dirlookup lr dp name) (\<lambda>r.
     case r of
       Some (ip, _) \<Rightarrow> bind (iput lr ip) (\<lambda>_. ret (-1))
     | None \<Rightarrow>
         bind (gets (\<lambda>s. unat (i_size (icache s dp)))) (\<lambda>sz.
         bind (free_dirent_from lr dp sz 0) (\<lambda>off.
         bind (writei lr dp (dirent_bytes \<lparr>de_inum = ucast inum, de_name = strncpy name DIRSIZ\<rparr>) (of_nat off) 16) (\<lambda>r.
         bind (panic_if (r \<noteq> 16) ''dirlink'') (\<lambda>_.
         ret 0)))))"

end
