(* ===== verification/Namex.thy ===== *)
theory Namex
  imports File_IO
begin

text \<open>
  Path names (\<^verbatim>\<open>skipelem\<close>, \<^verbatim>\<open>namex\<close>, \<^verbatim>\<open>namei\<close>, \<^verbatim>\<open>nameiparent\<close> of \<^verbatim>\<open>fs.c\<close>), with the crossing of
  mount points in both directions. The loop of \<^verbatim>\<open>namex\<close> consumes the path, so it ends.
\<close>

definition skipelem :: "u8 list \<Rightarrow> u8 list \<Rightarrow> (u8 list \<times> u8 list) option" where
  "skipelem path name =
     (let path = dropWhile (\<lambda>c. c = 47) path in
      if peek path = 0 then None
      else
        let s = takeWhile (\<lambda>c. c \<noteq> 47 \<and> c \<noteq> 0) path;
            path = dropWhile (\<lambda>c. c \<noteq> 47 \<and> c \<noteq> 0) path;
            name = (if DIRSIZ \<le> length s then bsplice name 0 (take DIRSIZ s)
                    else (bsplice name 0 s)[length s := 0])
        in Some (dropWhile (\<lambda>c. c = 47) path, name))"

lemma skipelem_shorter:
  assumes "skipelem path name = Some (rest, name')"
  shows "length rest < length path"
proof -
  let ?p = "dropWhile (\<lambda>c. c = 47) path" and ?q = "\<lambda>c::u8. c \<noteq> 47 \<and> c \<noteq> 0"
  have nz: "peek ?p \<noteq> 0" and r: "rest = dropWhile (\<lambda>c. c = 47) (dropWhile ?q ?p)"
    using assms by (auto simp: skipelem_def Let_def split: if_splits)
  then obtain c cs where c: "?p = c # cs" "c \<noteq> 0" by (cases ?p) (auto simp: peek_def)
  moreover have "c \<noteq> 47" using c(1) hd_dropWhile [of "\<lambda>c. c = 47" path] by auto
  ultimately have "length (dropWhile ?q ?p) \<le> length cs" by (simp add: length_dropWhile_le)
  then have "length rest \<le> length cs" unfolding r by (meson length_dropWhile_le le_trans)
  moreover have "length ?p \<le> length path" by (rule length_dropWhile_le)
  ultimately show ?thesis using c(1) by simp
qed

text \<open>\<open>..\<close> at the root of a mounted device: go on in the directory the device is mounted on.\<close>

definition cross_up :: "(nat \<Rightarrow> unit kM) \<Rightarrow> nat \<Rightarrow> u8 list \<Rightarrow> nat kM" where
  "cross_up lr ip name =
     bind (gets (\<lambda>s. icache s ip)) (\<lambda>i.
     if isloopdev (i_dev i) \<and> i_inum i = ROOTINO \<and> namecmp name [46, 46, 0] = 0 then
       bind (getmntpnt (i_dev i)) (\<lambda>m.
       bind (deref m) (\<lambda>m.
       bind (idup m) (\<lambda>mnti.
       bind (iunlock (Some ip)) (\<lambda>_.
       bind (iput lr ip) (\<lambda>_.
       bind (ilock lr (Some mnti)) (\<lambda>_.
       bind (gets (\<lambda>s. i_type (icache s mnti))) (\<lambda>ty.
       bind (panic_if (ty \<noteq> T_DIR) ''dirlookup not DIR'') (\<lambda>_.
       ret mnti))))))))
     else ret ip)"

text \<open>A directory something is mounted on: go on at the root of the mounted device.\<close>

definition cross_down :: "(nat \<Rightarrow> unit kM) \<Rightarrow> nat \<Rightarrow> nat kM" where
  "cross_down lr next =
     bind (mntlookup next) (\<lambda>r.
     case r of
       None \<Rightarrow> ret next
     | Some nextmp \<Rightarrow>
         bind (gets (\<lambda>s. m_devno (gmnttable s nextmp))) (\<lambda>newdevno.
         bind (iput lr next) (\<lambda>_.
         bind (iget newdevno ROOTINO) (\<lambda>next.
         bind (mntput nextmp) (\<lambda>_.
         ret next)))))"

function namex_loop :: "(nat \<Rightarrow> unit kM) \<Rightarrow> bool \<Rightarrow> nat \<Rightarrow> u8 list \<Rightarrow> u8 list \<Rightarrow> (nat option \<times> u8 list) kM" where
  "namex_loop lr nameiparent ip path name =
     (case skipelem path name of
        None \<Rightarrow>
          if nameiparent then bind (iput lr ip) (\<lambda>_. ret (None, name)) else ret (Some ip, name)
      | Some (path, name) \<Rightarrow>
          bind (ilock lr (Some ip)) (\<lambda>_.
          bind (gets (\<lambda>s. i_type (icache s ip))) (\<lambda>ty.
          if ty \<noteq> T_DIR then bind (iunlockput lr ip) (\<lambda>_. ret (None, name))
          else if nameiparent \<and> peek path = 0 then bind (iunlock (Some ip)) (\<lambda>_. ret (Some ip, name))
          else
            bind (cross_up lr ip name) (\<lambda>ip.
            bind (dirlookup lr ip name) (\<lambda>r.
            case r of
              None \<Rightarrow> bind (iunlockput lr ip) (\<lambda>_. ret (None, name))
            | Some (next, _) \<Rightarrow>
                bind (cross_down lr next) (\<lambda>next.
                bind (iunlockput lr ip) (\<lambda>_.
                namex_loop lr nameiparent next path name)))))))"
  by pat_completeness auto
termination
  by (relation "measure (\<lambda>(lr, nameiparent, ip, path, name). length path)") (auto dest: skipelem_shorter)

declare namex_loop.simps [simp del]

definition namex :: "(nat \<Rightarrow> unit kM) \<Rightarrow> u8 list \<Rightarrow> bool \<Rightarrow> u8 list \<Rightarrow> (nat option \<times> u8 list) kM" where
  "namex lr path nameiparent name =
     bind (if peek path = 47 then iget ROOTDEV ROOTINO
           else
             bind myproc (\<lambda>p.
             bind (gets (\<lambda>s. p_cwd (ptable s p))) (\<lambda>cwd.
             bind (deref cwd) (\<lambda>cwd.
             idup cwd)))) (\<lambda>ip.
     namex_loop lr nameiparent ip path name)"

text \<open>The local array \<^verbatim>\<open>name\<close> of \<^verbatim>\<open>namei\<close> is written before it is read; it starts as zeros here.\<close>

definition namei :: "(nat \<Rightarrow> unit kM) \<Rightarrow> u8 list \<Rightarrow> nat option kM" where
  "namei lr path = bind (namex lr path False (replicate DIRSIZ 0)) (\<lambda>(ip, _). ret ip)"

definition nameiparent :: "(nat \<Rightarrow> unit kM) \<Rightarrow> u8 list \<Rightarrow> u8 list \<Rightarrow> (nat option \<times> u8 list) kM" where
  "nameiparent lr path name = namex lr path True name"

end
