(* ===== verification/File_Read.thy ===== *)
theory File_Read
  imports Namex
begin

text \<open>
  Rules for reading files (\<^verbatim>\<open>bmap\<close>, \<^verbatim>\<open>readi\<close>, \<^verbatim>\<open>iget\<close>, \<^verbatim>\<open>dirlookup\<close> of \<^verbatim>\<open>fs.c\<close>): the bytes of a file as the inode's block
  addresses and the content of the disk define them, and what the functions return in terms of these bytes.
\<close>

lemma wp_gets_fun: "wp (gets f) Q = (\<lambda>s. Q (f s) s)" and wp_ret_fun: "wp (ret x) Q = Q x"
  by (rule ext, simp add: wp_gets wp_ret)+

subsection \<open>Reading a block\<close>

text \<open>Nothing changes that the rest of the kernel can see: only the order and the use of buffers.\<close>

definition quiet :: "kstate \<Rightarrow> kstate \<Rightarrow> bool" where
  "quiet s t \<longleftrightarrow> bframe s t \<and> cache_ok t \<and> cview t = cview s \<and> lkd t = lkd s \<and> dty t = dty s"

definition cache_ready :: "kstate \<Rightarrow> bool" where
  "cache_ready s \<longleftrightarrow> cache_ok s \<and> ide_ready s \<and> card (dty s \<union> lkd s) < NBUF"

definition readable :: "kstate \<Rightarrow> u32 \<Rightarrow> bool" where
  "readable s bn \<longleftrightarrow> bn \<noteq> 0 \<and> unat bn < FSSIZE \<and> (ROOTDEV, bn) \<notin> lkd s"

lemma quiet_refl: "cache_ready s \<Longrightarrow> quiet s s"
  by (simp add: quiet_def cache_ready_def)

lemma quiet_trans: "quiet s t \<Longrightarrow> quiet t u \<Longrightarrow> quiet s u"
  using bframe_trans by (auto simp: quiet_def)

lemma quietD:
  assumes "quiet s t"
  shows "cview t = cview s" "icache t = icache s" "lkd t = lkd s" "readable t = readable s" "held t = held s"
    "cache_ready s \<Longrightarrow> cache_ready t"
  using assms bframeD(1,16,23) [of s t] by (simp_all add: quiet_def readable_def cache_ready_def fun_eq_iff)

lemma locked_block_wp:
  assumes c: "cache_ready s" and r: "readable s bn"
    and Q: "\<And>bp t. b_data (bufs t bp) = cview s bn \<Longrightarrow> bframe s t
      \<Longrightarrow> (\<And>P. (\<And>u. quiet s u \<Longrightarrow> P () u) \<Longrightarrow> wp (brelse bp) P t) \<Longrightarrow> Q bp t"
  shows "wp (bread lr ROOTDEV bn) Q s"
proof (rule bread_wp)
  show "cache_ok s" "ide_ready s" "unat bn < FSSIZE" "(ROOTDEV, bn) \<notin> lkd s" "(ROOTDEV, bn) \<in> dty s \<or> card (dty s \<union> lkd s) < NBUF"
    using c r by (simp_all add: cache_ready_def readable_def)
  fix b t assume p: "bread_post s bn b t"
  then have t: "cache_ok t" "bframe s t" "holds t b bn" "cview t = cview s" "lkd t = insert (ROOTDEV, bn) (lkd s)" "dty t = dty s"
    by (simp_all add: bread_post_def)
  have rdy: "ide_ready t" using bframeD(23) [OF t(2)] c by (simp add: cache_ready_def)
  have sync: "(ROOTDEV, bn) \<in> dty t \<or> cview t bn = dsk t ROOTDEV bn"
    using p bframeD(22) [OF t(2)] by (simp add: bread_post_def)
  have rel: "wp (brelse b) P t" if "\<And>u. quiet s u \<Longrightarrow> P () u" for P
  proof (rule brelse_wp [OF t(1) rdy t(3) sync])
    fix u assume "brelse_post t b bn u"
    then have "quiet s u" using t(2,4,5,6) r bframe_trans [OF t(2)] by (auto simp: brelse_post_def quiet_def readable_def)
    then show "P () u" by (rule that)
  qed
  show "Q b t" by (rule Q [OF _ t(2) rel]) (use holds_cview [OF t(1,3)] t(4) in auto)
qed

subsection \<open>The content of a file\<close>

definition file_block :: "kstate \<Rightarrow> nat \<Rightarrow> nat \<Rightarrow> u32" where
  "file_block s ip k =
     (if k < NDIRECT then i_addrs (icache s ip) ! k
      else get32 (cview s (i_addrs (icache s ip) ! NDIRECT)) (4 * (k - NDIRECT)))"

definition mapped :: "kstate \<Rightarrow> nat \<Rightarrow> nat \<Rightarrow> bool" where
  "mapped s ip k \<longleftrightarrow> k < MAXFILE \<and> readable s (file_block s ip k)
     \<and> (NDIRECT \<le> k \<longrightarrow> readable s (i_addrs (icache s ip) ! NDIRECT))"

definition fbyte :: "kstate \<Rightarrow> nat \<Rightarrow> nat \<Rightarrow> u8" where
  "fbyte s ip x = cview s (file_block s ip (x div BSIZE)) ! (x mod BSIZE)"

lemma quiet_file:
  assumes "quiet s t"
  shows "file_block t = file_block s" "mapped t = mapped s" "fbyte t = fbyte s"
  using quietD [OF assms] by (simp_all add: file_block_def mapped_def fbyte_def fun_eq_iff)

lemma bmap_wp:
  assumes c: "cache_ready s" and d: "i_dev (icache s ip) = ROOTDEV" and m: "mapped s ip (unat bn)"
    and Q: "\<And>t. quiet s t \<Longrightarrow> Q (file_block s ip (unat bn)) t"
  shows "wp (bmap lr ip bn) Q s"
proof (cases "unat bn < NDIRECT")
  case True
  then have "i_addrs (icache s ip) ! unat bn \<noteq> 0" using m by (simp add: mapped_def readable_def file_block_def)
  then show ?thesis using True Q [OF quiet_refl [OF c]] by (simp add: bmap_def wpsimps file_block_def Let_def)
next
  case False
  let ?ind = "i_addrs (icache s ip) ! NDIRECT"
  have i: "readable s ?ind" "unat bn - NDIRECT < NINDIRECT" and nz: "file_block s ip (unat bn) \<noteq> 0" "?ind \<noteq> 0"
    using m False by (auto simp: mapped_def readable_def)
  show ?thesis unfolding bmap_def wp_bind wp_gets Let_def
    using False i(2) nz(2) d
  proof (simp add: wp_bind wp_gets wp_ret del: bind_run, intro locked_block_wp [OF c i(1)], goal_cases)
    case (1 bp t)
    have e: "get32 (b_data (bufs t bp)) (4 * (unat bn - NDIRECT)) = file_block s ip (unat bn)"
      using 1 False by (simp add: file_block_def)
    show ?case using nz(1) by (simp add: wp_bind wp_gets wp_if wp_ret e del: bind_run) (intro 1, simp add: wp_ret Q)
  qed
qed

lemma block_bytes:
  assumes c: "cache_ready s" and m: "m \<le> BSIZE - off mod BSIZE"
  shows "bslice (cview s (file_block s ip (off div BSIZE))) (off mod BSIZE) m = map (fbyte s ip) [off..<off + m]"
proof (rule nth_equalityI)
  have l: "length (cview s (file_block s ip (off div BSIZE))) = BSIZE" using c by (simp add: cache_ready_def)
  have lt: "off mod BSIZE < BSIZE" by simp
  then have le: "off mod BSIZE + m \<le> BSIZE" using m by linarith
  then show "length (bslice (cview s (file_block s ip (off div BSIZE))) (off mod BSIZE) m) = length (map (fbyte s ip) [off..<off + m])"
    using l by simp
  fix i assume "i < length (bslice (cview s (file_block s ip (off div BSIZE))) (off mod BSIZE) m)"
  then have i: "i < m" using le l by simp
  have o: "off = off div BSIZE * BSIZE + off mod BSIZE" "off mod BSIZE + i < BSIZE" using i le by simp_all
  have dv: "(off + i) div BSIZE = off div BSIZE" 
  proof (rule div_nat_eqI)
    show "off + i < BSIZE * Suc (off div BSIZE)" unfolding mult_Suc_right using o by linarith
  qed (use o in linarith)
  moreover have "(off + i) mod BSIZE = off mod BSIZE + i"
    using div_mult_mod_eq [of "off + i" BSIZE] o unfolding dv by linarith
  ultimately show "bslice (cview s (file_block s ip (off div BSIZE))) (off mod BSIZE) m ! i = map (fbyte s ip) [off..<off + m] ! i"
    using i le l by (simp add: nth_bslice fbyte_def)
qed

lemma unat_div_512: "unat (off div 512 :: u32) = unat off div 512"
  by (simp add: unat_div)

lemma readi_loop_wp:
  assumes "cache_ready s" and "i_dev (icache s ip) = ROOTDEV" and "unat off + n < 2 ^ 32"
    and "\<And>x. unat off \<le> x \<Longrightarrow> x < unat off + n \<Longrightarrow> mapped s ip (x div BSIZE)"
    and "\<And>t. quiet s t \<Longrightarrow> Q (map (fbyte s ip) [unat off..<unat off + n]) t"
  shows "wp (readi_loop lr ip off n) Q s"
  using assms
proof (induction n arbitrary: off s Q rule: less_induct)
  case (less n)
  show ?case
  proof (cases "n = 0")
    case True
    then show ?thesis using less.prems(5) [OF quiet_refl [OF less.prems(1)]] by (subst readi_loop.simps) (simp add: wp_ret)
  next
    case False
    define m where "m = min n (BSIZE - unat off mod BSIZE)"
    let ?b = "file_block s ip (unat off div BSIZE)"
    have m: "0 < m" "m \<le> n" "m \<le> BSIZE - unat off mod BSIZE" using False by (simp_all add: less_diff_conv m_def)
    have mp: "mapped s ip (unat (off div 512))" using less.prems(4) [of "unat off"] False by (simp add: unat_div_512)
    have off: "unat (off + of_nat m) = unat off + m"
    proof -
      have "unat (of_nat m :: u32) = m" using less.prems(3) m(2) by (simp add: unat_of_nat take_bit_nat_eq_self)
      then show ?thesis using less.prems(3) m(2) by (simp add: unat_word_ariths)
    qed
    have rest: "wp (readi_loop lr ip (off + of_nat m) (n - m)) (\<lambda>r. Q (map (fbyte s ip) [unat off..<unat off + m] @ r)) u"
      if u: "quiet s u" for u
    proof (rule less.IH)
      note D = quietD [OF u] quiet_file [OF u]
      show "n - m < n" using m False by linarith
      show "cache_ready u" "i_dev (icache u ip) = ROOTDEV" using D less.prems(1,2) by simp_all
      show "unat (off + of_nat m) + (n - m) < 2 ^ 32" using off less.prems(3) m(2) by simp
      show "mapped u ip (x div BSIZE)" if "unat (off + of_nat m) \<le> x" "x < unat (off + of_nat m) + (n - m)" for x
        using less.prems(4) [of x] that off m(2) D(8) by simp
      fix t assume "quiet u t"
      then have "quiet s t" using u quiet_trans by blast
      from less.prems(5) [OF this] show "Q (map (fbyte s ip) [unat off..<unat off + m] @ map (fbyte u ip) [unat (off + of_nat m)..<unat (off + of_nat m) + (n - m)]) t"
        using off m(2) D(9) upt_add_eq_append [of "unat off" "unat off + m" "n - m"] by (simp flip: map_append)
    qed
    show ?thesis
    proof (subst readi_loop.simps, simp only: False if_False wp_bind m_def [symmetric], rule bmap_wp [OF less.prems(1,2) mp], goal_cases)
      case (1 t)
      note D = quietD [OF 1] quiet_file [OF 1]
      have c: "cache_ready t" using D less.prems(1) by simp
      have r: "readable t ?b" using mp D by (simp add: mapped_def unat_div_512)
      have d: "i_dev (icache t ip) = ROOTDEV" using D less.prems(2) by simp
      have "wp (bread lr ROOTDEV ?b) (\<lambda>bp v. wp (brelse bp) (\<lambda>_. wp (readi_loop lr ip (off + of_nat m) (n - m))
          (\<lambda>r. Q (bslice (b_data (bufs v bp)) (unat off mod BSIZE) m @ r))) v) t"
      proof (rule locked_block_wp [OF c r])
        fix bp v assume b: "b_data (bufs v bp) = cview t ?b" and rel: "\<And>P. (\<And>u. quiet t u \<Longrightarrow> P () u) \<Longrightarrow> wp (brelse bp) P v"
        have e: "bslice (b_data (bufs v bp)) (unat off mod BSIZE) m = map (fbyte s ip) [unat off..<unat off + m]"
          unfolding b D(1) by (rule block_bytes [OF less.prems(1) m(3)])
        show "wp (brelse bp) (\<lambda>_. wp (readi_loop lr ip (off + of_nat m) (n - m))
          (\<lambda>r. Q (bslice (b_data (bufs v bp)) (unat off mod BSIZE) m @ r))) v"
          unfolding e by (rule rel) (rule rest, rule quiet_trans [OF 1])
      qed
      then show ?case by (simp only: wp_bind_fun wp_gets_fun wp_ret_fun d unat_div_512)
    qed
  qed
qed

text \<open>An inode of the root disk whose blocks are all mapped and not locked by anyone.\<close>

definition file_ok :: "kstate \<Rightarrow> nat \<Rightarrow> bool" where
  "file_ok s ip \<longleftrightarrow> i_dev (icache s ip) = ROOTDEV \<and> i_type (icache s ip) \<noteq> T_DEV
     \<and> (\<forall>x<unat (i_size (icache s ip)). mapped s ip (x div BSIZE))"

lemma quiet_file_ok: "quiet s t \<Longrightarrow> file_ok t = file_ok s"
  using quietD [of s t] quiet_file [of s t] by (simp add: file_ok_def fun_eq_iff)

lemma readi_wp:
  assumes c: "cache_ready s" and f: "file_ok s ip" and o: "off \<le> i_size (icache s ip)" "unat off + unat n < 2 ^ 32"
    and Q: "\<And>t. quiet s t \<Longrightarrow> Q (sint (min n (i_size (icache s ip) - off)),
       map (fbyte s ip) [unat off..<min (unat off + unat n) (unat (i_size (icache s ip)))]) t"
  shows "wp (readi lr ip off n) Q s"
proof -
  let ?sz = "i_size (icache s ip)"
  have ol: "unat off \<le> unat ?sz" using o(1) by (simp add: word_le_nat_alt)
  have on: "unat (off + n) = unat off + unat n" using o(2) by (simp add: unat_word_ariths)
  have od: "unat (?sz - off) = unat ?sz - unat off" using o(1) by (rule unat_sub)
  define k where "k = (if ?sz < off + n then ?sz - off else n)"
  have k: "k = min n (?sz - off)"
    using on od ol by (auto simp: k_def min_def word_less_nat_alt word_le_nat_alt)
  have uk: "unat off + unat k = min (unat off + unat n) (unat ?sz)"
    using on od ol by (auto simp: k_def min_def word_less_nat_alt)
  have "wp (readi_loop lr ip off (unat k)) (\<lambda>d. Q (sint k, d)) s"
  proof (rule readi_loop_wp [OF c])
    show "i_dev (icache s ip) = ROOTDEV" using f by (simp add: file_ok_def)
    show "unat off + unat k < 2 ^ 32" using uk o(2) by simp
    show "mapped s ip (x div BSIZE)" if "x < unat off + unat k" for x using that uk f by (simp add: file_ok_def)
    show "Q (sint k, map (fbyte s ip) [unat off..<unat off + unat k]) t" if "quiet s t" for t
      using Q [OF that] unfolding k [symmetric] uk .
  qed
  moreover have "\<not> (?sz < off \<or> off + n < off)" using ol on by (simp add: word_less_nat_alt)
  moreover have "i_type (icache s ip) \<noteq> T_DEV" using f by (simp add: file_ok_def)
  ultimately show ?thesis
    by (simp only: readi_def wp_bind_fun wp_gets_fun wp_ret_fun Let_def if_False k_def [symmetric])
qed

text \<open>
  Property (C8). \<^verbatim>\<open>readi\<close> reads the file: for an inode whose blocks are mapped, direct or indirect, it returns exactly the bytes
  of the file from \<^verbatim>\<open>off\<close> on, at most \<^verbatim>\<open>n\<close> and not beyond the size, with their number, across block boundaries; nothing that the rest of the
  kernel can see changes. An offset behind the end, or an overflow of \<^verbatim>\<open>off + n\<close>, gives \<open>-1\<close>.
\<close>

theorem readi_correct:
  assumes "cache_ready s" and "file_ok s ip" and "sz = i_size (icache s ip)"
  shows "if sz < off \<or> 2 ^ 32 \<le> unat off + unat n then readi lr ip off n s = Ret (-1, []) s
    else \<exists>t. readi lr ip off n s =
        Ret (sint (min n (sz - off)), map (fbyte s ip) [unat off..<min (unat off + unat n) (unat sz)]) t \<and> quiet s t"
proof (cases "sz < off \<or> 2 ^ 32 \<le> unat off + unat n")
  case True
  have "off + n < off" if "2 ^ 32 \<le> unat off + unat n"
  proof -
    have l: "unat off < 2 ^ 32" "unat n < 2 ^ 32" using unsigned_less [of off] unsigned_less [of n] by simp_all
    have "unat (off + n) = (unat off + unat n) mod 2 ^ 32" by (simp add: unat_word_ariths)
    also have "\<dots> = (unat off + unat n - 2 ^ 32) mod 2 ^ 32" by (rule le_mod_geq [OF that])
    also have "\<dots> = unat off + unat n - 2 ^ 32" using l by (intro mod_less) linarith
    finally have "unat (off + n) < unat off" using l that by linarith
    then show ?thesis by (simp add: word_less_nat_alt)
  qed
  then have "sz < off \<or> off + n < off" using True by blast
  then have "readi lr ip off n s = Ret (-1, []) s" using assms(2,3) by (simp add: readi_def file_ok_def)
  with True show ?thesis by simp
next
  case False
  have "wp (readi lr ip off n) (\<lambda>r t. r = (sint (min n (sz - off)), map (fbyte s ip) [unat off..<min (unat off + unat n) (unat sz)])
      \<and> quiet s t) s"
    by (rule readi_wp [OF assms(1,2)]) (use False assms(3) in auto)
  then show ?thesis unfolding if_not_P [OF False] by (rule wpE) blast
qed

subsection \<open>The inode cache\<close>

definition cached :: "kstate \<Rightarrow> u32 \<Rightarrow> u32 \<Rightarrow> nat \<Rightarrow> bool" where
  "cached s dev inum i \<longleftrightarrow> 0 < i_ref (icache s i) \<and> i_dev (icache s i) = dev \<and> i_inum (icache s i) = inum"

text \<open>No inode is in the cache twice.\<close>

definition icache_ok :: "kstate \<Rightarrow> bool" where
  "icache_ok s \<longleftrightarrow> (\<forall>i<NINODE. 0 \<le> i_ref (icache s i))
     \<and> (\<forall>i<NINODE. \<forall>j<NINODE. \<forall>dev inum. cached s dev inum i \<and> cached s dev inum j \<longrightarrow> i = j)"

text \<open>Entry \<open>ip\<close> is the inode, with one more reference; it is the entry in use, or else one that was free.\<close>

definition got_inode :: "kstate \<Rightarrow> u32 \<Rightarrow> u32 \<Rightarrow> nat \<Rightarrow> kstate \<Rightarrow> bool" where
  "got_inode s dev inum ip t \<longleftrightarrow> ip < NINODE \<and> icache_ok t \<and> cached t dev inum ip
      \<and> i_ref (icache t ip) = i_ref (icache s ip) + 1 \<and> (\<forall>j. j \<noteq> ip \<longrightarrow> icache t j = icache s j)
      \<and> (if cached s dev inum ip then icache t ip = (icache s ip)\<lparr>i_ref := i_ref (icache s ip) + 1\<rparr>
         else i_ref (icache s ip) = 0 \<and> \<not> i_valid (icache t ip))"

text \<open>
  Property (C18). \<^verbatim>\<open>iget\<close> keeps the inode cache free of duplicates: it returns the entry for the inode with one more reference, the one
  already in use if there is one, with its content, else an unused one, marked not valid; no other entry changes. It panics exactly when the
  inode is not cached and every entry is in use.
\<close>

theorem iget_unique:
  assumes "icache_ok s" and "Lk_icache \<notin> set (held s)"
  shows "if (\<exists>i<NINODE. cached s dev inum i) \<or> (\<exists>i<NINODE. i_ref (icache s i) = 0)
    then \<exists>ip t. iget dev inum s = Ret ip t \<and> got_inode s dev inum ip t
    else iget dev inum s = Panic ''iget: no inodes''"
proof (cases "find (\<lambda>i. cached s dev inum i) [0..<NINODE]")
  case (Some ip)
  then have ip: "ip < NINODE" "cached s dev inum ip" by (auto simp: find_upt_Some)
  let ?t = "s\<lparr>icache := (icache s)(ip := (icache s ip)\<lparr>i_ref := i_ref (icache s ip) + 1\<rparr>)\<rparr>"
  have r: "iget dev inum s = Ret ip ?t" using Some assms(2) by (simp add: iget_def cached_def)
  have c: "cached ?t d n i \<longleftrightarrow> cached s d n i" for d n i using ip by (auto simp: cached_def)
  have "icache_ok ?t" using assms(1) unfolding icache_ok_def c by auto
  then have "\<exists>t. iget dev inum s = Ret ip t \<and> got_inode s dev inum ip t"
    using r ip c by (intro exI [of _ ?t]) (simp add: got_inode_def)
  moreover have "\<exists>i<NINODE. cached s dev inum i" using ip by blast
  ultimately show ?thesis by auto
next
  case None
  then have n: "\<not> cached s dev inum i" if "i < NINODE" for i using that by (simp add: find_None_iff)
  show ?thesis
  proof (cases "find (\<lambda>i. i_ref (icache s i) = 0) [0..<NINODE]")
    case N: None
    then have "iget dev inum s = Panic ''iget: no inodes''" using None assms(2) by (simp add: iget_def cached_def)
    moreover have "i_ref (icache s i) \<noteq> 0" if "i < NINODE" for i using N that by (simp add: find_None_iff)
    ultimately show ?thesis using n by auto
  next
    case (Some ip)
    then have ip: "ip < NINODE" "i_ref (icache s ip) = 0" by (auto simp: find_upt_Some)
    let ?t = "s\<lparr>icache := (icache s)(ip := (icache s ip)\<lparr>i_dev := dev, i_inum := inum, i_ref := 1, i_valid := False\<rparr>)\<rparr>"
    have r: "iget dev inum s = Ret ip ?t" using Some None assms(2) by (simp add: iget_def cached_def)
    have c: "cached ?t d k i \<longleftrightarrow> (if i = ip then d = dev \<and> k = inum else cached s d k i)" for d k i by (auto simp: cached_def)
    have "icache_ok ?t" unfolding icache_ok_def c
    proof (intro conjI allI impI)
      show "0 \<le> i_ref (icache ?t i)" if "i < NINODE" for i using assms(1) that by (simp add: icache_ok_def)
      show "i = j" if "i < NINODE" "j < NINODE"
        "(if i = ip then d = dev \<and> k = inum else cached s d k i) \<and> (if j = ip then d = dev \<and> k = inum else cached s d k j)" for i j d k
        using that n assms(1) unfolding icache_ok_def by (cases "i = ip"; cases "j = ip") (simp_all, blast)
    qed
    then have "\<exists>t. iget dev inum s = Ret ip t \<and> got_inode s dev inum ip t"
      using r ip c n [OF ip(1)] by (intro exI [of _ ?t]) (simp add: got_inode_def)
    moreover have "\<exists>i<NINODE. i_ref (icache s i) = 0" using ip by blast
    ultimately show ?thesis by auto
  qed
qed

subsection \<open>Directories\<close>

text \<open>Entry \<open>k\<close> of a directory.\<close>

definition dir_entry :: "kstate \<Rightarrow> nat \<Rightarrow> nat \<Rightarrow> dirent" where
  "dir_entry s dp k = get_dirent (map (fbyte s dp) [16 * k..<16 * k + 16])"

definition dir_match :: "kstate \<Rightarrow> nat \<Rightarrow> u8 list \<Rightarrow> nat \<Rightarrow> bool" where
  "dir_match s dp name k \<longleftrightarrow> de_inum (dir_entry s dp k) \<noteq> 0 \<and> namecmp name (de_name (dir_entry s dp k)) = 0"

lemma quiet_dir:
  assumes "quiet s t"
  shows "dir_entry t = dir_entry s" and "dir_match t = dir_match s"
proof -
  show e: "dir_entry t = dir_entry s" by (intro ext) (simp only: dir_entry_def quiet_file [OF assms])
  show "dir_match t = dir_match s" by (intro ext) (simp only: dir_match_def e)
qed

lemma readi_entry:
  assumes c: "cache_ready s" and f: "file_ok s dp" and k: "16 * k + 16 \<le> unat (i_size (icache s dp))"
  shows "\<exists>t d. readi lr dp (of_nat (16 * k)) 16 s = Ret (16, d) t \<and> get_dirent d = dir_entry s dp k \<and> quiet s t"
proof -
  let ?sz = "i_size (icache s dp)"
  have sz: "unat ?sz < 2 ^ 32" using unsigned_less [of ?sz] by simp
  then have u: "unat (of_nat (16 * k) :: u32) = 16 * k" using k by (simp add: unat_of_nat take_bit_nat_eq_self del: of_nat_mult)
  have le: "of_nat (16 * k) \<le> ?sz" using u k by (simp add: word_le_nat_alt del: of_nat_mult)
  have "unat (?sz - of_nat (16 * k)) = unat ?sz - 16 * k" using unat_sub [OF le] u by (simp del: of_nat_mult)
  with k have "16 \<le> unat (?sz - of_nat (16 * k))" by linarith
  then have m: "min 16 (?sz - of_nat (16 * k)) = 16" by (simp add: min_def word_le_nat_alt del: of_nat_mult)
  have "wp (readi lr dp (of_nat (16 * k)) 16) (\<lambda>r t. \<exists>d. r = (16, d) \<and> get_dirent d = dir_entry s dp k \<and> quiet s t) s"
    by (rule readi_wp [OF c f le]) (use u k sz m in \<open>auto simp: dir_entry_def simp del: of_nat_mult\<close>)
  then show ?thesis by (rule wpE) blast
qed

definition dir_result :: "kstate \<Rightarrow> nat \<Rightarrow> nat option \<Rightarrow> (nat \<times> u32) option kM" where
  "dir_result s dp k = (case k of
     None \<Rightarrow> ret None
   | Some k \<Rightarrow> bind (iget ROOTDEV (ucast (de_inum (dir_entry s dp k)))) (\<lambda>ip. ret (Some (ip, of_nat (16 * k)))))"

lemma quiet_dir_result: "quiet s t \<Longrightarrow> dir_result t = dir_result s"
  by (intro ext) (simp only: dir_result_def quiet_dir(1))

lemma dirlookup_from_run:
  assumes "cache_ready s" and "file_ok s dp" and "unat (i_size (icache s dp)) = 16 * n" and "j \<le> n"
  shows "\<exists>t. quiet s t \<and> dirlookup_from lr dp name (16 * n) (16 * j) s = dir_result s dp (find (dir_match s dp name) [j..<n]) t"
  using assms
proof (induction "n - j" arbitrary: s j)
  case 0
  then have "dirlookup_from lr dp name (16 * n) (16 * j) s = Ret None s" by (subst dirlookup_from.simps) simp
  then show ?case using 0 quiet_refl [OF 0(2)] by (intro exI [of _ s]) (simp add: dir_result_def)
next
  case (Suc m)
  then have j: "j < n" by simp
  obtain t d where r: "readi lr dp (of_nat (16 * j)) 16 s = Ret (16, d) t" and d: "get_dirent d = dir_entry s dp j" and q: "quiet s t"
    using readi_entry [OF Suc.prems(1,2), of j lr] Suc.prems(3) j by auto
  note D = quietD [OF q] quiet_dir [OF q]
  have dv: "i_dev (icache t dp) = ROOTDEV" using Suc.prems(2) D by (simp add: file_ok_def)
  have nx: "16 * j + 16 = 16 * (j + 1)" by simp
  have step: "dirlookup_from lr dp name (16 * n) (16 * j) s =
     (if dir_match s dp name j then dir_result s dp (Some j) t else dirlookup_from lr dp name (16 * n) (16 * (j + 1)) t)"
    using r j dv by (subst dirlookup_from.simps) (simp add: d dir_match_def dir_result_def Let_def nx del: of_nat_mult)
  have up: "[j..<n] = j # [j + 1..<n]" using j by (simp add: upt_conv_Cons)
  show ?case
  proof (cases "dir_match s dp name j")
    case True
    then show ?thesis using q step up by auto
  next
    case False
    have "\<exists>u. quiet t u \<and> dirlookup_from lr dp name (16 * n) (16 * (j + 1)) t = dir_result t dp (find (dir_match t dp name) [j + 1..<n]) u"
      by (rule Suc.hyps(1)) (use Suc.hyps(2) Suc.prems D quiet_file_ok [OF q] j in auto)
    then show ?thesis using False step up D quiet_dir_result [OF q] quiet_trans [OF q] by auto
  qed
qed

text \<open>
  Property (C9). \<^verbatim>\<open>dirlookup\<close> finds the first entry in use whose name matches, reports its offset and hands its inode number to \<^verbatim>\<open>iget\<close>; with no
  such entry it returns a null pointer. Reading the directory changes nothing that the rest of the kernel can see. What is not a directory is a panic.
\<close>

theorem dirlookup_correct:
  assumes "cache_ready s" and "file_ok s dp" and "unat (i_size (icache s dp)) = 16 * n"
  shows "if i_type (icache s dp) = T_DIR then
      (case find (dir_match s dp name) [0..<n] of
         None \<Rightarrow> \<exists>t. quiet s t \<and> dirlookup lr dp name s = Ret None t
       | Some k \<Rightarrow> \<exists>t. quiet s t \<and> dirlookup lr dp name s =
           bind (iget ROOTDEV (ucast (de_inum (dir_entry s dp k)))) (\<lambda>ip. ret (Some (ip, of_nat (16 * k)))) t)
    else dirlookup lr dp name s = Panic ''dirlookup not DIR''"
  using dirlookup_from_run [OF assms, of 0 lr name] assms(3)
  by (auto simp: dirlookup_def dir_result_def simp del: of_nat_mult split: option.splits)

subsection \<open>A file to try the theorems on\<close>

text \<open>A machine with every disk block holding one directory entry (7, \<open>a\<close>) and zeros, after \<^verbatim>\<open>binit\<close>; inode 0 of the cache has two blocks.\<close>

definition dirblock :: "u8 list" where
  "dirblock = [7, 0, 97] @ replicate 509 0"

definition demo_inode :: inode where
  "demo_inode = inode0\<lparr>i_dev := ROOTDEV, i_inum := 1, i_ref := 1, i_valid := True,
     i_type := T_DIR, i_size := 1024, i_addrs := replicate 13 5\<rparr>"

definition demo_file :: "kstate \<Rightarrow> bool" where
  "demo_file s \<longleftrightarrow> cache_ready s \<and> file_ok s 0 \<and> icache s 0 = demo_inode \<and> (\<forall>x<1024. fbyte s 0 x = dirblock ! (x mod BSIZE))"

lemma demo_file_ex: "\<exists>s. demo_file s"
proof -
  let ?k = "kstate0 (\<lambda>_ _. dirblock)"
  have z: "core (bufs ?k i) = core buf0" for i by (simp add: kstate0_def)
  have d: "length (disk ?k d n) = BSIZE" for d n by (simp add: kstate0_def dirblock_def)
  obtain B where c: "\<forall>i. core (B i) = core buf0" and ok: "cache_ok (?k\<lparr>bufs := B\<rparr>)" and cv: "cview (?k\<lparr>bufs := B\<rparr>) = dsk ?k ROOTDEV"
    by (rule binit_run [OF z d])
  let ?s = "?k\<lparr>bufs := B, icache := (\<lambda>_. demo_inode)\<rparr>"
  have b: "lkd (?k\<lparr>bufs := B\<rparr>) = {}" "dty (?k\<lparr>bufs := B\<rparr>) = {}" using bready0 [of "?k\<lparr>bufs := B\<rparr>"] c by simp_all
  have r: "ide_ready (?k\<lparr>bufs := B\<rparr>)" by (simp add: ide_ready_def kstate0_def)
  have cr: "cache_ready ?s" using ok b r by (simp add: cache_ready_def)
  have f: "file_block ?s 0 k = 5" if "k < 12" for k using that by (simp add: file_block_def demo_inode_def)
  have m: "mapped ?s 0 (x div BSIZE)" if "x < 1024" for x
  proof -
    have "x div BSIZE < 2" using that by (simp add: div_less_iff_less_mult)
    then show ?thesis using f [of "x div BSIZE"] b by (simp add: mapped_def readable_def)
  qed
  have fo: "file_ok ?s 0" using m by (simp add: file_ok_def demo_inode_def)
  have "fbyte ?s 0 x = dirblock ! (x mod BSIZE)" if "x < 1024" for x
  proof -
    have "x div BSIZE < 12" using that by (simp add: div_less_iff_less_mult)
    moreover have "dsk ?k ROOTDEV = (\<lambda>_. dirblock)" by (simp add: dsk_def kstate0_def fun_eq_iff)
    ultimately show ?thesis using f cv by (simp add: fbyte_def)
  qed
  with cr fo have "demo_file ?s" by (simp add: demo_file_def)
  then show ?thesis by blast
qed

theorem readi_correct_witness:
  "\<exists>s t. demo_file s \<and> readi (\<lambda>_. panic []) 0 510 4 s = Ret (4, [0, 0, 7, 0]) t \<and> quiet s t"
proof -
  obtain s where s: "demo_file s" using demo_file_ex by blast
  then have d: "cache_ready s" "file_ok s 0" "i_size (icache s 0) = 1024" "\<And>x. x < 1024 \<Longrightarrow> fbyte s 0 x = dirblock ! (x mod BSIZE)"
    by (simp_all add: demo_file_def demo_inode_def)
  have u: "[510..<514] = [510, 511, 512, 513]" by (simp add: upt_rec)
  from readi_correct [OF d(1,2) d(3) [symmetric], of 510 4 "\<lambda>_. panic []"] s show ?thesis
    by (auto simp: u d(4) dirblock_def nth_append nth_Cons' min_def)
qed

theorem iget_unique_witness:
  "\<exists>ip t. iget 1 7 (kstate0 zdisk) = Ret ip t \<and> got_inode (kstate0 zdisk) 1 7 ip t"
proof -
  have "icache_ok (kstate0 zdisk)" by (simp add: icache_ok_def cached_def kstate0_def inode0_def)
  moreover have "\<exists>i<NINODE. i_ref (icache (kstate0 zdisk) i) = 0" by (intro exI [of _ 0]) (simp add: kstate0_def inode0_def)
  moreover have "Lk_icache \<notin> set (held (kstate0 zdisk))" by (simp add: kstate0_def)
  ultimately show ?thesis using iget_unique [of "kstate0 zdisk" 1 7] by simp
qed

lemma replicate_eq_demo: "replicate 13 (0 :: u8) = [0, 0, 0, 0, 0, 0, 0, 0, 0, 0, 0, 0, 0]"
  by (simp add: numeral_eq_Suc)

theorem dirlookup_correct_witness:
  "\<exists>s t. demo_file s \<and> quiet s t \<and>
     dirlookup (\<lambda>_. panic []) 0 [97, 0] s = bind (iget ROOTDEV 7) (\<lambda>ip. ret (Some (ip, 0))) t"
proof -
  obtain s where s: "demo_file s" using demo_file_ex by blast
  then have d: "cache_ready s" "file_ok s 0" "unat (i_size (icache s 0)) = 16 * 64" "i_type (icache s 0) = T_DIR"
    "\<And>x. x < 1024 \<Longrightarrow> fbyte s 0 x = dirblock ! (x mod BSIZE)"
    by (simp_all add: demo_file_def demo_inode_def)
  have e: "dir_entry s 0 0 = \<lparr>de_inum = 7, de_name = 97 # replicate 13 0\<rparr>"
    by (simp add: dir_entry_def upt_rec d(5) dirblock_def nth_append nth_Cons' get_dirent_def bslice_def get16_def word16_def replicate_eq_demo)
  have "dir_match s 0 [97, 0] 0" by (simp add: dir_match_def e namecmp_def strncmp_eq replicate_eq_demo)
  then have f: "find (dir_match s 0 [97, 0]) [0..<64] = Some 0" by (simp add: find_upt_Some)
  from dirlookup_correct [OF d(1-3), where name = "[97, 0]" and lr = "\<lambda>_. panic []"] s show ?thesis by (auto simp: f d(4) e)
qed

end
