(* ===== verification/Transaction.thy ===== *)
theory Transaction
  imports Log_Write
begin

text \<open>
  Updating blocks inside an open transaction. \<open>tx k s\<close> says that the current operation may still
  log \<open>k\<close> blocks of the root disk; the rules of this theory are the laws the file system relies on
  for \<^verbatim>\<open>bread\<close>, \<^verbatim>\<open>log_write\<close> and \<^verbatim>\<open>brelse\<close>: a block read is the block's content, a block logged
  is the new content for every later reader, and nothing else changes.
\<close>

subsection \<open>What a file system operation may change below it\<close>

definition fframe :: "kstate \<Rightarrow> kstate \<Rightarrow> bool" where
  "fframe s t \<longleftrightarrow> bframe (s\<lparr>log := log t\<rparr>) t"

lemma fframe_refl [simp]: "fframe s s"
  by (simp add: fframe_def)

lemma fframe_unfold:
  "fframe s t \<longleftrightarrow> t = s\<lparr>log := log t, bufs := bufs t, ptable := ptable t\<rparr> \<and> same_procs (ptable s) (ptable t)"
  by (simp add: fframe_def bframe_def)

lemma fframe_trans:
  assumes "fframe s t" and "fframe t u"
  shows "fframe s u"
proof -
  have "u = (s\<lparr>log := log t, bufs := bufs t, ptable := ptable t\<rparr>)\<lparr>log := log u, bufs := bufs u, ptable := ptable u\<rparr>"
    using assms unfolding fframe_unfold by metis
  also have "\<dots> = s\<lparr>log := log u, bufs := bufs u, ptable := ptable u\<rparr>" by simp
  finally show ?thesis using assms same_procs_trans unfolding fframe_unfold by blast
qed

lemma bframe_fframe: "bframe s t \<Longrightarrow> fframe s t"
  using bframeD(13) [of s t] by (simp add: fframe_def)

lemma fframeD:
  assumes "fframe s t"
  shows "held t = held s" "curproc t = curproc s" "initproc t = initproc s" "nextpid t = nextpid s"
    "nstable t = nstable s" "pid_ns_table t = pid_ns_table s" "disk t = disk s" "dtrace t = dtrace s"
    "sb t = sb s" "loop_log t = loop_log s" "is_loop_mounted t = is_loop_mounted s"
    "icache t = icache s" "loopdevtable t = loopdevtable s" "gmnttable t = gmnttable s"
    "pmntlist t = pmntlist s" "prootmnt t = prootmnt s" "ftable t = ftable s"
    "dsk t = dsk s" "ide_ready t = ide_ready s" "mylock t = mylock s"
  using bframeD [OF assms [unfolded fframe_def]] by (simp_all add: mylock_def)

lemma fframe_others_holds:
  assumes "others b s t" and "fframe s t" and "holds s c bn" and "c \<noteq> b"
  shows "holds t c bn"
proof -
  have "core (bufs t c) = core (bufs s c)"
    using assms unfolding others_def by (simp add: holds_def)
  then show ?thesis
    using assms(3) coreD [of "bufs t c" "bufs s c"] fframeD(20) [OF assms(2)]
    by (simp add: holds_def my_buf_def is_for_def)
qed

lemma others_trans:
  assumes "others b s t" and "others b t u"
  shows "others b s u"
  unfolding others_def
proof (intro allI impI)
  fix i assume i: "i < NBUF" "i \<noteq> b \<and> sl_locked (b_lock (bufs s i))"
  then have c: "core (bufs t i) = core (bufs s i)" using assms(1) unfolding others_def by blast
  then have "b_lock (bufs t i) = b_lock (bufs s i)" by (rule coreD)
  with i assms(2) have "core (bufs u i) = core (bufs t i)" unfolding others_def by simp
  with c show "core (bufs u i) = core (bufs s i)" by simp
qed

subsection \<open>Open transactions\<close>

definition tx :: "nat \<Rightarrow> kstate \<Rightarrow> bool" where
  "tx k s \<longleftrightarrow> cache_ok s \<and> ide_ready s \<and> dty s = Pair ROOTDEV ` set (logged (log s))
   \<and> 0 \<le> lh_n (log s) \<and> 1 \<le> l_outstanding (log s)
   \<and> lh_n (log s) + int k \<le> LOGSIZE \<and> lh_n (log s) + int k \<le> l_size (log s) - 1"

lemma txD:
  assumes "tx k s"
  shows "cache_ok s" "ide_ready s" "dty s = Pair ROOTDEV ` set (logged (log s))" "0 \<le> lh_n (log s)"
    "1 \<le> l_outstanding (log s)" "lh_n (log s) + int k \<le> LOGSIZE" "held s = []"
  using assms by (simp_all add: tx_def ide_ready_def)

lemma tx_mono: "tx k s \<Longrightarrow> j \<le> k \<Longrightarrow> tx j s"
  by (simp add: tx_def)

lemma tx_icache [simp]: "tx k (s\<lparr>icache := c\<rparr>) = tx k s"
  by (simp add: tx_def)

lemma card_dty_tx: "tx k s \<Longrightarrow> int (card (dty s)) \<le> lh_n (log s)"
proof -
  assume t: "tx k s"
  have "card (dty s) \<le> card (set (logged (log s)))" unfolding txD(3) [OF t] by (rule card_image_le) simp
  also have "\<dots> \<le> length (logged (log s))" by (rule card_length)
  finally show ?thesis using txD(4) [OF t] by (simp add: logged_def)
qed

lemma tx_cong:
  assumes "tx k s" and "cache_ok t" and "dty t = dty s" and "log t = log s" and "ide_ready t"
  shows "tx k t"
  using assms by (simp add: tx_def)

subsection \<open>The rules\<close>

lemma tx_bread:
  assumes t: "tx k s" and bn: "unat bn < FSSIZE" "(ROOTDEV, bn) \<notin> lkd s" and c: "card (lkd s) < k"
  obtains b t where "bread lr ROOTDEV bn s = Ret b t" and "tx k t" and "fframe s t" and "log t = log s"
    and "cview t = cview s" and "holds t b bn" and "others b s t" and "lkd t = insert (ROOTDEV, bn) (lkd s)"
    and "dty t = dty s" and "\<not> sl_locked (b_lock (bufs s b))"
    and "(ROOTDEV, bn) \<in> dty t \<or> cview t bn = dsk t ROOTDEV bn"
    and "b_data (bufs t b) = cview s bn" and "length (cview s bn) = BSIZE"
proof -
  have "card (dty s \<union> lkd s) \<le> card (dty s) + card (lkd s)" by (rule card_Un_le)
  then have "card (dty s \<union> lkd s) < NBUF" using card_dty_tx [OF t] txD(6) [OF t] c by linarith
  then have "wp (bread lr ROOTDEV bn) (bread_post s bn) s"
    by (intro bread_wp txD(1,2) [OF t] bn) simp_all
  then obtain b u where r: "bread lr ROOTDEV bn s = Ret b u" and p: "bread_post s bn b u" by (rule wpE)
  note p = p [unfolded bread_post_def]
  from p have fr: "bframe s u" by blast
  have "tx k u" by (rule tx_cong [OF t]) (use p bframeD(13,23) [OF fr] txD(2) [OF t] in simp_all)
  moreover have "b_data (bufs u b) = cview s bn" using p holds_cview [of u b bn] by simp
  moreover have "length (cview s bn) = BSIZE" by (rule length_cview [OF txD(1) [OF t]])
  ultimately show ?thesis
    using that r p bframe_fframe [OF fr] bframeD(13,22) [OF fr] by simp
qed

lemma tx_log_write:
  assumes t: "tx (Suc k) t" and h: "holds t b bn" and d: "length d = BSIZE"
  obtains v where "log_write b (t\<lparr>bufs := (bufs t)(b := (bufs t b)\<lparr>b_data := d\<rparr>)\<rparr>) = Ret () v"
    and "tx k v" and "fframe t v" and "cview v = (cview t)(bn := d)" and "holds v b bn" and "others b t v"
    and "lkd v = lkd t" and "(ROOTDEV, bn) \<in> dty v" and "log v = log_add (log t) bn"
proof -
  let ?t = "t\<lparr>bufs := (bufs t)(b := (bufs t b)\<lparr>b_data := d\<rparr>)\<rparr>"
  have e: "?t = bmod t b d (b_dirty (bufs t b))" by (simp add: bmod_def)
  note m = bmod_post [OF txD(1) [OF t] h d, of "b_dirty (bufs t b)", folded e]
  have fr: "bframe t ?t" unfolding e by (rule bmod_bframe)
  have r: "ide_ready ?t" and l: "log ?t = log t" using bframeD(13,23) [OF fr] txD(2) [OF t] by simp_all
  have lo: "log_ok (log ?t)" using t unfolding l by (simp add: tx_def log_ok_def)
  have dd: "insert (ROOTDEV, bn) (dty ?t) = insert (ROOTDEV, bn) (dty t)" using m(6) by auto
  have w: "wp (log_write b) (\<lambda>_ u. bframe (?t\<lparr>log := log_add (log ?t) bn\<rparr>) u \<and> cache_ok u \<and> cview u = cview ?t
      \<and> holds u b bn \<and> lkd u = lkd ?t \<and> dty u = insert (ROOTDEV, bn) (dty ?t) \<and> others b ?t u) ?t"
    by (rule log_write_wp [OF m(1) r m(3) lo]) simp
  then obtain v where v: "log_write b ?t = Ret () v" "bframe (?t\<lparr>log := log_add (log t) bn\<rparr>) v" "cache_ok v"
      "cview v = cview ?t" "holds v b bn" "lkd v = lkd ?t" "dty v = insert (ROOTDEV, bn) (dty ?t)" "others b ?t v"
    using wp_unit [OF w] unfolding l by blast
  have lv: "log v = log_add (log t) bn" using bframeD(13) [OF v(2)] by simp
  have iv: "ide_ready v" using bframeD(23) [OF v(2)] r by simp
  have fv: "fframe t v"
    using fr v(2) unfolding fframe_unfold bframe_def by (auto simp: lv)
  have "tx k v"
    using t logged_add [of "log t" bn] v(3,7) iv unfolding tx_def lv dd by auto
  moreover have "others b t v" using m(4) v(8) by (auto simp: others_def)
  ultimately show ?thesis using that v m fv lv by simp
qed

lemma tx_brelse:
  assumes t: "tx k t" and h: "holds t b bn" and sy: "(ROOTDEV, bn) \<in> dty t \<or> cview t bn = dsk t ROOTDEV bn"
  obtains u where "brelse b t = Ret () u" and "tx k u" and "fframe t u" and "cview u = cview t" and "others b t u"
    and "lkd u = lkd t - {(ROOTDEV, bn)}" and "dty u = dty t" and "log u = log t"
proof -
  have "wp (brelse b) (\<lambda>_. brelse_post t b bn) t" by (rule brelse_wp [OF txD(1,2) [OF t] h sy])
  then obtain u where r: "brelse b t = Ret () u" and p: "brelse_post t b bn u" using wp_unit by metis
  note p = p [unfolded brelse_post_def]
  from p have fr: "bframe t u" by blast
  have "tx k u" by (rule tx_cong [OF t]) (use p bframeD(13,23) [OF fr] txD(2) [OF t] in simp_all)
  then show ?thesis using that r p bframe_fframe [OF fr] bframeD(13) [OF fr] by blast
qed

text \<open>
  The whole idiom. Between \<open>bread\<close> and \<open>brelse\<close> stand one assignment to the data and \<open>log_write\<close>.
\<close>

lemma tx_put:
  assumes t: "tx (Suc k) t" and h: "holds t b bn" and d: "length d = BSIZE"
  obtains v u where "log_write b (t\<lparr>bufs := (bufs t)(b := (bufs t b)\<lparr>b_data := d\<rparr>)\<rparr>) = Ret () v"
    and "brelse b v = Ret () u" and "tx k u" and "fframe t u" and "cview u = (cview t)(bn := d)"
    and "others b t u" and "lkd u = lkd t - {(ROOTDEV, bn)}" and "log u = log_add (log t) bn"
proof -
  obtain v where v: "log_write b (t\<lparr>bufs := (bufs t)(b := (bufs t b)\<lparr>b_data := d\<rparr>)\<rparr>) = Ret () v"
    "tx k v" "fframe t v" "cview v = (cview t)(bn := d)" "holds v b bn" "others b t v"
    "lkd v = lkd t" "(ROOTDEV, bn) \<in> dty v" "log v = log_add (log t) bn"
    by (rule tx_log_write [OF assms])
  obtain u where u: "brelse b v = Ret () u" "tx k u" "fframe v u" "cview u = cview v" "others b v u"
    "lkd u = lkd v - {(ROOTDEV, bn)}" "log u = log v"
    by (rule tx_brelse [OF v(2,5)]) (use v(8) in auto)
  have "others b t u" by (rule others_trans [OF v(6) u(5)])
  then show ?thesis using that v u fframe_trans [OF v(3) u(3)] by simp
qed

end
