(* ===== verification/Fs_Alloc.thy ===== *)
theory Fs_Alloc
  imports Inode Transaction
begin

text \<open>
  Free blocks: the bits of the bitmap, and \<^verbatim>\<open>balloc\<close> and \<^verbatim>\<open>bfree\<close> as operations on the set \<open>freeset\<close>
  of free blocks. \<open>stepped k s u\<close> is the effect every file system operation has on the layers below:
  only blocks were logged, \<open>k\<close> more may be, and buffers locked before are as they were.
  A disk of \<open>FSSIZE\<close> blocks, the most \<^verbatim>\<open>iderw\<close> accepts, has one bitmap block.
\<close>

subsection \<open>Bits of the bitmap\<close>

lemma bit_used_iff: "bit_used d j \<longleftrightarrow> bit (d ! (j div 8)) (j mod 8)"
proof -
  have "w AND push_bit n 1 \<noteq> 0 \<longleftrightarrow> bit w n" if "n < 8" for w :: u8 and n
  proof
    show "bit w n" if "w AND push_bit n 1 \<noteq> 0"
    proof (rule ccontr)
      assume "\<not> bit w n"
      then have "w AND push_bit n 1 = 0" by (intro bit_eqI) (auto simp: bit_simps)
      with that show False by simp
    qed
    assume "bit w n"
    then have "bit (w AND push_bit n 1) n" using \<open>n < 8\<close> by (simp add: bit_simps)
    then show "w AND push_bit n 1 \<noteq> 0" by auto
  qed
  then show ?thesis by (simp add: bit_used_def)
qed

lemma length_mark_bit [simp]: "length (mark_bit d i) = length d"
  by (simp add: mark_bit_def)

lemma length_clear_bit [simp]: "length (clear_bit d i) = length d"
  by (simp add: clear_bit_def)

lemma bit_eq_div_mod: "(i::nat) = j \<longleftrightarrow> i div 8 = j div 8 \<and> i mod 8 = j mod 8"
  by (metis div_mult_mod_eq)

lemma bit_used_mark_bit:
  assumes "i div 8 < length d"
  shows "bit_used (mark_bit d i) j \<longleftrightarrow> i = j \<or> bit_used d j"
  unfolding bit_used_iff mark_bit_def bit_eq_div_mod [of i j]
  using assms by (cases "j div 8 = i div 8"; cases "i mod 8 = j mod 8") (simp_all add: bit_simps)

lemma bit_used_clear_bit:
  assumes "i div 8 < length d"
  shows "bit_used (clear_bit d i) j \<longleftrightarrow> i \<noteq> j \<and> bit_used d j"
  unfolding bit_used_iff clear_bit_def bit_eq_div_mod [of i j]
  using assms by (cases "j div 8 = i div 8"; cases "i mod 8 = j mod 8") (simp_all add: bit_simps)

lemma clear_mark_bit:
  assumes "i div 8 < length d" and "\<not> bit_used d i"
  shows "clear_bit (mark_bit d i) i = d"
proof -
  have "(d ! (i div 8) OR push_bit (i mod 8) 1) AND NOT (push_bit (i mod 8) 1) = d ! (i div 8)"
    using assms by (intro bit_eqI) (auto simp: bit_simps bit_used_iff)
  then show ?thesis using assms by (simp add: clear_bit_def mark_bit_def)
qed

subsection \<open>Buffers locked before stay locked and unchanged\<close>

definition lkeep :: "kstate \<Rightarrow> kstate \<Rightarrow> bool" where
  "lkeep s u \<longleftrightarrow> (\<forall>i<NBUF. sl_locked (b_lock (bufs s i)) \<longrightarrow> core (bufs u i) = core (bufs s i))"

lemma lkeep_refl [simp]: "lkeep s s"
  by (simp add: lkeep_def)

lemma lkeep_trans:
  assumes "lkeep s t" and "lkeep t u"
  shows "lkeep s u"
  unfolding lkeep_def
proof (intro allI impI)
  fix i assume i: "i < NBUF" "sl_locked (b_lock (bufs s i))"
  then have c: "core (bufs t i) = core (bufs s i)" using assms(1) unfolding lkeep_def by blast
  then have "b_lock (bufs t i) = b_lock (bufs s i)" by (rule coreD)
  with i assms(2) have "core (bufs u i) = core (bufs t i)" unfolding lkeep_def by simp
  with c show "core (bufs u i) = core (bufs s i)" by simp
qed

lemma others_lkeep: "others b s t \<Longrightarrow> \<not> sl_locked (b_lock (bufs s b)) \<Longrightarrow> lkeep s t"
  unfolding others_def lkeep_def by metis

lemma lkeep_others:
  assumes "others b s t" and "\<not> sl_locked (b_lock (bufs s b))" and "others b t u"
  shows "lkeep s u"
  using others_trans [OF assms(1,3)] assms(2) by (rule others_lkeep)

lemma lkeep_holds:
  assumes "lkeep s t" and "fframe s t" and "holds s c bn"
  shows "holds t c bn"
proof -
  have "core (bufs t c) = core (bufs s c)"
    using assms unfolding lkeep_def by (simp add: holds_def)
  then show ?thesis
    using assms(3) coreD [of "bufs t c" "bufs s c"] fframeD(20) [OF assms(2)]
    by (simp add: holds_def my_buf_def is_for_def)
qed

text \<open>\<open>stepped k s u\<close>: from \<open>s\<close> to \<open>u\<close> only blocks were logged, \<open>k\<close> may follow; no lock is left behind.\<close>

definition stepped :: "nat \<Rightarrow> kstate \<Rightarrow> kstate \<Rightarrow> bool" where
  "stepped k s u \<longleftrightarrow> tx k u \<and> fframe s u \<and> lkd u = lkd s \<and> lkeep s u"

lemma steppedD:
  assumes "stepped k s u"
  shows "tx k u" "fframe s u" "lkd u = lkd s" "lkeep s u" "icache u = icache s" "sb u = sb s" "held u = held s"
    "dsk u = dsk s"
  using assms fframeD [of s u] by (simp_all add: stepped_def)

lemma stepped_trans: "stepped j s t \<Longrightarrow> stepped k t u \<Longrightarrow> stepped k s u"
  using fframe_trans lkeep_trans unfolding stepped_def by metis

text \<open>Logging a block that the transaction already has takes no space.\<close>

lemma stepped_absorb:
  assumes "stepped k s u" and "tx (Suc k) s" and "log u = log_add (log s) bn" and "bn \<in> set (logged (log s))"
  shows "stepped (Suc k) s u"
  using assms logged_add [of "log s" bn] by (auto simp: stepped_def tx_def)

subsection \<open>The two idioms\<close>

text \<open>After \<open>bread\<close>: whatever bytes are stored in the buffer, logging and releasing it works.\<close>

definition putting :: "nat \<Rightarrow> kstate \<Rightarrow> u32 \<Rightarrow> nat \<Rightarrow> kstate \<Rightarrow> bool" where
  "putting k s bn b t \<longleftrightarrow> (\<forall>d. length d = BSIZE \<longrightarrow>
     (\<exists>v u. log_write b (t\<lparr>bufs := (bufs t)(b := (bufs t b)\<lparr>b_data := d\<rparr>)\<rparr>) = Ret () v
       \<and> brelse b v = Ret () u \<and> stepped k s u \<and> cview u = (cview s)(bn := d) \<and> log u = log_add (log s) bn))"

lemma puttingE:
  assumes "putting k s bn b t" and "length d = BSIZE"
  obtains v u where "log_write b (t\<lparr>bufs := (bufs t)(b := (bufs t b)\<lparr>b_data := d\<rparr>)\<rparr>) = Ret () v"
    and "brelse b v = Ret () u" and "stepped k s u" and "cview u = (cview s)(bn := d)" and "log u = log_add (log s) bn"
  using assms unfolding putting_def by blast

lemma tx_update:
  assumes t: "tx (Suc k) s" and bn: "unat bn < FSSIZE" "(ROOTDEV, bn) \<notin> lkd s" and c: "card (lkd s) \<le> k"
  obtains b t where "bread lr ROOTDEV bn s = Ret b t" and "b_data (bufs t b) = cview s bn"
    and "fframe s t" and "length (cview s bn) = BSIZE"
    and "putting k s bn b t"
    and "\<exists>u. brelse b t = Ret () u \<and> stepped (Suc k) s u \<and> cview u = cview s"
proof -
  obtain b t where t: "bread lr ROOTDEV bn s = Ret b t" "tx (Suc k) t" "fframe s t" "log t = log s"
    "cview t = cview s" "holds t b bn" "others b s t" "lkd t = insert (ROOTDEV, bn) (lkd s)"
    "dty t = dty s" "\<not> sl_locked (b_lock (bufs s b))"
    "(ROOTDEV, bn) \<in> dty t \<or> cview t bn = dsk t ROOTDEV bn"
    "b_data (bufs t b) = cview s bn" "length (cview s bn) = BSIZE"
    by (rule tx_bread [OF t bn]) (use c in auto)
  have "\<exists>v u. log_write b (t\<lparr>bufs := (bufs t)(b := (bufs t b)\<lparr>b_data := d\<rparr>)\<rparr>) = Ret () v
       \<and> brelse b v = Ret () u \<and> stepped k s u \<and> cview u = (cview s)(bn := d)
       \<and> log u = log_add (log s) bn" if d: "length d = BSIZE" for d
  proof -
    obtain v u where v: "log_write b (t\<lparr>bufs := (bufs t)(b := (bufs t b)\<lparr>b_data := d\<rparr>)\<rparr>) = Ret () v"
      "brelse b v = Ret () u" "tx k u" "fframe t u" "cview u = (cview t)(bn := d)"
      "others b t u" "lkd u = lkd t - {(ROOTDEV, bn)}" "log u = log_add (log t) bn"
      by (rule tx_put [OF t(2,6) d])
    have "stepped k s u"
      using v t(8) bn(2) fframe_trans [OF t(3) v(4)] lkeep_others [OF t(7,10) v(6)] by (simp add: stepped_def)
    then show ?thesis using v t(4,5) by metis
  qed
  then have "putting k s bn b t" unfolding putting_def by blast
  moreover obtain u where u: "brelse b t = Ret () u" "tx (Suc k) u" "fframe t u" "cview u = cview t" "others b t u"
    "lkd u = lkd t - {(ROOTDEV, bn)}"
    by (rule tx_brelse [OF t(2,6,11)])
  have "stepped (Suc k) s u"
    using u t(8) bn(2) fframe_trans [OF t(3) u(3)] lkeep_others [OF t(7,10) u(5)] by (simp add: stepped_def)
  ultimately show ?thesis using that t u by metis
qed


subsection \<open>The free map\<close>

definition fs_geom :: "superblock \<Rightarrow> bool" where
  "fs_geom x \<longleftrightarrow> unat (sb_size x) \<le> FSSIZE \<and> unat (sb_bmapstart x) < unat (sb_size x)"

definition used :: "kstate \<Rightarrow> nat \<Rightarrow> bool" where
  "used s b = bit_used (cview s (sb_bmapstart (sb s))) b"

definition freeset :: "kstate \<Rightarrow> nat set" where
  "freeset s = {b. b < unat (sb_size (sb s)) \<and> \<not> used s b}"

text \<open>The bitmap block is marked as used in the bitmap itself, and nobody holds it or a free block.\<close>

definition bm_ok :: "kstate \<Rightarrow> bool" where
  "bm_ok s \<longleftrightarrow> fs_geom (sb s) \<and> used s (unat (sb_bmapstart (sb s))) \<and> (ROOTDEV, sb_bmapstart (sb s)) \<notin> lkd s
   \<and> (\<forall>b\<in>freeset s. (ROOTDEV, of_nat b) \<notin> lkd s)"

lemma finite_freeset [simp]: "finite (freeset s)"
  by (simp add: freeset_def)

lemma BBLOCK_small: "fs_geom x \<Longrightarrow> unat b < unat (sb_size x) \<Longrightarrow> BBLOCK b x = sb_bmapstart x"
proof -
  assume "fs_geom x" "unat b < unat (sb_size x)"
  then have "unat b < 4096" by (simp add: fs_geom_def)
  then have "b div 4096 = 0" by (simp add: word_unat_eq_iff unat_div)
  then show ?thesis by (simp add: BBLOCK_def)
qed

lemma bzero_spec:
  assumes "tx (Suc k) s" and "unat bn < FSSIZE" and "(ROOTDEV, bn) \<notin> lkd s" and "card (lkd s) \<le> k"
  obtains u where "bzero lr ROOTDEV bn s = Ret () u" and "stepped k s u"
    and "cview u = (cview s)(bn := replicate BSIZE 0)"
proof -
  obtain b t where t: "bread lr ROOTDEV bn s = Ret b t"
    "putting k s bn b t"
    by (rule tx_update [OF assms]) blast
  obtain v u where "log_write b (t\<lparr>bufs := (bufs t)(b := (bufs t b)\<lparr>b_data := replicate BSIZE 0\<rparr>)\<rparr>) = Ret () v"
    "brelse b v = Ret () u" "stepped k s u" "cview u = (cview s)(bn := replicate BSIZE 0)"
    by (rule puttingE [OF t(2), of "replicate BSIZE 0"]) auto
  with t(1) that [of u] show ?thesis by (simp add: bzero_def)
qed

lemma balloc_out:
  assumes "unat (sb_size x) \<le> b"
  shows "balloc_from lr dev x b s = Panic ''balloc: out of blocks''"
  using assms by (subst balloc_from.simps) simp

lemma least_free:
  assumes "freeset s \<noteq> {}"
  shows "(LEAST i. \<not> used s i) = Min (freeset s)" and "Min (freeset s) < unat (sb_size (sb s))"
    and "\<not> used s (Min (freeset s))"
proof -
  let ?m = "Min (freeset s)"
  have m: "?m \<in> freeset s" using assms by simp
  show "?m < unat (sb_size (sb s))" "\<not> used s ?m" using m by (simp_all add: freeset_def)
  show "(LEAST i. \<not> used s i) = ?m"
  proof (rule Least_equality)
    fix y assume y: "\<not> used s y"
    show "?m \<le> y"
    proof (cases "y < unat (sb_size (sb s))")
      case True
      with y have "y \<in> freeset s" by (simp add: freeset_def)
      then show ?thesis by simp
    qed (use m in \<open>simp add: freeset_def\<close>)
  qed (use m in \<open>simp add: freeset_def\<close>)
qed


lemma balloc_spec:
  assumes t: "tx (Suc (Suc k)) s" and bm: "bm_ok s" and c: "card (lkd s) \<le> k" and fr: "freeset s \<noteq> {}"
  defines "m \<equiv> Min (freeset s)" and "bs \<equiv> sb_bmapstart (sb s)"
  obtains u where "balloc lr ROOTDEV s = Ret (of_nat m) u" and "stepped k s u"
    and "cview u = (cview s)(bs := mark_bit (cview s bs) m, of_nat m := replicate BSIZE 0)"
proof -
  let ?x = "sb s"
  have g: "fs_geom ?x" and bmu: "used s (unat bs)" and nl: "(ROOTDEV, bs) \<notin> lkd s"
    using bm by (simp_all add: bm_ok_def bs_def)
  have bsz: "unat bs < FSSIZE" and sz: "unat (sb_size ?x) \<le> FSSIZE" using g by (simp_all add: fs_geom_def bs_def)
  have m: "m < unat (sb_size ?x)" "\<not> used s m" "m \<in> freeset s" and lm: "(LEAST i. \<not> used s i) = m"
    using least_free [OF fr] fr by (simp_all add: m_def)
  obtain b t where b: "bread lr ROOTDEV bs s = Ret b t" "b_data (bufs t b) = cview s bs"
    "length (cview s bs) = BSIZE"
    "putting (Suc k) s bs b t"
    by (rule tx_update [OF t bsz nl]) (use c in auto)
  obtain v u where v: "log_write b (t\<lparr>bufs := (bufs t)(b := (bufs t b)\<lparr>b_data := mark_bit (cview s bs) m\<rparr>)\<rparr>) = Ret () v"
    "brelse b v = Ret () u" "stepped (Suc k) s u" "cview u = (cview s)(bs := mark_bit (cview s bs) m)"
    by (rule puttingE [OF b(4), of "mark_bit (cview s bs) m"]) (use b(3) in auto)
  have um: "unat (of_nat m :: u32) = m" using m(1) sz by (simp add: unat_of_nat take_bit_nat_eq_self)
  have nm: "(ROOTDEV, of_nat m) \<notin> lkd u" using bm m(3) steppedD(3) [OF v(3)] by (simp add: bm_ok_def)
  obtain w where w: "bzero lr ROOTDEV (of_nat m) u = Ret () w" "stepped k u w"
    "cview w = (cview u)(of_nat m := replicate BSIZE 0)"
    by (rule bzero_spec [OF steppedD(1) [OF v(3)] _ nm]) (use um m(1) sz c steppedD(3) [OF v(3)] in auto)
  have f: "find (\<lambda>bi. \<not> bit_used (cview s bs) bi) [0..<min 4096 (unat (sb_size ?x))] = Some m"
    using m lm sz unfolding find_upt used_def bs_def [symmetric] by auto
  have "BBLOCK 0 ?x = bs" using BBLOCK_small [OF g, of 0] m(1) by (simp add: bs_def)
  then have "balloc lr ROOTDEV s = Ret (of_nat m) w"
    using m(1) b(1,2) v(1,2) w(1) f by (simp add: balloc_def balloc_from.simps)
  then show ?thesis using that stepped_trans [OF v(3) w(2)] w(3) v(4) by simp
qed

lemma balloc_full:
  assumes t: "tx (Suc (Suc k)) s" and bm: "bm_ok s" and c: "card (lkd s) \<le> k" and fr: "freeset s = {}"
  shows "balloc lr ROOTDEV s = Panic ''balloc: out of blocks''"
proof -
  let ?x = "sb s" and ?bs = "sb_bmapstart (sb s)"
  have g: "fs_geom ?x" and nl: "(ROOTDEV, ?bs) \<notin> lkd s" using bm by (simp_all add: bm_ok_def)
  have bsz: "unat ?bs < FSSIZE" and sz: "unat (sb_size ?x) \<le> FSSIZE" "0 < unat (sb_size ?x)"
    using g by (simp_all add: fs_geom_def)
  obtain b t u where b: "bread lr ROOTDEV ?bs s = Ret b t" "b_data (bufs t b) = cview s ?bs"
    "brelse b t = Ret () u"
    by (rule tx_update [OF t bsz nl]) (use c in auto)
  have f: "find (\<lambda>bi. \<not> bit_used (cview s ?bs) bi) [0..<min 4096 (unat (sb_size ?x))] = None"
    using fr sz unfolding find_upt freeset_def used_def by auto
  have "BBLOCK 0 ?x = ?bs" using BBLOCK_small [OF g, of 0] sz by simp
  then show ?thesis
    using sz b f balloc_out [of ?x 4096 lr ROOTDEV u] by (simp add: balloc_def balloc_from.simps [of lr ROOTDEV ?x 0])
qed

lemma bfree_spec:
  assumes t: "tx (Suc k) s" and bm: "bm_ok s" and c: "card (lkd s) \<le> k" and b: "unat bn < unat (sb_size (sb s))"
  defines "bs \<equiv> sb_bmapstart (sb s)"
  shows "used s (unat bn) \<Longrightarrow> \<exists>u. bfree lr ROOTDEV bn s = Ret () u \<and> stepped k s u
      \<and> cview u = (cview s)(bs := clear_bit (cview s bs) (unat bn)) \<and> log u = log_add (log s) bs"
    and "\<not> used s (unat bn) \<Longrightarrow> bfree lr ROOTDEV bn s = Panic ''freeing free block''"
proof -
  let ?x = "sb s" and ?d = "clear_bit (cview s bs) (unat bn)"
  have g: "fs_geom ?x" and nl: "(ROOTDEV, bs) \<notin> lkd s" using bm by (simp_all add: bm_ok_def bs_def)
  have bsz: "unat bs < FSSIZE" and sz: "unat (sb_size ?x) \<le> FSSIZE" using g by (simp_all add: fs_geom_def bs_def)
  have B: "BBLOCK bn ?x = bs" using BBLOCK_small [OF g b] by (simp add: bs_def)
  have mo: "unat bn mod 4096 = unat bn" using b sz by simp
  obtain bp t where bp: "bread lr ROOTDEV bs s = Ret bp t" "b_data (bufs t bp) = cview s bs"
    "length (cview s bs) = BSIZE"
    "putting k s bs bp t"
    by (rule tx_update [OF t bsz nl c]) blast
  have us: "used s (unat bn) = bit_used (cview s bs) (unat bn)" by (simp add: used_def bs_def)
  show "\<exists>u. bfree lr ROOTDEV bn s = Ret () u \<and> stepped k s u \<and> cview u = (cview s)(bs := ?d)
      \<and> log u = log_add (log s) bs" if "used s (unat bn)"
  proof -
    obtain v u where "log_write bp (t\<lparr>bufs := (bufs t)(bp := (bufs t bp)\<lparr>b_data := ?d\<rparr>)\<rparr>) = Ret () v"
      "brelse bp v = Ret () u" "stepped k s u" "cview u = (cview s)(bs := ?d)" "log u = log_add (log s) bs"
      by (rule puttingE [OF bp(4), of ?d]) (use bp(3) in auto)
    then show ?thesis using bp(1,2) that us by (simp add: bfree_def B mo)
  qed
  show "bfree lr ROOTDEV bn s = Panic ''freeing free block''" if "\<not> used s (unat bn)"
    using bp(1,2) that us by (simp add: bfree_def B mo)
qed


lemma freeset_mark:
  assumes "cview u (sb_bmapstart (sb s)) = mark_bit (cview s (sb_bmapstart (sb s))) m" and "sb u = sb s"
    and "length (cview s (sb_bmapstart (sb s))) = BSIZE" and "m < FSSIZE"
  shows "freeset u = freeset s - {m}" and "used u b \<longleftrightarrow> b = m \<or> used s b"
  using assms bit_used_mark_bit [of m "cview s (sb_bmapstart (sb s))"] by (auto simp: freeset_def used_def)

lemma freeset_clear:
  assumes "cview u (sb_bmapstart (sb s)) = clear_bit (cview s (sb_bmapstart (sb s))) m" and "sb u = sb s"
    and "length (cview s (sb_bmapstart (sb s))) = BSIZE" and "m < unat (sb_size (sb s))" and "fs_geom (sb s)"
  shows "freeset u = insert m (freeset s)"
  using assms bit_used_clear_bit [of m "cview s (sb_bmapstart (sb s))"]
  by (auto simp: freeset_def used_def fs_geom_def)

lemma unat_small: "m < FSSIZE \<Longrightarrow> unat (of_nat m :: u32) = m"
  by (simp add: unat_of_nat take_bit_nat_eq_self)

text \<open>
  (C10) \<^verbatim>\<open>balloc\<close> implements allocation from the set of free blocks: it returns the smallest free block,
  removes it from the set, zeroes it, and changes no other block but the bitmap; it panics exactly
  when the set is empty.
\<close>

theorem balloc_refines_alloc:
  assumes t: "tx (Suc (Suc k)) s" and bm: "bm_ok s" and c: "card (lkd s) \<le> k"
  shows "if freeset s = {} then balloc lr ROOTDEV s = Panic ''balloc: out of blocks''
    else \<exists>u. balloc lr ROOTDEV s = Ret (of_nat (Min (freeset s))) u
      \<and> freeset u = freeset s - {Min (freeset s)}
      \<and> cview u (of_nat (Min (freeset s))) = replicate BSIZE 0
      \<and> (\<forall>bn. bn \<noteq> sb_bmapstart (sb s) \<and> bn \<noteq> of_nat (Min (freeset s)) \<longrightarrow> cview u bn = cview s bn)
      \<and> tx k u \<and> bm_ok u \<and> lkd u = lkd s"
proof (cases "freeset s = {}")
  case True
  then show ?thesis using balloc_full [OF t bm c] by simp
next
  case False
  let ?m = "Min (freeset s)" and ?bs = "sb_bmapstart (sb s)"
  obtain u where u: "balloc lr ROOTDEV s = Ret (of_nat ?m) u" "stepped k s u"
    "cview u = (cview s)(?bs := mark_bit (cview s ?bs) ?m, of_nat ?m := replicate BSIZE 0)"
    by (rule balloc_spec [OF t bm c False])
  note m = least_free(2,3) [OF False]
  have g: "fs_geom (sb s)" and bu: "used s (unat ?bs)" using bm by (simp_all add: bm_ok_def)
  have mF: "?m < FSSIZE" using m g by (simp add: fs_geom_def)
  have ne: "of_nat ?m \<noteq> ?bs" using unat_small [OF mF] m(2) bu by auto
  have l: "length (cview s ?bs) = BSIZE" by (rule length_cview [OF txD(1) [OF t]])
  note sd = steppedD [OF u(2)]
  have cu: "cview u ?bs = mark_bit (cview s ?bs) ?m" using ne u(3) by simp
  note fs = freeset_mark [OF cu sd(6) l mF]
  have "bm_ok u" using bm fs sd(3,6) unfolding bm_ok_def by auto
  then show ?thesis using False u sd fs by auto
qed

text \<open>
  (C27) \<^verbatim>\<open>bfree\<close> panics exactly on a block that is already free; otherwise it adds the block to the
  set of free blocks and changes no block but the bitmap. Freeing what \<^verbatim>\<open>balloc\<close> returned
  restores the bitmap bit for bit.
\<close>

theorem bfree_correct:
  assumes t: "tx (Suc k) s" and bm: "bm_ok s" and c: "card (lkd s) \<le> k" and b: "unat bn < unat (sb_size (sb s))"
  shows "if unat bn \<in> freeset s then bfree lr ROOTDEV bn s = Panic ''freeing free block''
    else \<exists>u. bfree lr ROOTDEV bn s = Ret () u \<and> freeset u = insert (unat bn) (freeset s)
      \<and> (\<forall>x. x \<noteq> sb_bmapstart (sb s) \<longrightarrow> cview u x = cview s x) \<and> tx k u \<and> lkd u = lkd s
      \<and> (\<forall>d. cview s (sb_bmapstart (sb s)) = mark_bit d (unat bn) \<and> \<not> bit_used d (unat bn) \<longrightarrow>
           cview u (sb_bmapstart (sb s)) = d)"
proof (cases "used s (unat bn)")
  case False
  then show ?thesis using bfree_spec(2) [OF t bm c b] b by (simp add: freeset_def)
next
  case True
  let ?bs = "sb_bmapstart (sb s)"
  obtain u where u: "bfree lr ROOTDEV bn s = Ret () u" "stepped k s u"
    "cview u = (cview s)(?bs := clear_bit (cview s ?bs) (unat bn))"
    using bfree_spec(1) [OF t bm c b True] by blast
  note sd = steppedD [OF u(2)]
  have g: "fs_geom (sb s)" using bm by (simp add: bm_ok_def)
  have l: "length (cview s ?bs) = BSIZE" by (rule length_cview [OF txD(1) [OF t]])
  have cu: "cview u ?bs = clear_bit (cview s ?bs) (unat bn)" using u(3) by simp
  have "cview u ?bs = d" if "cview s ?bs = mark_bit d (unat bn)" "\<not> bit_used d (unat bn)" for d
  proof -
    have "unat bn < 1000" using g b by (simp add: fs_geom_def)
    then have "unat bn div 8 < length d" using that(1) l by simp
    with that cu clear_mark_bit show ?thesis by simp
  qed
  moreover have "unat bn \<notin> freeset s" using True by (simp add: freeset_def)
  ultimately show ?thesis using freeset_clear [OF cu sd(6) l b g] u sd by auto
qed

subsection \<open>An open transaction on a given disk\<close>

definition demo_sb :: superblock where
  "demo_sb = \<lparr>sb_size = 1000, sb_nblocks = 941, sb_ninodes = 200, sb_nlog = 30, sb_logstart = 2,
     sb_inodestart = 32, sb_bmapstart = 58\<rparr>"

definition demo_disk :: "u32 \<Rightarrow> u8 list" where
  "demo_disk bn = (if bn = 58 then replicate 64 255 @ replicate 448 0 else replicate BSIZE 0)"

lemma tx_ex:
  assumes "\<forall>bn. length (D bn) = BSIZE"
  shows "\<exists>s. tx 29 s \<and> lkd s = {} \<and> cview s = D \<and> sb s = x \<and> icache s = ic"
proof -
  obtain s where s: "bready s" "dty s = {}" "log s = open_log" "dsk s ROOTDEV = D"
    using boot_log_ex [OF assms, of open_log] by blast
  have cv: "cview s = D" using cview_clean [of s] s by (auto simp: fun_eq_iff bready_def)
  let ?t = "s\<lparr>sb := x\<rparr>\<lparr>icache := ic\<rparr>"
  have "logged open_log = []" by (simp add: logged_def open_log_def)
  then have "tx 29 ?t" using s by (simp add: tx_def bready_def open_log_def demo_log_def)
  then show ?thesis using s cv by (intro exI [of _ ?t]) (simp add: bready_def)
qed

lemma demo_bm:
  assumes "lkd s = {}" and "cview s = demo_disk" and "sb s = demo_sb"
  shows "bm_ok s" and "Min (freeset s) = 512" and "freeset s \<noteq> {}" and "used s 100"
proof -
  have u: "used s b \<longleftrightarrow> b < 512" if "b < 1000" for b
  proof (cases "b < 512")
    case True
    then have "(replicate 64 255 @ replicate 448 0) ! (b div 8) = (255 :: u8)" by (simp add: nth_append)
    moreover have "bit (255 :: u8) (b mod 8)" 
    proof -
      have "(255 :: u8) = mask 8" by (simp add: mask_eq_exp_minus_1)
      then show ?thesis by (simp only: bit_mask_iff) simp
    qed
    ultimately show ?thesis using True assms by (simp add: used_def demo_sb_def demo_disk_def bit_used_iff)
  next
    case False
    with that have "(replicate 64 255 @ replicate 448 0) ! (b div 8) = (0 :: u8)" by (simp add: nth_append)
    then show ?thesis using False assms by (simp add: used_def demo_sb_def demo_disk_def bit_used_iff)
  qed
  have f: "freeset s = {512..<1000}" using u assms(3) by (auto simp: freeset_def demo_sb_def)
  show "Min (freeset s) = 512" unfolding f by (rule Min_eqI) auto
  show "freeset s \<noteq> {}" unfolding f by simp
  show "used s 100" using u by simp
  show "bm_ok s" using assms u [of 58] by (simp add: bm_ok_def fs_geom_def demo_sb_def)
qed

lemma demo_disk_length: "\<forall>bn. length (demo_disk bn) = BSIZE"
  by (simp add: demo_disk_def)

theorem balloc_refines_alloc_witness:
  "\<exists>s u. cview s = demo_disk \<and> balloc (\<lambda>_. panic []) ROOTDEV s = Ret 512 u \<and> 512 \<notin> freeset u"
proof -
  obtain s where s: "tx 29 s" "lkd s = {}" "cview s = demo_disk" "sb s = demo_sb"
    using tx_ex [OF demo_disk_length, of demo_sb] by blast
  note d = demo_bm [OF s(2-4)]
  have "tx (Suc (Suc 27)) s" using s(1) by simp
  from balloc_refines_alloc [OF this d(1), of "\<lambda>_. panic []"] d(2,3) s(2,3) show ?thesis by auto
qed

theorem bfree_correct_witness:
  "\<exists>s u. cview s = demo_disk \<and> bfree (\<lambda>_. panic []) ROOTDEV 100 s = Ret () u \<and> 100 \<in> freeset u"
proof -
  obtain s where s: "tx 29 s" "lkd s = {}" "cview s = demo_disk" "sb s = demo_sb"
    using tx_ex [OF demo_disk_length, of demo_sb] by blast
  note d = demo_bm [OF s(2-4)]
  have "tx (Suc 28) s" using s(1) by simp
  from bfree_correct [OF this d(1), of 100 "\<lambda>_. panic []"] d(4) s(2-4) show ?thesis
    by (auto simp: demo_sb_def freeset_def)
qed

end
