(* ===== verification/File_Write.thy ===== *)
theory File_Write
  imports File_Read Fs_Alloc
begin

text \<open>
  Rules for writing files: \<^verbatim>\<open>writei\<close> (\<^verbatim>\<open>fs.c\<close>) inside a file, in an open transaction, and what \<^verbatim>\<open>readi\<close> returns afterwards.
\<close>

subsection \<open>Overwriting a file\<close>

text \<open>The blocks of the file are different blocks, and none of them is its indirect block.\<close>

definition file_sep :: "kstate \<Rightarrow> nat \<Rightarrow> bool" where
  "file_sep s ip \<longleftrightarrow>
     (\<forall>x<unat (i_size (icache s ip)). \<forall>y<unat (i_size (icache s ip)).
        file_block s ip (x div BSIZE) = file_block s ip (y div BSIZE) \<longrightarrow> x div BSIZE = y div BSIZE)
   \<and> (\<forall>x<unat (i_size (icache s ip)). i_addrs (icache s ip) ! NDIRECT \<noteq> file_block s ip (x div BSIZE))"

text \<open>From \<open>s\<close> to \<open>u\<close> the bytes from \<open>off\<close> on became \<open>bs\<close>; no other byte of the file and no other block changed.\<close>

definition wrote :: "kstate \<Rightarrow> nat \<Rightarrow> nat \<Rightarrow> u8 list \<Rightarrow> kstate \<Rightarrow> bool" where
  "wrote s ip off bs u \<longleftrightarrow> fframe s u \<and> lkd u = lkd s
   \<and> (\<forall>x<unat (i_size (icache s ip)). file_block u ip (x div BSIZE) = file_block s ip (x div BSIZE)
        \<and> fbyte u ip x = (if off \<le> x \<and> x < off + length bs then bs ! (x - off) else fbyte s ip x))
   \<and> (\<forall>b. (\<forall>x<unat (i_size (icache s ip)). b \<noteq> file_block s ip (x div BSIZE)) \<longrightarrow> cview u b = cview s b)"

lemma wrote_quiet:
  assumes "quiet s t"
  shows "wrote s ip off [] t"
proof -
  have "fframe s t" using assms bframe_fframe by (simp add: quiet_def)
  then show ?thesis using quietD [OF assms] quiet_file [OF assms] unfolding wrote_def by auto
qed

lemma wrote_inode: "wrote s ip off bs u \<Longrightarrow> icache u = icache s" "wrote s ip off bs u \<Longrightarrow> lkd u = lkd s"
  using fframeD [of s u] by (simp_all add: wrote_def)

lemma wroteD:
  assumes "wrote s ip off bs u"
  shows "x < unat (i_size (icache s ip)) \<Longrightarrow> file_block u ip (x div BSIZE) = file_block s ip (x div BSIZE)"
    and "x < unat (i_size (icache s ip)) \<Longrightarrow> fbyte u ip x = (if off \<le> x \<and> x < off + length bs then bs ! (x - off) else fbyte s ip x)"
    and "(\<And>x. x < unat (i_size (icache s ip)) \<Longrightarrow> b \<noteq> file_block s ip (x div BSIZE)) \<Longrightarrow> cview u b = cview s b"
    and "fframe s u" and "lkd u = lkd s"
  using assms by (simp_all add: wrote_def)

lemma wrote_trans:
  assumes "wrote s ip off bs t" and "wrote t ip (off + length bs) cs u"
  shows "wrote s ip off (bs @ cs) u"
proof -
  note i = wrote_inode [OF assms(1)]
  have sz: "unat (i_size (icache t ip)) = unat (i_size (icache s ip))" using i by simp
  note A = wroteD [OF assms(1)] and B = wroteD [OF assms(2), unfolded sz]
  have f: "fframe s u" by (rule fframe_trans [OF A(4) B(4)])
  have "file_block u ip (x div BSIZE) = file_block s ip (x div BSIZE)
      \<and> fbyte u ip x = (if off \<le> x \<and> x < off + length (bs @ cs) then (bs @ cs) ! (x - off) else fbyte s ip x)"
    if x: "x < unat (i_size (icache s ip))" for x
    using A(1) [OF x] B(1) [OF x] A(2) [OF x] B(2) [OF x]
    by (cases "x < off"; cases "x < off + length bs") (auto simp: nth_append)
  moreover have "cview u b = cview s b" if n: "\<And>x. x < unat (i_size (icache s ip)) \<Longrightarrow> b \<noteq> file_block s ip (x div BSIZE)" for b
    using A(3) [OF n] B(3) [of b] n A(1) by simp
  ultimately show ?thesis using f A(5) B(5) unfolding wrote_def by simp
qed

lemma wrote_file:
  assumes "wrote s ip off bs u" and "file_sep s ip" and "file_ok s ip"
  shows "file_sep u ip" and "file_ok u ip"
proof -
  note i = wrote_inode [OF assms(1)]
  have b: "file_block u ip (x div BSIZE) = file_block s ip (x div BSIZE)" if "x < unat (i_size (icache s ip))" for x
    using assms(1) that unfolding wrote_def by blast
  then show "file_sep u ip" using assms(2) unfolding file_sep_def i by simp
  have "readable u = readable s" using i by (simp add: readable_def fun_eq_iff)
  then show "file_ok u ip" using assms(3) b unfolding file_ok_def mapped_def i by simp
qed

lemma wrote_block:
  assumes sep: "file_sep s ip" and len: "length (cview s (file_block s ip (off div BSIZE))) = BSIZE"
    and m: "off mod BSIZE + length bs \<le> BSIZE" "off < unat (i_size (icache s ip))"
    and f: "fframe s u" "lkd u = lkd s"
    and cv: "cview u = (cview s)(file_block s ip (off div BSIZE) := bsplice (cview s (file_block s ip (off div BSIZE))) (off mod BSIZE) bs)"
  shows "wrote s ip off bs u"
proof -
  let ?b = "file_block s ip (off div BSIZE)"
  have ic: "icache u = icache s" using fframeD [OF f(1)] by simp
  have "i_addrs (icache s ip) ! NDIRECT \<noteq> ?b" using sep m(2) by (simp add: file_sep_def)
  then have fb: "file_block u ip k = file_block s ip k" for k unfolding file_block_def ic cv by simp
  have "fbyte u ip x = (if off \<le> x \<and> x < off + length bs then bs ! (x - off) else fbyte s ip x)"
    if x: "x < unat (i_size (icache s ip))" for x
  proof (cases "x div BSIZE = off div BSIZE")
    case True
    have e: "off = off div BSIZE * BSIZE + off mod BSIZE" "x = off div BSIZE * BSIZE + x mod BSIZE"
      using div_mult_mod_eq [of off BSIZE] div_mult_mod_eq [of x BSIZE] True by simp_all
    have "fbyte u ip x = bsplice (cview s ?b) (off mod BSIZE) bs ! (x mod BSIZE)" unfolding fbyte_def fb cv True by simp
    also have "\<dots> = (if off mod BSIZE \<le> x mod BSIZE \<and> x mod BSIZE < off mod BSIZE + length bs
        then bs ! (x mod BSIZE - off mod BSIZE) else cview s ?b ! (x mod BSIZE))"
      by (rule nth_bsplice) (use m(1) len in simp_all)
    also have "cview s ?b ! (x mod BSIZE) = fbyte s ip x" by (simp add: fbyte_def True)
    finally have "fbyte u ip x = (if off mod BSIZE \<le> x mod BSIZE \<and> x mod BSIZE < off mod BSIZE + length bs
        then bs ! (x mod BSIZE - off mod BSIZE) else fbyte s ip x)" .
    moreover have "off mod BSIZE \<le> x mod BSIZE \<longleftrightarrow> off \<le> x" "x mod BSIZE < off mod BSIZE + length bs \<longleftrightarrow> x < off + length bs"
      "x mod BSIZE - off mod BSIZE = x - off" using e by linarith+
    ultimately show ?thesis by simp
  next
    case False
    then have "file_block s ip (x div BSIZE) \<noteq> ?b" using sep x m(2) unfolding file_sep_def by blast
    then have "fbyte u ip x = fbyte s ip x" unfolding fbyte_def fb cv by simp
    moreover have "\<not> (off \<le> x \<and> x < off + length bs)"
    proof
      assume o: "off \<le> x \<and> x < off + length bs"
      have "x div BSIZE = off div BSIZE"
      proof (rule div_nat_eqI)
        show "x < BSIZE * Suc (off div BSIZE)" unfolding mult_Suc_right using o m(1) div_mult_mod_eq [of off BSIZE] by linarith
        show "BSIZE * (off div BSIZE) \<le> x" using o div_mult_mod_eq [of off BSIZE] by linarith
      qed
      with False show False ..
    qed
    ultimately show ?thesis by auto
  qed
  then show ?thesis using f fb m(2) unfolding wrote_def cv by auto
qed

lemma tx_cache_ready:
  assumes "tx k s" and "card (lkd s) < k"
  shows "cache_ready s"
proof -
  have "card (dty s \<union> lkd s) \<le> card (dty s) + card (lkd s)" by (rule card_Un_le)
  then have "card (dty s \<union> lkd s) < NBUF" using card_dty_tx [OF assms(1)] txD(6) [OF assms(1)] assms(2) by linarith
  then show ?thesis using txD(1,2) [OF assms(1)] by (simp add: cache_ready_def)
qed

lemma tx_quiet:
  assumes "tx k s" and "quiet s t"
  shows "tx k t"
  using assms(2) bframeD(13,23) [of s t] txD(2) [OF assms(1)] by (intro tx_cong [OF assms(1)]) (simp_all add: quiet_def)

text \<open>One round of the loop.\<close>

lemma write_block_run:
  assumes t: "tx (Suc k) s" and c: "card (lkd s) \<le> k" and f: "file_ok s ip" "file_sep s ip"
    and o: "unat off < unat (i_size (icache s ip))" "unat off mod BSIZE + length bs \<le> BSIZE"
  shows "\<exists>u. bind (bmap lr ip (off div 512)) (\<lambda>a.
        bind (gets (\<lambda>s. i_dev (icache s ip))) (\<lambda>dev.
        bind (bread lr dev a) (\<lambda>bp.
        bind (upd_buf bp (\<lambda>bf. bf\<lparr>b_data := bsplice (b_data bf) (unat off mod BSIZE) bs\<rparr>)) (\<lambda>_.
        bind (log_write bp) (\<lambda>_.
        bind (brelse bp) (\<lambda>_. g)))))) s = g u \<and> tx k u \<and> wrote s ip (unat off) bs u"
proof -
  let ?b = "file_block s ip (unat off div BSIZE)"
  have cr: "cache_ready s" by (rule tx_cache_ready [OF t]) (use c in simp)
  have dev: "i_dev (icache s ip) = ROOTDEV" and mp: "mapped s ip (unat off div BSIZE)" using f(1) o(1) by (simp_all add: file_ok_def)
  have "wp (bmap lr ip (off div 512)) (\<lambda>a t. a = ?b \<and> quiet s t) s"
    by (rule bmap_wp [OF cr dev]) (use mp in \<open>simp_all add: unat_div_512\<close>)
  then obtain v where v: "bmap lr ip (off div 512) s = Ret ?b v" and q: "quiet s v" by (rule wpE) blast
  note D = quietD [OF q] quiet_file [OF q]
  have tv: "tx (Suc k) v" by (rule tx_quiet [OF t q])
  have r: "unat ?b < FSSIZE" "(ROOTDEV, ?b) \<notin> lkd v" using mp D by (simp_all add: mapped_def readable_def)
  obtain b w where w: "bread lr ROOTDEV ?b v = Ret b w" "b_data (bufs w b) = cview v ?b" "length (cview v ?b) = BSIZE"
    "putting k v ?b b w"
    by (rule tx_update [OF tv r, of lr]) (use c D in auto)
  let ?d = "bsplice (cview v ?b) (unat off mod BSIZE) bs"
  have "length ?d = BSIZE" using w(3) o(2) by simp
  then obtain x u where u: "log_write b (w\<lparr>bufs := (bufs w)(b := (bufs w b)\<lparr>b_data := ?d\<rparr>)\<rparr>) = Ret () x"
    "brelse b x = Ret () u" "stepped k v u" "cview u = (cview v)(?b := ?d)"
    by (rule puttingE [OF w(4)])
  have "file_sep v ip" using f(2) D by (simp add: file_sep_def)
  then have "wrote v ip (unat off) bs u"
    by (rule wrote_block) (use u steppedD [OF u(3)] w(3) o D in \<open>simp_all\<close>)
  then have "wrote s ip (unat off) bs u" using wrote_trans [OF wrote_quiet [OF q], where off = "unat off"] by simp
  then show ?thesis using v w(1,2) u dev D steppedD(1) [OF u(3)] by (intro exI [of _ u]) simp
qed

lemma next_block:
  assumes "m = min n (BSIZE - off mod BSIZE)" and "m < n" and "off mod BSIZE + n \<le> BSIZE * Suc K"
  shows "(off + m) mod BSIZE + (n - m) \<le> BSIZE * K"
proof -
  have m: "m = BSIZE - off mod BSIZE" using assms(1,2) by simp
  have l: "off mod BSIZE < BSIZE" by simp
  have "off + m = (off div BSIZE + 1) * BSIZE"
    unfolding distrib_right mult_1 using m l div_mult_mod_eq [of off BSIZE] by linarith
  then have z: "(off + m) mod BSIZE = 0" by simp
  have "n - m \<le> BSIZE * K" using assms(2,3) m l unfolding mult_Suc_right by linarith
  then show ?thesis unfolding z by simp
qed

lemma writei_loop_run:
  assumes "tx (K + k) s" and "card (lkd s) \<le> k" and "file_ok s ip" and "file_sep s ip"
    and "unat off + n \<le> unat (i_size (icache s ip))" and "n \<le> length src" and "n = 0 \<or> unat off mod BSIZE + n \<le> BSIZE * K"
  shows "\<exists>u. writei_loop lr ip src off n s = Ret (off + of_nat n) u \<and> tx k u \<and> wrote s ip (unat off) (take n src) u"
  using assms
proof (induction n arbitrary: off s src K rule: less_induct)
  case (less n)
  show ?case
  proof (cases "n = 0")
    case True
    have "wrote s ip (unat off) [] s" unfolding wrote_def by auto
    then show ?thesis using True tx_mono [OF less.prems(1), of k]
      by (intro exI [of _ s]) (subst writei_loop.simps, simp)
  next
    case False
    then obtain K' where K: "K = Suc K'" and le: "unat off mod BSIZE + n \<le> BSIZE * Suc K'"
      using less.prems(7) by (cases K) auto
    define m where "m = min n (BSIZE - unat off mod BSIZE)"
    have l: "unat off mod BSIZE < BSIZE" by simp
    have m: "0 < m" "m \<le> n" "m \<le> BSIZE - unat off mod BSIZE" using False l unfolding m_def by simp_all
    then have ml: "m \<le> length src" "unat off mod BSIZE + m \<le> BSIZE" using less.prems(6) l by linarith+
    have sz: "unat (i_size (icache s ip)) < 2 ^ 32" using unsigned_less [of "i_size (icache s ip)"] by simp
    have off: "unat (off + of_nat m) = unat off + m"
    proof -
      have "unat (of_nat m :: u32) = m" using less.prems(5) m(2) sz by (simp add: unat_of_nat take_bit_nat_eq_self)
      then show ?thesis using less.prems(5) m(2) sz by (simp add: unat_word_ariths)
    qed
    have "tx (Suc (K' + k)) s" using less.prems(1) K by simp
    from write_block_run [OF this, of ip off "take m src" lr "writei_loop lr ip (drop m src) (off + of_nat m) (n - m)"]
    obtain u where r: "writei_loop lr ip src off n s = writei_loop lr ip (drop m src) (off + of_nat m) (n - m) u"
      and u: "tx (K' + k) u" "wrote s ip (unat off) (take m src) u"
      using less.prems(2-5) m ml False by (subst (asm) writei_loop.simps [of _ _ src]) (auto simp: m_def)
    note W = wrote_inode [OF u(2)] and F = wrote_file [OF u(2) less.prems(4,3)]
    have "\<exists>v. writei_loop lr ip (drop m src) (off + of_nat m) (n - m) u = Ret (off + of_nat m + of_nat (n - m)) v \<and> tx k v
        \<and> wrote u ip (unat (off + of_nat m)) (take (n - m) (drop m src)) v"
    proof (rule less.IH)
      show "n - m = 0 \<or> unat (off + of_nat m) mod BSIZE + (n - m) \<le> BSIZE * K'"
        using next_block [OF m_def _ le] unfolding off by (cases "m < n") simp_all
    qed (use u(1) F W less.prems m off in auto)
    then obtain v where v: "writei_loop lr ip (drop m src) (off + of_nat m) (n - m) u = Ret (off + of_nat m + of_nat (n - m)) v"
      "tx k v" "wrote u ip (unat off + m) (take (n - m) (drop m src)) v" unfolding off by blast
    have "wrote s ip (unat off) (take m src @ take (n - m) (drop m src)) v"
      by (rule wrote_trans [OF u(2)]) (use v(3) ml(1) in simp)
    moreover have "take m src @ take (n - m) (drop m src) = take n src" using m(2) by (simp flip: take_add)
    moreover have "off + of_nat m + of_nat (n - m) = off + of_nat n" using m(2) by (simp add: add.assoc flip: of_nat_add)
    ultimately show ?thesis using r v by auto
  qed
qed

lemma file_size:
  assumes "file_ok s ip"
  shows "unat (i_size (icache s ip)) \<le> MAXFILE * BSIZE"
proof (rule ccontr)
  assume "\<not> ?thesis"
  then have "mapped s ip (MAXFILE * BSIZE div BSIZE)" using assms by (simp only: file_ok_def not_le)
  then show False by (simp add: mapped_def)
qed

text \<open>
  Property (C2). What is written is read back: in a transaction with room for the blocks concerned, \<^verbatim>\<open>writei\<close> inside a file returns \<^verbatim>\<open>n\<close> and changes
  exactly the bytes from \<^verbatim>\<open>off\<close> on to those of the source, across block boundaries and through the indirect block; no other byte of the file, no block that is
  not the file's, and no inode changes. \<^verbatim>\<open>readi\<close> then returns the bytes written.
\<close>

theorem writei_readi:
  assumes "tx (K + 1 + card (lkd s)) s" and "file_ok s ip" and "file_sep s ip"
    and "unat off + unat n \<le> unat (i_size (icache s ip))" and "unat off mod BSIZE + unat n \<le> BSIZE * K" and "length src = unat n"
  shows "\<exists>t u. writei lr ip src off n s = Ret (sint n) t \<and> wrote s ip (unat off) src t \<and> icache t = icache s
    \<and> readi lr ip off n t = Ret (sint n, src) u \<and> quiet t u"
proof -
  let ?sz = "i_size (icache s ip)"
  have l: "unat ?sz \<le> MAXFILE * BSIZE" by (rule file_size [OF assms(2)])
  have on: "unat (off + n) = unat off + unat n" using assms(4) l by (simp add: unat_word_ariths)
  have "tx (K + (1 + card (lkd s))) s" using assms(1) by (simp add: add.assoc)
  from writei_loop_run [OF this _ assms(2,3,4), of src lr] assms(5,6)
  obtain t where t: "writei_loop lr ip src off (unat n) s = Ret (off + n) t" "tx (1 + card (lkd s)) t" "wrote s ip (unat off) src t"
    by auto
  note W = wrote_inode [OF t(3)] and F = wrote_file [OF t(3) assms(3,2)]
  have g: "\<not> (?sz < off \<or> off + n < off)" "\<not> MAXFILE * BSIZE < unat (off + n)" "\<not> ?sz < off + n"
    using assms(4) l on by (simp_all add: word_less_nat_alt)
  have w: "writei lr ip src off n s = Ret (sint n) t"
    using t(1) g assms(2) W by (simp add: writei_def file_ok_def)
  have c: "cache_ready t" by (rule tx_cache_ready [OF t(2)]) (use W in simp)
  have "n \<le> ?sz - off"
    using assms(4) g(1) unat_sub [of off ?sz] by (simp add: word_le_nat_alt word_less_nat_alt)
  then have mn: "min n (?sz - off) = n" by simp
  have b: "map (fbyte t ip) [unat off..<unat off + unat n] = src"
    by (rule nth_equalityI) (use wroteD(2) [OF t(3)] assms(4,6) in auto)
  have "wp (readi lr ip off n) (\<lambda>r u. r = (sint n, src) \<and> quiet t u) t"
    by (rule readi_wp [OF c F(2)]) (use g(1) assms(4) l W mn b in \<open>auto simp: min_def not_less\<close>)
  then obtain u where "readi lr ip off n t = Ret (sint n, src) u" "quiet t u" by (rule wpE) blast
  then show ?thesis using w t(3) W by blast
qed

definition write_inode :: inode where
  "write_inode = inode0\<lparr>i_dev := ROOTDEV, i_inum := 5, i_ref := 1, i_valid := True, i_type := T_FILE, i_size := 1024,
     i_addrs := map (\<lambda>k. 100 + of_nat k) [0..<13]\<rparr>"

theorem writei_readi_witness:
  "\<exists>s t u. writei (\<lambda>_. panic []) 0 [1, 2, 3, 4] 510 4 s = Ret 4 t \<and> readi (\<lambda>_. panic []) 0 510 4 t = Ret (4, [1, 2, 3, 4]) u"
proof -
  obtain s where s: "tx 29 s" "lkd s = {}" "icache s = (\<lambda>_. write_inode)"
    using tx_ex [OF demo_disk_length, of demo_sb "\<lambda>_. write_inode"] by blast
  have d: "x div BSIZE < 2" if "x < 1024" for x :: nat using that by (simp add: div_less_iff_less_mult)
  have b: "file_block s 0 k = 100 + of_nat k" if "k < 12" for k using that s(3) by (simp add: file_block_def write_inode_def)
  have "file_block s 0 (x div BSIZE) = (if x div BSIZE = 0 then 100 else 101)" if "x < 1024" for x
    using b [of "x div BSIZE"] d [OF that] by (auto simp: less_2_cases_iff)
  moreover have "i_addrs (icache s 0) ! 12 = 112" "i_size (icache s 0) = 1024" using s(3) by (simp_all add: write_inode_def)
  ultimately have "file_ok s 0" "file_sep s 0"
    using s d by (auto simp: file_ok_def file_sep_def mapped_def readable_def write_inode_def less_2_cases_iff split: if_splits)
  moreover have "tx (2 + 1 + card (lkd s)) s" using tx_mono [OF s(1), of 3] s(2) by simp
  ultimately show ?thesis
    using writei_readi [of 2 s 0 510 4 "[1, 2, 3, 4]" "\<lambda>_. panic []"] s(3) by (auto simp: write_inode_def)
qed

end
