(* ===== verification/Kalloc.thy ===== *)
theory Kalloc
  imports Locks
begin

text \<open>
  The physical page allocator (\<^verbatim>\<open>kalloc.c\<close>). The free list runs through the free pages themselves:
  the first word of a free page is the address of the next one. \<open>mload\<close> and \<open>mstore\<close> read and
  write a stretch of memory. The pointer loop of \<^verbatim>\<open>freerange\<close> is written with natural numbers, since
  a C pointer does not wrap around.
\<close>

subsection \<open>Memory\<close>

definition mload :: "(u32 \<Rightarrow> u8) \<Rightarrow> u32 \<Rightarrow> nat \<Rightarrow> u8 list" where
  "mload m a n = map (\<lambda>i. m (a + of_nat i)) [0..<n]"

definition mstore :: "(u32 \<Rightarrow> u8) \<Rightarrow> u32 \<Rightarrow> u8 list \<Rightarrow> u32 \<Rightarrow> u8" where
  "mstore m a bs x = (if unat (x - a) < length bs then bs ! unat (x - a) else m x)"

definition load32 :: "(u32 \<Rightarrow> u8) \<Rightarrow> u32 \<Rightarrow> u32" where
  "load32 m a = get32 (mload m a 4) 0"

definition store32 :: "(u32 \<Rightarrow> u8) \<Rightarrow> u32 \<Rightarrow> u32 \<Rightarrow> u32 \<Rightarrow> u8" where
  "store32 m a w = mstore m a (bytes32 w)"

definition mem_write :: "u32 \<Rightarrow> u8 list \<Rightarrow> unit kM" where
  "mem_write a bs = modify (\<lambda>s. s\<lparr>mem := mstore (mem s) a bs\<rparr>)"

definition mem_write32 :: "u32 \<Rightarrow> u32 \<Rightarrow> unit kM" where
  "mem_write32 a w = modify (\<lambda>s. s\<lparr>mem := store32 (mem s) a w\<rparr>)"

lemmas mem_write_defs [simp, mon] = mem_write_def mem_write32_def

abbreviation (input) PGSIZE :: u32 where "PGSIZE \<equiv> 4096"
abbreviation (input) KERNBASE :: u32 where "KERNBASE \<equiv> 0x80000000"
abbreviation (input) PHYSTOP :: u32 where "PHYSTOP \<equiv> 0xE000000"

definition V2P :: "u32 \<Rightarrow> u32" where
  "V2P a = a - KERNBASE"

definition P2V :: "u32 \<Rightarrow> u32" where
  "P2V a = a + KERNBASE"

definition PGROUNDUP :: "u32 \<Rightarrow> u32" where
  "PGROUNDUP sz = (sz + PGSIZE - 1) AND NOT (PGSIZE - 1)"

definition PGROUNDDOWN :: "u32 \<Rightarrow> u32" where
  "PGROUNDDOWN a = a AND NOT (PGSIZE - 1)"

subsection \<open>Operations\<close>

definition kfree :: "u32 \<Rightarrow> unit kM" where
  "kfree v =
     bind (gets kend) (\<lambda>e.
     bind (panic_if (v mod PGSIZE \<noteq> 0 \<or> v < e \<or> PHYSTOP \<le> V2P v) ''kfree'') (\<lambda>_.
     bind (mem_write v (replicate 4096 1)) (\<lambda>_.
     bind (gets use_lock) (\<lambda>ul.
     bind (when_do ul (acquire Lk_kmem)) (\<lambda>_.
     bind (gets freelist) (\<lambda>fl.
     bind (mem_write32 v fl) (\<lambda>_.
     bind (modify (\<lambda>s. s\<lparr>freelist := v\<rparr>)) (\<lambda>_.
     when_do ul (release Lk_kmem)))))))))"

definition kalloc :: "u32 kM" where
  "kalloc =
     bind (gets use_lock) (\<lambda>ul.
     bind (when_do ul (acquire Lk_kmem)) (\<lambda>_.
     bind (gets freelist) (\<lambda>r.
     bind (when_do (r \<noteq> 0) (modify (\<lambda>s. s\<lparr>freelist := load32 (mem s) r\<rparr>))) (\<lambda>_.
     bind (when_do ul (release Lk_kmem)) (\<lambda>_.
     ret r)))))"

function freerange_from :: "nat \<Rightarrow> nat \<Rightarrow> unit kM" where
  "freerange_from p vend =
     (if p + 4096 \<le> vend then bind (kfree (of_nat p)) (\<lambda>_. freerange_from (p + 4096) vend)
      else ret ())"
  by pat_completeness auto
termination
  by (relation "measure (\<lambda>(p, vend). vend - p)") auto

declare freerange_from.simps [simp del]

definition freerange :: "u32 \<Rightarrow> u32 \<Rightarrow> unit kM" where
  "freerange vstart vend = freerange_from (unat (PGROUNDUP vstart)) (unat vend)"

definition kinit1 :: "u32 \<Rightarrow> u32 \<Rightarrow> unit kM" where
  "kinit1 vstart vend =
     bind (modify (\<lambda>s. s\<lparr>use_lock := False\<rparr>)) (\<lambda>_.
     freerange vstart vend)"

definition kinit2 :: "u32 \<Rightarrow> u32 \<Rightarrow> unit kM" where
  "kinit2 vstart vend =
     bind (freerange vstart vend) (\<lambda>_.
     modify (\<lambda>s. s\<lparr>use_lock := True\<rparr>))"

subsection \<open>Reading what was written\<close>

lemma unat_idx: "i < 2 ^ 32 \<Longrightarrow> unat (a + of_nat i - a :: u32) = i"
  by (simp add: unat_of_nat take_bit_nat_eq_self)

lemma mload_mstore:
  assumes "length bs \<le> 2 ^ 32"
  shows "mload (mstore m a bs) a (length bs) = bs"
proof (rule nth_equalityI)
  fix i assume i: "i < length (mload (mstore m a bs) a (length bs))"
  then have l: "i < length bs" "i < 2 ^ 32" using assms by (simp_all add: mload_def)
  then have "mload (mstore m a bs) a (length bs) ! i = mstore m a bs (a + of_nat i)" by (simp add: mload_def)
  also have "\<dots> = bs ! i" unfolding mstore_def unat_idx [OF l(2)] using l by simp
  finally show "mload (mstore m a bs) a (length bs) ! i = bs ! i" .
qed (simp add: mload_def)

lemma load32_store32 [simp]: "load32 (store32 m a w) a = w"
proof -
  have "mload (store32 m a w) a 4 = bytes32 w"
    using mload_mstore [of "bytes32 w" m a] by (simp add: store32_def)
  then show ?thesis by (simp add: load32_def get32_def bslice_def)
qed

lemma load32_cong: "(\<And>i. i < 4 \<Longrightarrow> m (a + of_nat i) = m' (a + of_nat i)) \<Longrightarrow> load32 m a = load32 m' a"
  unfolding load32_def mload_def by (intro arg_cong2 [where f = get32] map_cong) auto

text \<open>Different pages do not overlap.\<close>

lemma aligned_diff:
  assumes "(a :: u32) mod 4096 = 0" and "b mod 4096 = 0" and "a \<noteq> b"
  shows "4096 \<le> unat (b - a)" and "unat (b - a) mod 4096 = 0" and "unat (b - a) \<le> 2 ^ 32 - 4096"
proof -
  have ua: "unat a mod 4096 = 0" and ub: "unat b mod 4096 = 0"
    using arg_cong [OF assms(1), of unat] arg_cong [OF assms(2), of unat] by (simp_all add: unat_mod)
  let ?d = "unat (b - a)"
  have d: "?d = (if unat a \<le> unat b then unat b - unat a else unat b + 2 ^ 32 - unat a)"
    using unat_sub_if' [of b a] by simp
  have lt: "unat a < 2 ^ 32" "unat b < 2 ^ 32" "?d < 2 ^ 32" using unsigned_less [of a] unsigned_less [of b] unsigned_less [of "b - a"] by simp_all
  obtain k l where k: "unat a = 4096 * k" "unat b = 4096 * l" using ua ub by (meson dvd_def mod_0_imp_dvd)
  show m: "?d mod 4096 = 0"
  proof (cases "unat a \<le> unat b")
    case True
    then show ?thesis unfolding d k by (simp flip: diff_mult_distrib2)
  next
    case False
    have "4096 * l + 2 ^ 32 - 4096 * k = 4096 * (l + 2 ^ 20 - k)" by (simp add: diff_mult_distrib2)
    then show ?thesis using False unfolding d k by simp
  qed
  have "?d \<noteq> 0" using assms(3) by (auto simp: unat_eq_zero)
  obtain j where j: "?d = 4096 * j" using m by (meson dvd_def mod_0_imp_dvd)
  with \<open>?d \<noteq> 0\<close> show "4096 \<le> ?d" by (cases j) auto
  from j lt(3) have "j < 2 ^ 20" by simp
  then have "j \<le> 2 ^ 20 - 1" by simp
  then show "?d \<le> 2 ^ 32 - 4096" unfolding j by simp
qed

lemma page_disjoint:
  assumes "(a :: u32) mod 4096 = 0" and "b mod 4096 = 0" and "a \<noteq> b" and "i < 4096"
  shows "4096 \<le> unat (b + of_nat i - a)"
proof -
  have ui: "unat (of_nat i :: u32) = i" using assms(4) by (simp add: unat_of_nat take_bit_nat_eq_self)
  note d = aligned_diff [OF assms(1-3)]
  have "unat ((b - a) + of_nat i) = unat (b - a) + i"
    using d(3) assms(4) ui by (simp add: unat_word_ariths)
  moreover have e: "b + of_nat i - a = (b - a) + of_nat i" by simp
  ultimately show ?thesis unfolding e using d(1) by linarith
qed

lemma mstore_other_page:
  assumes "a mod 4096 = 0" and "b mod 4096 = 0" and "a \<noteq> b" and "i < 4096" and "length bs \<le> 4096"
  shows "mstore m a bs (b + of_nat i) = m (b + of_nat i)"
  using page_disjoint [OF assms(1-4)] assms(5) by (simp add: mstore_def)

lemma load32_other_page:
  assumes "a mod 4096 = 0" and "b mod 4096 = 0" and "a \<noteq> b" and "length bs \<le> 4096"
  shows "load32 (mstore m a bs) b = load32 m b"
  by (rule load32_cong, rule mstore_other_page) (use assms in auto)

subsection \<open>Rounding to pages\<close>

lemma mask12: "(4095 :: u32) = mask 12"
  by (simp add: mask_eq_exp_minus_1)

lemma pgdown_split: "PGROUNDDOWN a + take_bit 12 a = a"
proof -
  have "PGROUNDDOWN a AND take_bit 12 a = 0"
    by (rule bit_eqI) (simp add: PGROUNDDOWN_def mask12 bit_simps)
  then have "PGROUNDDOWN a + take_bit 12 a = PGROUNDDOWN a OR take_bit 12 a" by (rule disjunctive_add_eq_or)
  also have "\<dots> = a" by (rule bit_eqI) (auto simp: PGROUNDDOWN_def mask12 bit_simps)
  finally show ?thesis .
qed

lemma page_offset: "unat (a - PGROUNDDOWN a) = unat a mod 4096"
proof -
  have "a - PGROUNDDOWN a = take_bit 12 a" using pgdown_split [of a] by (metis add_diff_cancel_left')
  then show ?thesis by (simp add: take_bit_eq_mod unat_mod)
qed

lemma unat_pgdown: "unat (PGROUNDDOWN a) = unat a - unat a mod 4096"
proof -
  have e: "PGROUNDDOWN a = a - take_bit 12 a" using pgdown_split [of a] by (metis add_diff_cancel_right')
  have t: "unat (take_bit 12 a) = unat a mod 4096" by (simp add: take_bit_eq_mod unat_mod)
  then have "take_bit 12 a \<le> a" by (simp add: word_le_nat_alt)
  then show ?thesis unfolding e using t by (simp add: unat_sub)
qed

lemma pgdown_aligned: "PGROUNDDOWN a mod 4096 = 0"
  by (simp add: word_unat_eq_iff unat_mod unat_pgdown mod_diff_right_eq minus_mod_eq_mult_div)

lemma pgdown_idem: "a mod 4096 = 0 \<Longrightarrow> PGROUNDDOWN a = a"
  by (simp add: word_unat_eq_iff unat_mod unat_pgdown)

lemma unat_pgup:
  assumes "unat a + 4095 < 2 ^ 32"
  shows "unat (PGROUNDUP a) = (unat a + 4095) div 4096 * 4096"
proof -
  have e: "PGROUNDUP a = PGROUNDDOWN (a + 4095)" by (simp add: PGROUNDUP_def PGROUNDDOWN_def add.commute)
  have "unat (a + 4095) = unat a + 4095" using assms by (simp add: unat_word_ariths)
  then show ?thesis unfolding e unat_pgdown by (simp add: minus_mod_eq_div_mult)
qed

subsection \<open>The free list\<close>

primrec flist :: "(u32 \<Rightarrow> u8) \<Rightarrow> u32 \<Rightarrow> u32 list \<Rightarrow> bool" where
  "flist m p [] \<longleftrightarrow> p = 0"
| "flist m p (q # qs) \<longleftrightarrow> p = q \<and> q \<noteq> 0 \<and> flist m (load32 m q) qs"

definition pg_ok :: "kstate \<Rightarrow> u32 \<Rightarrow> bool" where
  "pg_ok s v \<longleftrightarrow> v \<noteq> 0 \<and> v mod PGSIZE = 0 \<and> \<not> v < kend s \<and> \<not> PHYSTOP \<le> V2P v"

definition free_ok :: "kstate \<Rightarrow> u32 list \<Rightarrow> bool" where
  "free_ok s ps \<longleftrightarrow> flist (mem s) (freelist s) ps \<and> distinct ps \<and> (\<forall>v\<in>set ps. pg_ok s v) \<and> Lk_kmem \<notin> set (held s)"

lemma flist_cong: "(\<And>v. v \<in> set ps \<Longrightarrow> load32 m v = load32 m' v) \<Longrightarrow> flist m p ps \<longleftrightarrow> flist m' p ps"
  by (induction ps arbitrary: p) auto

lemma flist_unique: "flist m p ps \<Longrightarrow> flist m p qs \<Longrightarrow> ps = qs"
proof (induction ps arbitrary: p qs)
  case Nil
  then show ?case by (cases qs) auto
next
  case (Cons a ps)
  then show ?case by (cases qs) auto
qed

lemma kalloc_run:
  assumes "free_ok s ps"
  shows "kalloc s = (case ps of [] \<Rightarrow> Ret 0 s | v # qs \<Rightarrow> Ret v (s\<lparr>freelist := load32 (mem s) v\<rparr>))"
    and "ps = v # qs \<Longrightarrow> free_ok (s\<lparr>freelist := load32 (mem s) v\<rparr>) qs"
  using assms by (cases ps; simp add: kalloc_def free_ok_def pg_ok_def)+

lemma kfree_run:
  assumes ok: "free_ok s ps" and v: "pg_ok s v" "v \<notin> set ps"
  obtains m where "kfree v s = Ret () (s\<lparr>mem := m, freelist := v\<rparr>)" and "free_ok (s\<lparr>mem := m, freelist := v\<rparr>) (v # ps)"
    and "\<forall>x. 4096 \<le> unat (x - v) \<longrightarrow> m x = mem s x"
proof -
  let ?m1 = "mstore (mem s) v (replicate 4096 1)"
  let ?m = "store32 ?m1 v (freelist s)"
  have r: "kfree v s = Ret () (s\<lparr>mem := ?m, freelist := v\<rparr>)"
    using ok v(1) by (simp add: kfree_def free_ok_def pg_ok_def)
  have "load32 ?m w = load32 (mem s) w" if "w \<in> set ps" for w
  proof -
    have w: "w mod 4096 = 0" "v mod 4096 = 0" "v \<noteq> w"
      using ok v that by (auto simp: free_ok_def pg_ok_def)
    show ?thesis unfolding store32_def by (simp add: load32_other_page [OF w(2,1,3)])
  qed
  then have "flist ?m (freelist s) ps" using ok flist_cong [of ps ?m "mem s"] by (simp add: free_ok_def)
  then have "free_ok (s\<lparr>mem := ?m, freelist := v\<rparr>) (v # ps)"
    using ok v by (simp add: free_ok_def pg_ok_def)
  moreover have "?m x = mem s x" if "4096 \<le> unat (x - v)" for x
    using that by (simp add: store32_def mstore_def)
  ultimately show ?thesis using r that by blast
qed

text \<open>
  (C35) The allocator is a stack of free pages. \<^verbatim>\<open>kalloc\<close> returns the page freed last and removes it, or 0
  exactly when no page is free; \<^verbatim>\<open>kfree\<close> pushes a page that is not free yet. Neither writes outside
  the page concerned, although the links of the list are stored in the free pages.
\<close>

theorem kalloc_refines_stack:
  assumes "free_ok s ps" and "pg_ok s v" and "v \<notin> set ps"
  shows "kalloc s = (case ps of [] \<Rightarrow> Ret 0 s | w # qs \<Rightarrow> Ret w (s\<lparr>freelist := load32 (mem s) w\<rparr>))
     \<and> (\<forall>w qs. ps = w # qs \<longrightarrow> free_ok (s\<lparr>freelist := load32 (mem s) w\<rparr>) qs \<and> w \<notin> set qs)
     \<and> (\<exists>t. kfree v s = Ret () t \<and> free_ok t (v # ps) \<and> (\<forall>x. 4096 \<le> unat (x - v) \<longrightarrow> mem t x = mem s x)
          \<and> (\<exists>u. kalloc t = Ret v u \<and> free_ok u ps))"
proof (intro conjI)
  show "kalloc s = (case ps of [] \<Rightarrow> Ret 0 s | w # qs \<Rightarrow> Ret w (s\<lparr>freelist := load32 (mem s) w\<rparr>))"
    by (rule kalloc_run(1) [OF assms(1)])
  show "\<forall>w qs. ps = w # qs \<longrightarrow> free_ok (s\<lparr>freelist := load32 (mem s) w\<rparr>) qs \<and> w \<notin> set qs"
    using kalloc_run(2) [OF assms(1)] assms(1) by (auto simp: free_ok_def)
  obtain m where m: "kfree v s = Ret () (s\<lparr>mem := m, freelist := v\<rparr>)" "free_ok (s\<lparr>mem := m, freelist := v\<rparr>) (v # ps)"
    "\<forall>x. 4096 \<le> unat (x - v) \<longrightarrow> m x = mem s x"
    by (rule kfree_run [OF assms])
  let ?t = "s\<lparr>mem := m, freelist := v\<rparr>"
  have "kalloc ?t = Ret v (?t\<lparr>freelist := load32 m v\<rparr>)" "free_ok (?t\<lparr>freelist := load32 m v\<rparr>) ps"
    using kalloc_run [OF m(2)] by simp_all
  then show "\<exists>t. kfree v s = Ret () t \<and> free_ok t (v # ps) \<and> (\<forall>x. 4096 \<le> unat (x - v) \<longrightarrow> mem t x = mem s x)
      \<and> (\<exists>u. kalloc t = Ret v u \<and> free_ok u ps)"
    using m by (intro exI [of _ ?t]) auto
qed

lemma free_ok0: "free_ok (kstate0 D) []"
  by (simp add: free_ok_def kstate0_def)

theorem kalloc_refines_stack_witness:
  "\<exists>t u. kfree 0x80400000 (kstate0 (\<lambda>_ _. [])) = Ret () t \<and> kalloc t = Ret 0x80400000 u"
proof -
  have "pg_ok (kstate0 (\<lambda>_ _. [])) 0x80400000" by (simp add: pg_ok_def V2P_def kstate0_def)
  from kalloc_refines_stack [OF free_ok0 this] show ?thesis by auto
qed

end
