(* ===== verification/Pipe.thy ===== *)
theory Pipe
  imports Kalloc Ring
begin

text \<open>
  Pipes (\<^verbatim>\<open>pipe.c\<close>; \<^verbatim>\<open>pipealloc\<close>, which needs the open-file table, is with the files). A pipe is
  named by the address of its page. \<^verbatim>\<open>piperead\<close> returns the C result together with the bytes stored at
  \<^verbatim>\<open>addr\<close>, \<^verbatim>\<open>pipewrite\<close> gets the bytes at \<^verbatim>\<open>addr\<close> as a list. A call that has to wait ends with the outcome
  \<open>Sleep\<close>; woken, it goes on in its loop, \<^verbatim>\<open>pipewrite\<close> with the bytes it has not stored yet.
\<close>

abbreviation (input) PIPESIZE :: nat where "PIPESIZE \<equiv> 512"

subsection \<open>Operations\<close>

definition pipeclose :: "nat \<Rightarrow> bool \<Rightarrow> unit kM" where
  "pipeclose p writable =
     bind (acquire (Lk_pipe p)) (\<lambda>_.
     bind (if writable then
             bind (upd_pipe p (\<lambda>q. q\<lparr>pi_writeopen := False\<rparr>)) (\<lambda>_.
             wakeup (Ch_nread p))
           else
             bind (upd_pipe p (\<lambda>q. q\<lparr>pi_readopen := False\<rparr>)) (\<lambda>_.
             wakeup (Ch_nwrite p))) (\<lambda>_.
     bind (gets (\<lambda>s. pipes s p)) (\<lambda>q.
     if \<not> pi_readopen q \<and> \<not> pi_writeopen q then
       bind (release (Lk_pipe p)) (\<lambda>_.
       kfree (of_nat p))
     else release (Lk_pipe p))))"

text \<open>The loop over the bytes still to be written; false when the call has to return -1.\<close>

primrec pipewrite_loop :: "nat \<Rightarrow> u8 list \<Rightarrow> bool kM" where
  "pipewrite_loop p [] = ret True"
| "pipewrite_loop p (c # cs) =
     bind (gets (\<lambda>s. pipes s p)) (\<lambda>q.
     if pi_nwrite q = pi_nread q + of_nat PIPESIZE then
       bind myproc (\<lambda>me.
       bind (gets (\<lambda>s. p_killed (ptable s me))) (\<lambda>killed.
       if \<not> pi_readopen q \<or> killed then
         bind (release (Lk_pipe p)) (\<lambda>_.
         ret False)
       else
         bind (wakeup (Ch_nread p)) (\<lambda>_.
         sleep (Ch_nwrite p) (Lk_pipe p))))
     else
       bind (upd_pipe p (\<lambda>q. q\<lparr>pi_data := (pi_data q)(unat (pi_nwrite q) mod PIPESIZE := c),
               pi_nwrite := pi_nwrite q + 1\<rparr>)) (\<lambda>_.
       pipewrite_loop p cs))"

text \<open>From the top of the loop on, holding the lock; \<open>r\<close> is what the call returns at the end.\<close>

definition pipewrite_resume :: "nat \<Rightarrow> u8 list \<Rightarrow> int \<Rightarrow> int kM" where
  "pipewrite_resume p bs r =
     bind (pipewrite_loop p bs) (\<lambda>ok.
     if ok then
       bind (wakeup (Ch_nread p)) (\<lambda>_.
       bind (release (Lk_pipe p)) (\<lambda>_.
       ret r))
     else ret (-1))"

definition pipewrite :: "nat \<Rightarrow> u8 list \<Rightarrow> int \<Rightarrow> int kM" where
  "pipewrite p addr n =
     bind (acquire (Lk_pipe p)) (\<lambda>_.
     pipewrite_resume p (take (nat n) addr) n)"

primrec piperead_copy :: "nat \<Rightarrow> nat \<Rightarrow> u8 list kM" where
  "piperead_copy p 0 = ret []"
| "piperead_copy p (Suc n) =
     bind (gets (\<lambda>s. pipes s p)) (\<lambda>q.
     if pi_nread q = pi_nwrite q then ret []
     else
       bind (upd_pipe p (\<lambda>q. q\<lparr>pi_nread := pi_nread q + 1\<rparr>)) (\<lambda>_.
       bind (piperead_copy p n) (\<lambda>cs.
       ret (pi_data q (unat (pi_nread q) mod PIPESIZE) # cs))))"

definition piperead :: "nat \<Rightarrow> int \<Rightarrow> (int \<times> u8 list) kM" where
  "piperead p n =
     bind (acquire (Lk_pipe p)) (\<lambda>_.
     bind (gets (\<lambda>s. pipes s p)) (\<lambda>q.
     if pi_nread q = pi_nwrite q \<and> pi_writeopen q then
       bind myproc (\<lambda>me.
       bind (gets (\<lambda>s. p_killed (ptable s me))) (\<lambda>killed.
       if killed then
         bind (release (Lk_pipe p)) (\<lambda>_.
         ret (-1, []))
       else sleep (Ch_nread p) (Lk_pipe p)))
     else
       bind (piperead_copy p (nat n)) (\<lambda>cs.
       bind (wakeup (Ch_nwrite p)) (\<lambda>_.
       bind (release (Lk_pipe p)) (\<lambda>_.
       ret (int (length cs), cs))))))"

end
