(* ===== verification/Loopdev.thy ===== *)
theory Loopdev
  imports Namex
begin

text \<open>
  Loop devices (\<^verbatim>\<open>loopdev.c\<close>): a block device whose blocks are the blocks of a file. Reading a block
  of the device reads the file, and the file's own blocks are read with \<^verbatim>\<open>bread\<close> again, possibly
  from another loop device; \<open>lr_at n\<close> and \<open>lw_at n\<close> are the functions with at most \<open>n\<close> levels of
  that recursion, a deeper one being a \<open>Fault\<close> (the kernel stack is finite, too).
\<close>

definition getlloopdevi :: "u32 \<Rightarrow> nat option kM" where
  "getlloopdevi devno =
     (let loopdevno = unat (devno AND NOT LOOPDEV_MASK) in
      bind (panic_if (NLOOPDEV \<le> loopdevno) ''[getloopdevi] invalid loop device number'') (\<lambda>_.
      gets (\<lambda>s. ld_ip (loopdevtable s loopdevno))))"

definition getorcreatedev :: "nat \<Rightarrow> u32 kM" where
  "getorcreatedev ip =
     bind (acquire Lk_loopdev) (\<lambda>_.
     bind (gets loopdevtable) (\<lambda>tab.
     case find (\<lambda>i. ld_used (tab i) \<and> ld_ip (tab i) = Some ip) [0..<NLOOPDEV] of
       Some i \<Rightarrow>
         bind (release Lk_loopdev) (\<lambda>_.
         ret (of_nat i OR LOOPDEV_MASK))
     | None \<Rightarrow>
         (case find (\<lambda>i. \<not> ld_used (tab i)) [0..<NLOOPDEV] of
            None \<Rightarrow> panic ''[getorcreatedev] no free loop device''
          | Some i \<Rightarrow>
              bind (upd_loopdev i (\<lambda>d. d\<lparr>ld_used := True\<rparr>)) (\<lambda>_.
              bind (release Lk_loopdev) (\<lambda>_.
              bind (idup ip) (\<lambda>ip.
              bind (upd_loopdev i (\<lambda>d. d\<lparr>ld_ip := Some ip\<rparr>)) (\<lambda>_.
              ret (of_nat i OR LOOPDEV_MASK))))))))"

definition devput :: "u32 \<Rightarrow> unit kM" where
  "devput devno =
     bind (panic_if (\<not> isloopdev devno) ''[devput] devno is not a loop device'') (\<lambda>_.
     (let loopdevno = unat (devno AND NOT LOOPDEV_MASK) in
      bind (acquire Lk_loopdev) (\<lambda>_.
      bind (if loopdevno < NLOOPDEV then upd_loopdev loopdevno (\<lambda>d. d\<lparr>ld_used := False\<rparr>)
            else fault ''loopdevtable index'') (\<lambda>_.
      release Lk_loopdev))))"

definition loopdev_read :: "(nat \<Rightarrow> unit kM) \<Rightarrow> nat \<Rightarrow> unit kM" where
  "loopdev_read lr b =
     bind (gets (\<lambda>s. bufs s b)) (\<lambda>bf.
     bind (getlloopdevi (b_dev bf)) (\<lambda>ip.
     bind (ilock lr ip) (\<lambda>_.
     bind (deref ip) (\<lambda>i.
     bind (readi lr i (b_blockno bf * of_nat BSIZE) (of_nat BSIZE)) (\<lambda>(res, d).
     bind (upd_buf b (\<lambda>bf. bf\<lparr>b_data := bsplice (b_data bf) 0 d\<rparr>)) (\<lambda>_.
     bind (iunlock ip) (\<lambda>_.
     upd_buf b (\<lambda>bf. bf\<lparr>b_valid := True, b_dirty := False\<rparr>))))))))"

definition loopdev_write :: "(nat \<Rightarrow> unit kM) \<Rightarrow> nat \<Rightarrow> unit kM" where
  "loopdev_write lr b =
     bind (modify (\<lambda>s. s\<lparr>log := (log s)\<lparr>l_outstanding := l_outstanding (log s) + 1\<rparr>\<rparr>)) (\<lambda>_.
     bind (gets (\<lambda>s. bufs s b)) (\<lambda>bf.
     bind (getlloopdevi (b_dev bf)) (\<lambda>ip.
     bind (deref ip) (\<lambda>i.
     bind (writei lr i (b_data bf) (b_blockno bf * of_nat BSIZE) (of_nat BSIZE)) (\<lambda>_.
     bind (upd_buf b (\<lambda>bf. bf\<lparr>b_valid := True, b_dirty := False\<rparr>)) (\<lambda>_.
     bind (modify (\<lambda>s. s\<lparr>log := (log s)\<lparr>l_outstanding := l_outstanding (log s) - 1\<rparr>\<rparr>)) (\<lambda>_.
     bind (gets (\<lambda>s. l_outstanding (log s))) (\<lambda>n.
     panic_if (n \<noteq> 0) ''[loopdev_write] trick failed''))))))))"

primrec lr_at :: "nat \<Rightarrow> nat \<Rightarrow> unit kM" where
  "lr_at 0 b = fault ''loop devices nested too deep''"
| "lr_at (Suc n) b = loopdev_read (lr_at n) b"

definition lw_at :: "nat \<Rightarrow> nat \<Rightarrow> unit kM" where
  "lw_at n b = loopdev_write (lr_at n) b"

end
