(* ===== verification/Slot_Tables.thy ===== *)
theory Slot_Tables
  imports Locks
begin

text \<open>
  Two contracts that many tables of the kernel share. A \<open>ref_table\<close> counts references: one
  operation takes a reference on a slot, another gives one back, and for some slots also the last one. A \<open>slot_table\<close> hands out free
  slots, the lowest first. The lemmas say what sequences of such operations do; the theories of
  the tables interpret the locales on their own operations.
\<close>

subsection \<open>Reference counts\<close>

datatype ref_op = Dup nat | Put nat

primrec run_refs :: "(nat \<Rightarrow> 'a kM) \<Rightarrow> (nat \<Rightarrow> unit kM) \<Rightarrow> ref_op list \<Rightarrow> unit kM" where
  "run_refs dup put [] = ret ()"
| "run_refs dup put (p # ps) =
     (case p of
        Dup i \<Rightarrow> bind (dup i) (\<lambda>_. run_refs dup put ps)
      | Put i \<Rightarrow> bind (put i) (\<lambda>_. run_refs dup put ps))"

text \<open>
  A sequence of operations by holders of references: a reference is taken or given back only while there is one, and the last one is given back only for the
  slots \<open>closable\<close>.
\<close>

primrec refs_legal :: "nat \<Rightarrow> (nat \<Rightarrow> bool) \<Rightarrow> (nat \<Rightarrow> int) \<Rightarrow> ref_op list \<Rightarrow> bool" where
  "refs_legal N closable r [] = True"
| "refs_legal N closable r (p # ps) =
     (case p of
        Dup i \<Rightarrow> i < N \<and> 0 < r i \<and> refs_legal N closable (r(i := r i + 1)) ps
      | Put i \<Rightarrow> i < N \<and> (if closable i then 0 else 1) < r i \<and> refs_legal N closable (r(i := r i - 1)) ps)"

definition refs_after :: "(nat \<Rightarrow> int) \<Rightarrow> ref_op list \<Rightarrow> nat \<Rightarrow> int" where
  "refs_after r ps i = r i + int (count_list ps (Dup i)) - int (count_list ps (Put i))"

locale ref_table =
  fixes N :: nat and refs :: "kstate \<Rightarrow> nat \<Rightarrow> int"
    and dup :: "nat \<Rightarrow> 'a kM" and put :: "nat \<Rightarrow> unit kM" and ok :: "kstate \<Rightarrow> bool"
    and closable :: "nat \<Rightarrow> bool"
  assumes dup_law: "ok s \<Longrightarrow> i < N \<Longrightarrow> 0 < refs s i \<Longrightarrow>
      \<exists>x u. dup i s = Ret x u \<and> ok u \<and> refs u = (refs s)(i := refs s i + 1)"
    and put_law: "ok s \<Longrightarrow> i < N \<Longrightarrow> (if closable i then 0 else 1) < refs s i \<Longrightarrow>
      \<exists>u. put i s = Ret () u \<and> ok u \<and> refs u = (refs s)(i := refs s i - 1)"
begin

lemma counted:
  "ok s \<Longrightarrow> refs_legal N closable (refs s) ps \<Longrightarrow>
   \<exists>u. run_refs dup put ps s = Ret () u \<and> ok u \<and> refs u = refs_after (refs s) ps"
proof (induction ps arbitrary: s)
  case Nil
  then show ?case by (simp add: refs_after_def fun_eq_iff)
next
  case (Cons p ps)
  show ?case
  proof (cases p)
    case (Dup i)
    with Cons.prems obtain x t where t: "dup i s = Ret x t" "ok t" "refs t = (refs s)(i := refs s i + 1)"
      using dup_law [of s i] by auto
    with Cons.prems Dup have "refs_legal N closable (refs t) ps" by simp
    from Cons.IH [OF t(2) this] obtain u where "run_refs dup put ps t = Ret () u" "ok u"
      "refs u = refs_after (refs t) ps" by blast
    with t Dup show ?thesis by (auto simp: refs_after_def fun_eq_iff)
  next
    case (Put i)
    with Cons.prems obtain t where t: "put i s = Ret () t" "ok t" "refs t = (refs s)(i := refs s i - 1)"
      using put_law [of s i] by auto
    with Cons.prems Put have "refs_legal N closable (refs t) ps" by simp
    from Cons.IH [OF t(2) this] obtain u where "run_refs dup put ps t = Ret () u" "ok u"
      "refs u = refs_after (refs t) ps" by blast
    with t Put show ?thesis by (auto simp: refs_after_def fun_eq_iff)
  qed
qed

end

subsection \<open>Free slots\<close>

primrec run_allocs :: "nat option kM \<Rightarrow> nat \<Rightarrow> nat list kM" where
  "run_allocs alloc 0 = ret []"
| "run_allocs alloc (Suc n) =
     bind alloc (\<lambda>r.
     case r of None \<Rightarrow> ret []
     | Some i \<Rightarrow> bind (run_allocs alloc n) (\<lambda>ks. ret (i # ks)))"

locale slot_table =
  fixes N :: nat and free :: "kstate \<Rightarrow> nat \<Rightarrow> bool" and alloc :: "nat option kM" and ok :: "kstate \<Rightarrow> bool"
  assumes alloc_law: "ok s \<Longrightarrow> i < N \<Longrightarrow> free s i \<Longrightarrow> (\<And>j. j < i \<Longrightarrow> \<not> free s j) \<Longrightarrow>
      \<exists>u. alloc s = Ret (Some i) u \<and> ok u \<and> (\<forall>j<N. free u j \<longleftrightarrow> free s j \<and> j \<noteq> i)"
    and full_law: "ok s \<Longrightarrow> (\<And>i. i < N \<Longrightarrow> \<not> free s i) \<Longrightarrow> \<exists>u. alloc s = Ret None u"
begin

text \<open>Repeated allocation returns the free slots in ascending order and stops when none is left.\<close>

lemma in_order:
  "ok s \<Longrightarrow> \<exists>u. run_allocs alloc n s = Ret (take n (filter (free s) [0..<N])) u"
proof (induction n arbitrary: s)
  case (Suc n)
  show ?case
  proof (cases "filter (free s) [0..<N]")
    case Nil
    then have "\<not> free s i" if "i < N" for i using that by (auto simp: filter_empty_conv)
    from full_law [OF Suc.prems this] show ?thesis using Nil by auto
  next
    case (Cons i ks)
    then obtain us vs where e: "[0..<N] = us @ i # vs" "\<forall>u\<in>set us. \<not> free s u" "free s i" "ks = filter (free s) vs"
      using filter_eq_ConsD [OF Cons] by blast
    have "i \<in> set [0..<N]" unfolding e(1) by simp
    then have i: "i < N" by simp
    have "length us < N" using arg_cong [OF e(1), of length] by simp
    then have "length us = i" using arg_cong [OF e(1), of "\<lambda>l. l ! length us"] by simp
    then have us: "us = [0..<i]" using arg_cong [OF e(1), of "take i"] i by (simp add: take_upt)
    then have "\<not> free s j" if "j < i" for j using e(2) that by simp
    from alloc_law [OF Suc.prems i e(3) this] obtain t where
      t: "alloc s = Ret (Some i) t" "ok t" "\<forall>j<N. free t j \<longleftrightarrow> free s j \<and> j \<noteq> i" by blast
    have "filter (free t) [0..<N] = filter (\<lambda>j. free s j \<and> j \<noteq> i) [0..<N]"
      by (rule filter_cong) (use t(3) in auto)
    also have "\<dots> = filter (\<lambda>j. j \<noteq> i) (i # ks)" unfolding Cons [symmetric] by (simp add: conj_commute)
    also have "\<dots> = ks"
    proof -
      have "distinct (i # ks)" unfolding Cons [symmetric] by (rule distinct_filter) simp
      then show ?thesis by (auto intro: filter_True)
    qed
    finally have "filter (free t) [0..<N] = ks" .
    with Suc.IH [OF t(2)] t(1) show ?thesis unfolding Cons by auto
  qed
qed simp

end

end
