(* ===== verification/File.thy ===== *)
theory File
  imports Pipe Loopdev Slot_Tables
begin

text \<open>
  Open files (\<^verbatim>\<open>file.c\<close>) and \<^verbatim>\<open>pipealloc\<close> of \<^verbatim>\<open>pipe.c\<close>. \<^verbatim>\<open>fileread\<close> returns the C result together with
  the bytes stored at \<^verbatim>\<open>addr\<close>; \<^verbatim>\<open>filewrite\<close> gets the bytes at \<^verbatim>\<open>addr\<close> as a list.
\<close>

subsection \<open>Operations\<close>

definition filealloc :: "nat option kM" where
  "filealloc =
     bind (acquire Lk_ftable) (\<lambda>_.
     bind (gets ftable) (\<lambda>tab.
     case find (\<lambda>i. f_ref (tab i) = 0) [0..<NFILE] of
       Some f \<Rightarrow>
         bind (upd_file f (\<lambda>x. x\<lparr>f_ref := 1\<rparr>)) (\<lambda>_.
         bind (release Lk_ftable) (\<lambda>_.
         ret (Some f)))
     | None \<Rightarrow>
         bind (release Lk_ftable) (\<lambda>_.
         ret None)))"

definition filedup :: "nat \<Rightarrow> nat kM" where
  "filedup f =
     bind (acquire Lk_ftable) (\<lambda>_.
     bind (gets (\<lambda>s. f_ref (ftable s f))) (\<lambda>r.
     bind (panic_if (r < 1) ''filedup'') (\<lambda>_.
     bind (upd_file f (\<lambda>x. x\<lparr>f_ref := f_ref x + 1\<rparr>)) (\<lambda>_.
     bind (release Lk_ftable) (\<lambda>_.
     ret f)))))"

definition fileclose :: "(nat \<Rightarrow> unit kM) \<Rightarrow> (nat \<Rightarrow> unit kM) \<Rightarrow> nat \<Rightarrow> unit kM" where
  "fileclose lr lw f =
     bind (acquire Lk_ftable) (\<lambda>_.
     bind (gets (\<lambda>s. f_ref (ftable s f))) (\<lambda>r.
     bind (panic_if (r < 1) ''fileclose'') (\<lambda>_.
     bind (upd_file f (\<lambda>x. x\<lparr>f_ref := f_ref x - 1\<rparr>)) (\<lambda>_.
     if 0 < r - 1 then release Lk_ftable
     else
       bind (gets (\<lambda>s. ftable s f)) (\<lambda>ff.
       bind (upd_file f (\<lambda>x. x\<lparr>f_ref := 0, f_type := FD_NONE\<rparr>)) (\<lambda>_.
       bind (release Lk_ftable) (\<lambda>_.
       case f_type ff of
         FD_PIPE \<Rightarrow> bind (deref (f_pipe ff)) (\<lambda>p. pipeclose p (f_writable ff))
       | FD_INODE \<Rightarrow>
           bind begin_op (\<lambda>_.
           bind (deref (f_ip ff)) (\<lambda>ip.
           bind (iput lr ip) (\<lambda>_.
           end_op lr lw)))
       | FD_NONE \<Rightarrow> ret ())))))))"

text \<open>The struct stored at \<^verbatim>\<open>st\<close>, or -1.\<close>

definition filestat :: "(nat \<Rightarrow> unit kM) \<Rightarrow> nat \<Rightarrow> stat option kM" where
  "filestat lr f =
     bind (gets (\<lambda>s. ftable s f)) (\<lambda>ff.
     if f_type ff = FD_INODE then
       bind (ilock lr (f_ip ff)) (\<lambda>_.
       bind (deref (f_ip ff)) (\<lambda>ip.
       bind (stati ip) (\<lambda>st.
       bind (iunlock (f_ip ff)) (\<lambda>_.
       ret (Some st)))))
     else ret None)"

definition fileread :: "(nat \<Rightarrow> unit kM) \<Rightarrow> nat \<Rightarrow> int \<Rightarrow> (int \<times> u8 list) kM" where
  "fileread lr f n =
     bind (gets (\<lambda>s. ftable s f)) (\<lambda>ff.
     if \<not> f_readable ff then ret (-1, [])
     else case f_type ff of
       FD_PIPE \<Rightarrow> bind (deref (f_pipe ff)) (\<lambda>p. piperead p n)
     | FD_INODE \<Rightarrow>
         bind (ilock lr (f_ip ff)) (\<lambda>_.
         bind (deref (f_ip ff)) (\<lambda>ip.
         bind (gets (\<lambda>s. f_off (ftable s f))) (\<lambda>off.
         bind (readi lr ip off (of_int n)) (\<lambda>(r, d).
         bind (when_do (0 < r) (upd_file f (\<lambda>x. x\<lparr>f_off := f_off x + of_int r\<rparr>))) (\<lambda>_.
         bind (iunlock (f_ip ff)) (\<lambda>_.
         ret (r, d)))))))
     | FD_NONE \<Rightarrow> panic ''fileread'')"

text \<open>The loop of \<^verbatim>\<open>filewrite\<close>: one transaction for at most \<^verbatim>\<open>max\<close> bytes. The result is the final \<^verbatim>\<open>i\<close>.\<close>

abbreviation (input) write_max :: int where "write_max \<equiv> ((10 - 1 - 1 - 2) div 2) * 512"

function filewrite_loop :: "(nat \<Rightarrow> unit kM) \<Rightarrow> (nat \<Rightarrow> unit kM) \<Rightarrow> nat \<Rightarrow> u8 list \<Rightarrow> int \<Rightarrow> int \<Rightarrow> int kM" where
  "filewrite_loop lr lw f addr n i =
     (if i < n then
        bind begin_op (\<lambda>_.
        bind (gets (\<lambda>s. f_ip (ftable s f))) (\<lambda>ip'.
        bind (ilock lr ip') (\<lambda>_.
        bind (deref ip') (\<lambda>ip.
        bind (gets (\<lambda>s. f_off (ftable s f))) (\<lambda>off.
        bind (writei lr ip (drop (nat i) addr) off (of_int (min (n - i) write_max))) (\<lambda>r.
        bind (when_do (0 < r) (upd_file f (\<lambda>x. x\<lparr>f_off := f_off x + of_int r\<rparr>))) (\<lambda>_.
        bind (iunlock ip') (\<lambda>_.
        bind (end_op lr lw) (\<lambda>_.
        if r < 0 then ret i
        else if r \<noteq> min (n - i) write_max then panic ''short filewrite''
        else filewrite_loop lr lw f addr n (i + min (n - i) write_max))))))))))
      else ret i)"
  by pat_completeness auto
termination
  by (relation "measure (\<lambda>(lr, lw, f, addr, n, i). nat (n - i))") auto

declare filewrite_loop.simps [simp del]

definition filewrite :: "(nat \<Rightarrow> unit kM) \<Rightarrow> (nat \<Rightarrow> unit kM) \<Rightarrow> nat \<Rightarrow> u8 list \<Rightarrow> int \<Rightarrow> int kM" where
  "filewrite lr lw f addr n =
     bind (gets (\<lambda>s. ftable s f)) (\<lambda>ff.
     if \<not> f_writable ff then ret (-1)
     else case f_type ff of
       FD_PIPE \<Rightarrow> bind (deref (f_pipe ff)) (\<lambda>p. pipewrite p addr n)
     | FD_INODE \<Rightarrow> bind (filewrite_loop lr lw f addr n 0) (\<lambda>i. ret (if i = n then n else -1))
     | FD_NONE \<Rightarrow> panic ''filewrite'')"

text \<open>The two files stored at \<^verbatim>\<open>*f0\<close> and \<^verbatim>\<open>*f1\<close>, or -1.\<close>

definition pipealloc :: "(nat \<Rightarrow> unit kM) \<Rightarrow> (nat \<Rightarrow> unit kM) \<Rightarrow> (nat \<times> nat) option kM" where
  "pipealloc lr lw =
     bind filealloc (\<lambda>r0.
     case r0 of None \<Rightarrow> ret None
     | Some f0 \<Rightarrow>
         bind filealloc (\<lambda>r1.
         case r1 of None \<Rightarrow> bind (fileclose lr lw f0) (\<lambda>_. ret None)
         | Some f1 \<Rightarrow>
             bind kalloc (\<lambda>pg.
             if pg = 0 then
               bind (fileclose lr lw f0) (\<lambda>_.
               bind (fileclose lr lw f1) (\<lambda>_.
               ret None))
             else
               let p = unat pg in
               bind (upd_pipe p (\<lambda>q. q\<lparr>pi_readopen := True, pi_writeopen := True, pi_nwrite := 0, pi_nread := 0\<rparr>)) (\<lambda>_.
               bind (upd_file f0 (\<lambda>x. x\<lparr>f_type := FD_PIPE, f_readable := True, f_writable := False, f_pipe := Some p\<rparr>)) (\<lambda>_.
               bind (upd_file f1 (\<lambda>x. x\<lparr>f_type := FD_PIPE, f_readable := False, f_writable := True, f_pipe := Some p\<rparr>)) (\<lambda>_.
               ret (Some (f0, f1))))))))"

subsection \<open>Contracts\<close>

interpretation file_slots: slot_table NFILE "\<lambda>s i. f_ref (ftable s i) = 0" filealloc "\<lambda>s. Lk_ftable \<notin> set (held s)"
proof unfold_locales
  fix s :: kstate and i :: nat
  assume ok: "Lk_ftable \<notin> set (held s)" and i: "i < NFILE" "f_ref (ftable s i) = 0"
    and b: "\<And>j. j < i \<Longrightarrow> f_ref (ftable s j) \<noteq> 0"
  have "find (\<lambda>i. f_ref (ftable s i) = 0) [0..<NFILE] = Some i"
    using i b by (simp add: find_upt_Some)
  then show "\<exists>u. filealloc s = Ret (Some i) u \<and> Lk_ftable \<notin> set (held u)
      \<and> (\<forall>j<NFILE. f_ref (ftable u j) = 0 \<longleftrightarrow> f_ref (ftable s j) = 0 \<and> j \<noteq> i)"
    using ok by (simp add: filealloc_def upd_file_def)
next
  fix s :: kstate
  assume ok: "Lk_ftable \<notin> set (held s)" and b: "\<And>j. j < NFILE \<Longrightarrow> f_ref (ftable s j) \<noteq> 0"
  have "find (\<lambda>i. f_ref (ftable s i) = 0) [0..<NFILE] = None"
    using b by (simp add: find_None_iff)
  then show "\<exists>u. filealloc s = Ret None u" using ok by (simp add: filealloc_def)
qed

text \<open>
  Successive calls of \<^verbatim>\<open>filealloc\<close> return the unreferenced slots of the file table in ascending
  order, each once, and then 0.
\<close>

theorem filealloc_in_order:
  assumes "Lk_ftable \<notin> set (held s)"
  shows "\<exists>u. run_allocs filealloc n s = Ret (take n (filter (\<lambda>i. f_ref (ftable s i) = 0) [0..<NFILE])) u"
  using file_slots.in_order [OF assms] .

theorem filealloc_in_order_witness:
  "\<exists>u. run_allocs filealloc 3 (kstate0 (\<lambda>_ _. [])) = Ret [0, 1, 2] u"
proof -
  have "filter (\<lambda>i. f_ref (ftable (kstate0 (\<lambda>_ _. [])) i) = 0) [0..<NFILE] = [0..<NFILE]"
    by (simp add: kstate0_def file0_def)
  moreover have "take 3 [0..<NFILE] = [0, 1, 2]" by (simp add: take_upt upt_rec)
  ultimately show ?thesis using filealloc_in_order [of "kstate0 (\<lambda>_ _. [])" 3] by (simp add: kstate0_def)
qed

end
