(* ===== verification/File_Types.thy ===== *)
theory File_Types
  imports File
begin

text \<open>
  The table of open files is well typed: an unused slot has type \<^verbatim>\<open>FD_NONE\<close>, a pipe end has a pipe at an address that is not null, and an inode file has an inode. The
  theory shows it for \<^verbatim>\<open>pipealloc\<close> (\<^verbatim>\<open>pipe.c\<close>) and the functions of \<^verbatim>\<open>file.c\<close> it calls.
\<close>

definition file_typed :: "file_t \<Rightarrow> bool" where
  "file_typed f \<longleftrightarrow> 0 \<le> f_ref f \<and> (f_ref f = 0 \<longrightarrow> f_type f = FD_NONE)
     \<and> (f_type f = FD_PIPE \<longrightarrow> (\<exists>p. f_pipe f = Some p \<and> p \<noteq> 0)) \<and> (f_type f = FD_INODE \<longrightarrow> f_ip f \<noteq> None)"

definition ftable_typed :: "kstate \<Rightarrow> bool" where
  "ftable_typed s \<longleftrightarrow> (\<forall>f<NFILE. file_typed (ftable s f))"

lemma filealloc_run:
  assumes "Lk_ftable \<notin> set (held s)"
  shows "(\<exists>f<NFILE. f_ref (ftable s f) = 0
       \<and> filealloc s = Ret (Some f) (s\<lparr>ftable := (ftable s)(f := (ftable s f)\<lparr>f_ref := 1\<rparr>)\<rparr>))
     \<or> (filealloc s = Ret None s \<and> (\<forall>f<NFILE. f_ref (ftable s f) \<noteq> 0))"
proof (cases "find (\<lambda>i. f_ref (ftable s i) = 0) [0..<NFILE]")
  case None
  then have "filealloc s = Ret None s" using assms by (simp add: filealloc_def)
  with None show ?thesis by (simp add: find_None_iff)
next
  case (Some f)
  then have "filealloc s = Ret (Some f) (s\<lparr>ftable := (ftable s)(f := (ftable s f)\<lparr>f_ref := 1\<rparr>)\<rparr>)"
    using assms by (simp add: filealloc_def upd_file_def)
  with Some show ?thesis by (auto simp: find_upt_Some)
qed

text \<open>Closing a file that was only allocated frees its slot and does nothing else.\<close>

lemma fileclose_new:
  assumes "Lk_ftable \<notin> set (held s)" and "f_ref (ftable s f) = 1" and "f_type (ftable s f) = FD_NONE"
  shows "fileclose lr lw f s = Ret () (s\<lparr>ftable := (ftable s)(f := (ftable s f)\<lparr>f_ref := 0\<rparr>)\<rparr>)"
proof -
  have e: "x\<lparr>f_ref := 0, f_type := FD_NONE\<rparr> = x\<lparr>f_ref := 0\<rparr>" if "f_type x = FD_NONE" for x :: file_t
    using that by (cases x) simp
  have "fileclose lr lw f s = Ret () (s\<lparr>ftable := (ftable s)(f := (ftable s f)\<lparr>f_ref := 0, f_type := FD_NONE\<rparr>)\<rparr>)"
    using assms by (simp add: fileclose_def upd_file_def)
  then show ?thesis unfolding e [OF assms(3)] .
qed

lemma free_ok_files:
  "free_ok (s\<lparr>ftable := F\<rparr>) ps \<longleftrightarrow> free_ok s ps" "free_ok (s\<lparr>pipes := P\<rparr>) ps \<longleftrightarrow> free_ok s ps"
  by (simp_all add: free_ok_def pg_ok_def)

text \<open>The files of the two ends of pipe \<open>p\<close>.\<close>

definition read_end :: "file_t \<Rightarrow> nat \<Rightarrow> file_t" where
  "read_end f p = f\<lparr>f_ref := 1, f_type := FD_PIPE, f_readable := True, f_writable := False, f_pipe := Some p\<rparr>"

definition write_end :: "file_t \<Rightarrow> nat \<Rightarrow> file_t" where
  "write_end f p = f\<lparr>f_ref := 1, f_type := FD_PIPE, f_readable := False, f_writable := True, f_pipe := Some p\<rparr>"

lemma typed_upd:
  "ftable_typed s \<Longrightarrow> p \<noteq> 0 \<Longrightarrow> ftable t = (ftable s)(f0 := read_end x p, f1 := write_end y p) \<Longrightarrow> ftable_typed t"
  by (simp add: ftable_typed_def file_typed_def read_end_def write_end_def)

definition new_pipe :: "pipe_t \<Rightarrow> pipe_t" where
  "new_pipe q = q\<lparr>pi_readopen := True, pi_writeopen := True, pi_nwrite := 0, pi_nread := 0\<rparr>"

text \<open>
  Property (C16). \<^verbatim>\<open>pipealloc\<close> keeps the table of open files well typed on every path. It succeeds exactly if two slots of the table are unused and a page
  is free: then it takes the first page of the free list for a new, empty pipe with both ends open and returns two different slots that were unused, one the read
  end and one the write end of this pipe; no other file, pipe or free page changes. Otherwise every slot it took is given back, and the table, the pipes and the
  free list are what they were.
\<close>

theorem pipealloc_typed:
  assumes "ftable_typed s" and "Lk_ftable \<notin> set (held s)" and "free_ok s ps"
  shows "\<exists>r t. pipealloc lr lw s = Ret r t \<and> ftable_typed t \<and> held t = held s
    \<and> (case r of
         None \<Rightarrow> (ps = [] \<or> card {f. f < NFILE \<and> f_ref (ftable s f) = 0} < 2)
           \<and> ftable t = ftable s \<and> pipes t = pipes s \<and> free_ok t ps
       | Some (f0, f1) \<Rightarrow> f0 < NFILE \<and> f1 < NFILE \<and> f0 \<noteq> f1 \<and> f_ref (ftable s f0) = 0 \<and> f_ref (ftable s f1) = 0
           \<and> (\<exists>pg qs. ps = pg # qs \<and> free_ok t qs
               \<and> pipes t = (pipes s)(unat pg := new_pipe (pipes s (unat pg)))
               \<and> ftable t = (ftable s)(f0 := read_end (ftable s f0) (unat pg), f1 := write_end (ftable s f1) (unat pg))))"
  using filealloc_run [OF assms(2)]
proof (elim disjE exE conjE)
  assume "filealloc s = Ret None s" and "\<forall>f<NFILE. f_ref (ftable s f) \<noteq> 0"
  moreover from this(2) have "{f. f < NFILE \<and> f_ref (ftable s f) = 0} = {}" by blast
  then have "card {f. f < NFILE \<and> f_ref (ftable s f) = 0} < 2" by (simp only: card.empty)
  ultimately show ?thesis using assms by (intro exI [of _ None] exI [of _ s]) (simp add: pipealloc_def)
next
  fix f0
  let ?s1 = "s\<lparr>ftable := (ftable s)(f0 := (ftable s f0)\<lparr>f_ref := 1\<rparr>)\<rparr>"
  assume f0: "f0 < NFILE" "f_ref (ftable s f0) = 0" and r0: "filealloc s = Ret (Some f0) ?s1"
  have t0: "f_type (ftable s f0) = FD_NONE" using assms(1) f0 by (simp add: ftable_typed_def file_typed_def)
  have back0: "(ftable s f0)\<lparr>f_ref := 0\<rparr> = ftable s f0" using f0(2) by simp
  have "Lk_ftable \<notin> set (held ?s1)" using assms(2) by simp
  from filealloc_run [OF this] show ?thesis
  proof (elim disjE exE conjE)
    assume r1: "filealloc ?s1 = Ret None ?s1" and full: "\<forall>f<NFILE. f_ref (ftable ?s1 f) \<noteq> 0"
    have "{f. f < NFILE \<and> f_ref (ftable s f) = 0} \<subseteq> {f0}" using full by (auto split: if_splits)
    from card_mono [OF _ this] have "card {f. f < NFILE \<and> f_ref (ftable s f) = 0} < 2" by simp
    moreover have "fileclose lr lw f0 ?s1 = Ret () s" using fileclose_new [of ?s1 f0 lr lw] assms(2) t0 back0 by simp
    then have "pipealloc lr lw s = Ret None s" using r0 r1 by (simp add: pipealloc_def)
    ultimately show ?thesis using assms(1,3) by (intro exI [of _ None] exI [of _ s]) simp
  next
    fix f1
    let ?s2 = "?s1\<lparr>ftable := (ftable ?s1)(f1 := (ftable ?s1 f1)\<lparr>f_ref := 1\<rparr>)\<rparr>"
    assume "f1 < NFILE" "f_ref (ftable ?s1 f1) = 0" and r1: "filealloc ?s1 = Ret (Some f1) ?s2"
    then have f1: "f1 < NFILE" "f1 \<noteq> f0" "f_ref (ftable s f1) = 0" by (auto split: if_splits)
    have t1: "f_type (ftable s f1) = FD_NONE" using assms(1) f1 by (simp add: ftable_typed_def file_typed_def)
    have fo: "free_ok ?s2 ps" using assms(3) by (simp add: free_ok_files)
    show ?thesis
    proof (cases ps)
      case Nil
      let ?u1 = "?s2\<lparr>ftable := (ftable ?s2)(f0 := (ftable ?s2 f0)\<lparr>f_ref := 0\<rparr>)\<rparr>"
      let ?u2 = "?u1\<lparr>ftable := (ftable ?u1)(f1 := (ftable ?u1 f1)\<lparr>f_ref := 0\<rparr>)\<rparr>"
      have "kalloc ?s2 = Ret 0 ?s2" using kalloc_run(1) [OF fo] Nil by simp
      moreover have "fileclose lr lw f0 ?s2 = Ret () ?u1" by (rule fileclose_new) (use assms(2) f1 t0 in simp_all)
      moreover have "fileclose lr lw f1 ?u1 = Ret () ?u2" by (rule fileclose_new) (use assms(2) f1 t1 in simp_all)
      ultimately have r: "pipealloc lr lw s = Ret None ?u2" using r0 r1 by (simp add: pipealloc_def)
      have "ftable ?u2 = ftable s" using f0(2) f1 by (auto simp: fun_eq_iff)
      then show ?thesis using r assms(1,3) Nil
        by (intro exI [of _ None] exI [of _ ?u2]) (simp add: ftable_typed_def free_ok_files)
    next
      case (Cons pg qs)
      let ?u = "?s2\<lparr>freelist := load32 (mem ?s2) pg\<rparr>"
      have k: "kalloc ?s2 = Ret pg ?u" "free_ok ?u qs" using kalloc_run [OF fo] Cons by simp_all
      have pg: "pg \<noteq> 0" "unat pg \<noteq> 0" using fo Cons by (auto simp: free_ok_def pg_ok_def unat_eq_0)
      let ?t = "?u\<lparr>pipes := (pipes s)(unat pg := new_pipe (pipes s (unat pg))),
        ftable := (ftable s)(f0 := read_end (ftable s f0) (unat pg), f1 := write_end (ftable s f1) (unat pg))\<rparr>"
      have "pipealloc lr lw s = Ret (Some (f0, f1)) ?t"
        using r0 r1 k(1) pg f1(2)
        by (simp add: pipealloc_def Let_def upd_file_def upd_pipe_def read_end_def write_end_def new_pipe_def fun_upd_twist)
      moreover have "ftable_typed ?t" by (rule typed_upd [OF assms(1) pg(2)]) simp
      moreover have "free_ok ?t qs" using k(2) by (simp add: free_ok_def pg_ok_def)
      ultimately show ?thesis using f0 f1 Cons by (intro exI [of _ "Some (f0, f1)"] exI [of _ ?t]) simp
    qed
  qed
qed

theorem pipealloc_typed_witness:
  "\<exists>s t f0 f1. pipealloc (\<lambda>_. panic []) (\<lambda>_. panic []) s = Ret (Some (f0, f1)) t
     \<and> f_pipe (ftable t f0) = Some 0x80400000 \<and> pi_readopen (pipes t 0x80400000) \<and> free_ok t []"
proof -
  let ?z = "\<lambda>_. panic [] :: unit kM"
  have "pg_ok (kstate0 (\<lambda>_ _. [])) 0x80400000" by (simp add: pg_ok_def V2P_def kstate0_def)
  from kfree_run [OF free_ok0 this] obtain m where
    m: "free_ok ((kstate0 (\<lambda>_ _. []))\<lparr>mem := m, freelist := 0x80400000\<rparr>) [0x80400000]" by auto
  define s where "s = (kstate0 (\<lambda>_ _. []))\<lparr>mem := m, freelist := 0x80400000\<rparr>"
  have typed: "ftable_typed s" and lk: "Lk_ftable \<notin> set (held s)" and r: "f_ref (ftable s f) = 0" for f
    by (simp_all add: s_def ftable_typed_def file_typed_def kstate0_def file0_def)
  have "card {f. f < NFILE \<and> f_ref (ftable s f) = 0} = NFILE" by (simp add: r)
  then obtain f0 f1 t where t: "pipealloc ?z ?z s = Ret (Some (f0, f1)) t" "f0 \<noteq> f1" "free_ok t []"
    "pipes t 0x80400000 = new_pipe (pipes s 0x80400000)" "ftable t f0 = read_end (ftable s f0) 0x80400000"
    using pipealloc_typed [OF typed lk m [folded s_def], of ?z ?z] by (auto split: option.splits)
  then show ?thesis by (intro exI [of _ s] exI [of _ t] exI [of _ f0] exI [of _ f1]) (simp add: new_pipe_def read_end_def)
qed

end
