(* ===== verification/File_Refs.thy ===== *)
theory File_Refs
  imports File_Types
begin

text \<open>
  The lifetime of a pipe. The two ends of a pipe are two slots of the table of open files; \<^verbatim>\<open>filedup\<close> and \<^verbatim>\<open>fileclose\<close> (\<^verbatim>\<open>file.c\<close>)
  count the references to each, and the last \<^verbatim>\<open>fileclose\<close> of an end calls \<^verbatim>\<open>pipeclose\<close> (\<^verbatim>\<open>pipe.c\<close>). The operations satisfy the contract of a table of
  reference counts with the state of the pipe as its invariant.
\<close>

text \<open>A slot holds an end of the pipe as long as it has references, and is unused then.\<close>

definition end_ok :: "kstate \<Rightarrow> nat \<Rightarrow> bool \<Rightarrow> u32 \<Rightarrow> bool" where
  "end_ok s f writable pg \<longleftrightarrow> 0 \<le> f_ref (ftable s f)
     \<and> (if 0 < f_ref (ftable s f)
        then f_type (ftable s f) = FD_PIPE \<and> f_pipe (ftable s f) = Some (unat pg) \<and> f_writable (ftable s f) = writable
        else f_type (ftable s f) = FD_NONE)"

definition asleep_on :: "kstate \<Rightarrow> chan \<Rightarrow> bool" where
  "asleep_on s c \<longleftrightarrow> (\<exists>j<NPROC. p_state (ptable s j) = SLEEPING \<and> p_chan (ptable s j) = Some c)"

text \<open>
  The pipe at \<open>pg\<close> with its read end in slot \<open>fr\<close> and its write end in slot \<open>fw\<close>: an end is open exactly while its slot has references, nobody waits for
  an end that is closed, and the page is on the free list, in front of \<open>ps\<close>, exactly when both are closed.
\<close>

definition pipe_ok :: "nat \<Rightarrow> nat \<Rightarrow> u32 \<Rightarrow> u32 list \<Rightarrow> kstate \<Rightarrow> bool" where
  "pipe_ok fr fw pg ps s \<longleftrightarrow> held s = [] \<and> fr \<noteq> fw \<and> end_ok s fr False pg \<and> end_ok s fw True pg
     \<and> (pi_readopen (pipes s (unat pg)) \<longleftrightarrow> 0 < f_ref (ftable s fr))
     \<and> (pi_writeopen (pipes s (unat pg)) \<longleftrightarrow> 0 < f_ref (ftable s fw))
     \<and> (0 < f_ref (ftable s fr) \<or> \<not> asleep_on s (Ch_nwrite (unat pg)))
     \<and> (0 < f_ref (ftable s fw) \<or> \<not> asleep_on s (Ch_nread (unat pg)))
     \<and> pg_ok s pg \<and> pg \<notin> set ps
     \<and> free_ok s (if 0 < f_ref (ftable s fr) \<or> 0 < f_ref (ftable s fw) then ps else pg # ps)"

lemma asleep_wake [simp]: "asleep_on (wake c s) d \<longleftrightarrow> c \<noteq> d \<and> asleep_on s d"
proof -
  have "p_state (ptable (wake c s) j) = SLEEPING \<and> p_chan (ptable (wake c s) j) = Some d
      \<longleftrightarrow> c \<noteq> d \<and> p_state (ptable s j) = SLEEPING \<and> p_chan (ptable s j) = Some d" if "j < NPROC" for j
    using that by (auto simp: wake_def wake_tab_def wake_proc_def)
  then show ?thesis unfolding asleep_on_def by blast
qed

lemma wake_fields:
  "pipes (wake c s) = pipes s" "ftable (wake c s) = ftable s" "pg_ok (wake c s) v = pg_ok s v" "free_ok (wake c s) ps = free_ok s ps"
  by (simp_all add: wake_def pg_ok_def free_ok_def)

lemma asleep_cong: "ptable t = ptable s \<Longrightarrow> asleep_on t c = asleep_on s c"
  by (simp add: asleep_on_def)

lemma pipeclose_run:
  assumes "held s = []"
  shows "pipeclose p w s =
    (let t = wake (if w then Ch_nread p else Ch_nwrite p)
           (s\<lparr>pipes := (pipes s)(p := if w then (pipes s p)\<lparr>pi_writeopen := False\<rparr> else (pipes s p)\<lparr>pi_readopen := False\<rparr>)\<rparr>)
     in if \<not> pi_readopen (pipes t p) \<and> \<not> pi_writeopen (pipes t p) then kfree (of_nat p) t else Ret () t)"
proof -
  have h: "(wake c (s\<lparr>held := h, pipes := P\<rparr>))\<lparr>held := []\<rparr> = wake c (s\<lparr>pipes := P\<rparr>)" for c h P
    using assms by (simp add: wake_def)
  show ?thesis using assms h by (cases w) (simp_all add: pipeclose_def upd_pipe_def Let_def wake_fields)
qed


text \<open>Taking a reference, or giving one back that is not the last, changes the count and nothing else.\<close>

lemma count_only:
  assumes ok: "pipe_ok fr fw pg ps s" and r: "0 < f_ref (ftable s i)" "0 < n"
  shows "pipe_ok fr fw pg ps (s\<lparr>ftable := (ftable s)(i := (ftable s i)\<lparr>f_ref := n\<rparr>)\<rparr>)"
proof -
  have "asleep_on (s\<lparr>ftable := F\<rparr>) c = asleep_on s c" "pg_ok (s\<lparr>ftable := F\<rparr>) v = pg_ok s v" for F c v
    by (simp_all add: asleep_on_def pg_ok_def)
  then show ?thesis using ok r unfolding pipe_ok_def end_ok_def by (auto simp: free_ok_files)
qed

lemma filedup_law:
  assumes "pipe_ok fr fw pg ps s" and "0 < f_ref (ftable s i)"
  shows "\<exists>x u. filedup i s = Ret x u \<and> pipe_ok fr fw pg ps u
     \<and> (\<lambda>j. f_ref (ftable u j)) = (\<lambda>j. f_ref (ftable s j))(i := f_ref (ftable s i) + 1)"
proof -
  let ?u = "s\<lparr>ftable := (ftable s)(i := (ftable s i)\<lparr>f_ref := f_ref (ftable s i) + 1\<rparr>)\<rparr>"
  have "held s = []" using assms(1) by (simp add: pipe_ok_def)
  then have "filedup i s = Ret i ?u" using assms(2) by (simp add: filedup_def upd_file_def)
  then show ?thesis using count_only [OF assms, of "f_ref (ftable s i) + 1"] assms(2)
    by (intro exI [of _ i] exI [of _ ?u]) (simp add: fun_eq_iff)
qed

lemma fileclose_shared:
  assumes "pipe_ok fr fw pg ps s" and "1 < f_ref (ftable s i)"
  shows "\<exists>u. fileclose lr lw i s = Ret () u \<and> pipe_ok fr fw pg ps u
     \<and> (\<lambda>j. f_ref (ftable u j)) = (\<lambda>j. f_ref (ftable s j))(i := f_ref (ftable s i) - 1)"
proof -
  let ?u = "s\<lparr>ftable := (ftable s)(i := (ftable s i)\<lparr>f_ref := f_ref (ftable s i) - 1\<rparr>)\<rparr>"
  have "held s = []" using assms(1) by (simp add: pipe_ok_def)
  then have "fileclose lr lw i s = Ret () ?u" using assms(2) by (simp add: fileclose_def upd_file_def)
  then show ?thesis using count_only [OF assms(1), of i "f_ref (ftable s i) - 1"] assms(2)
    by (intro exI [of _ ?u]) (simp add: fun_eq_iff)
qed

text \<open>The last \<^verbatim>\<open>fileclose\<close> of an end.\<close>

lemma fileclose_pipe:
  assumes "held s = []" and "f_ref (ftable s i) = 1" and "f_type (ftable s i) = FD_PIPE" and "f_pipe (ftable s i) = Some p"
  shows "fileclose lr lw i s =
    pipeclose p (f_writable (ftable s i)) (s\<lparr>ftable := (ftable s)(i := (ftable s i)\<lparr>f_ref := 0, f_type := FD_NONE\<rparr>)\<rparr>)"
  using assms by (simp add: fileclose_def upd_file_def)

text \<open>Giving the page back when both ends are closed.\<close>

lemma free_pipe_page:
  assumes ok: "held s = []" "end_ok s fr False pg" "end_ok s fw True pg" "fr \<noteq> fw"
    and z: "f_ref (ftable s fr) = 0" "f_ref (ftable s fw) = 0" "\<not> pi_readopen (pipes s (unat pg))" "\<not> pi_writeopen (pipes s (unat pg))"
    and sl: "\<not> asleep_on s (Ch_nwrite (unat pg))" "\<not> asleep_on s (Ch_nread (unat pg))"
    and pg: "free_ok s ps" "pg_ok s pg" "pg \<notin> set ps"
  shows "\<exists>u. kfree (of_nat (unat pg)) s = Ret () u \<and> pipe_ok fr fw pg ps u \<and> ftable u = ftable s"
proof -
  obtain m where m: "kfree pg s = Ret () (s\<lparr>mem := m, freelist := pg\<rparr>)" "free_ok (s\<lparr>mem := m, freelist := pg\<rparr>) (pg # ps)"
    by (rule kfree_run [OF pg])
  let ?u = "s\<lparr>mem := m, freelist := pg\<rparr>"
  have "end_ok ?u f w pg = end_ok s f w pg" "asleep_on ?u c = asleep_on s c" "pg_ok ?u pg = pg_ok s pg" for f w c
    by (simp_all add: end_ok_def asleep_on_def pg_ok_def)
  then have "pipe_ok fr fw pg ps ?u" using ok z sl pg m(2) by (simp add: pipe_ok_def)
  then show ?thesis using m(1) by simp
qed

lemma fileclose_last:
  assumes ok: "pipe_ok fr fw pg ps s" and i: "i = fr \<or> i = fw" and r: "f_ref (ftable s i) = 1"
  shows "\<exists>u. fileclose lr lw i s = Ret () u \<and> pipe_ok fr fw pg ps u
     \<and> (\<lambda>j. f_ref (ftable u j)) = (\<lambda>j. f_ref (ftable s j))(i := f_ref (ftable s i) - 1)"
proof -
  let ?w = "i = fw" and ?p = "unat pg"
  define t where "t = wake (if ?w then Ch_nread ?p else Ch_nwrite ?p)
    (s\<lparr>ftable := (ftable s)(i := (ftable s i)\<lparr>f_ref := 0, f_type := FD_NONE\<rparr>),
       pipes := (pipes s)(?p := if ?w then (pipes s ?p)\<lparr>pi_writeopen := False\<rparr> else (pipes s ?p)\<lparr>pi_readopen := False\<rparr>)\<rparr>)"
  have ne: "fr \<noteq> fw" and h: "held s = []" using ok by (simp_all add: pipe_ok_def)
  have e: "f_type (ftable s i) = FD_PIPE" "f_pipe (ftable s i) = Some ?p" "f_writable (ftable s i) = ?w"
    using ok i r by (auto simp: pipe_ok_def end_ok_def)
  have run: "fileclose lr lw i s =
      (if \<not> pi_readopen (pipes t ?p) \<and> \<not> pi_writeopen (pipes t ?p) then kfree (of_nat ?p) t else Ret () t)"
    unfolding fileclose_pipe [OF h r e(1,2)] using pipeclose_run [of "s\<lparr>ftable := F\<rparr>" for F] h e(3)
    by (simp add: t_def Let_def wake_fields)
  have ft: "ftable t = (ftable s)(i := (ftable s i)\<lparr>f_ref := 0, f_type := FD_NONE\<rparr>)" by (simp add: t_def wake_fields)
  then have refs: "(\<lambda>j. f_ref (ftable t j)) = (\<lambda>j. f_ref (ftable s j))(i := f_ref (ftable s i) - 1)" using r by (auto simp: fun_eq_iff)
  have tf: "held t = []" "pg_ok t v = pg_ok s v" "free_ok t qs = free_ok s qs" for v qs
    using h by (simp_all add: t_def wake_def pg_ok_def free_ok_def)
  have po: "pi_readopen (pipes t ?p) \<longleftrightarrow> 0 < f_ref (ftable t fr)" "pi_writeopen (pipes t ?p) \<longleftrightarrow> 0 < f_ref (ftable t fw)"
    using ok i ne by (auto simp: t_def wake_fields pipe_ok_def)
  have en: "end_ok t fr False pg" "end_ok t fw True pg" using ok i ne by (auto simp: end_ok_def ft pipe_ok_def)
  have sl: "0 < f_ref (ftable t fr) \<or> \<not> asleep_on t (Ch_nwrite ?p)" "0 < f_ref (ftable t fw) \<or> \<not> asleep_on t (Ch_nread ?p)"
    using ok i ne by (auto simp: t_def wake_fields pipe_ok_def asleep_cong [of "s\<lparr>ftable := F, pipes := P\<rparr>" s for F P])
  have pg: "free_ok t ps" "pg_ok t pg" "pg \<notin> set ps" using ok i r by (auto simp: tf pipe_ok_def split: if_splits)
  have nn: "0 \<le> f_ref (ftable t fr)" "0 \<le> f_ref (ftable t fw)" using en by (simp_all add: end_ok_def)
  show ?thesis
  proof (cases "0 < f_ref (ftable t fr) \<or> 0 < f_ref (ftable t fw)")
    case True
    then have "pipe_ok fr fw pg ps t" using tf(1) ne en po sl pg by (simp add: pipe_ok_def)
    then show ?thesis using run po True refs by auto
  next
    case False
    then have z: "f_ref (ftable t fr) = 0" "f_ref (ftable t fw) = 0" using nn by simp_all
    obtain u where u: "kfree (of_nat ?p) t = Ret () u" "pipe_ok fr fw pg ps u" "ftable u = ftable t"
      using free_pipe_page [OF tf(1) en ne z _ _ _ _ pg] po sl z by auto
    then show ?thesis using run po z refs by auto
  qed
qed

interpretation file_refs: ref_table NFILE "\<lambda>s i. f_ref (ftable s i)" filedup "fileclose lr lw" "pipe_ok fr fw pg ps" "\<lambda>i. i = fr \<or> i = fw"
  for lr lw fr fw pg ps
proof unfold_locales
  fix s i
  show "pipe_ok fr fw pg ps s \<Longrightarrow> 0 < f_ref (ftable s i) \<Longrightarrow> \<exists>x u. filedup i s = Ret x u \<and> pipe_ok fr fw pg ps u
      \<and> (\<lambda>j. f_ref (ftable u j)) = (\<lambda>j. f_ref (ftable s j))(i := f_ref (ftable s i) + 1)"
    by (rule filedup_law)
  assume "pipe_ok fr fw pg ps s" "(if i = fr \<or> i = fw then 0 else 1) < f_ref (ftable s i)"
  then show "\<exists>u. fileclose lr lw i s = Ret () u \<and> pipe_ok fr fw pg ps u
      \<and> (\<lambda>j. f_ref (ftable u j)) = (\<lambda>j. f_ref (ftable s j))(i := f_ref (ftable s i) - 1)"
    using fileclose_shared [of fr fw pg ps s i lr lw] fileclose_last [of fr fw pg ps s i lr lw]
    by (cases "f_ref (ftable s i) = 1") (auto split: if_splits)
qed

text \<open>
  Property (C39). A pipe lives exactly as long as it is referenced. After any sequence of \<^verbatim>\<open>filedup\<close> and \<^verbatim>\<open>fileclose\<close> calls on open files, in which the two ends of the
  pipe, and no other file, may be closed for good, every reference count is the count before plus the calls of \<^verbatim>\<open>filedup\<close> minus those of \<^verbatim>\<open>fileclose\<close>. Each end of the
  pipe is open exactly if its file has references left, and its slot is unused otherwise; nobody is left asleep waiting for an end that is
  closed; and the page of the pipe has been given back to the allocator, once, exactly if neither end has references left.
\<close>

theorem pipe_lifetime:
  assumes "held s = []" and "fr \<noteq> fw" and "free_ok s ps" and "pg_ok s pg" and "pg \<notin> set ps" and "p = unat pg"
    and "0 < f_ref (ftable s fr)" and "f_type (ftable s fr) = FD_PIPE" and "f_pipe (ftable s fr) = Some p" and "\<not> f_writable (ftable s fr)"
    and "0 < f_ref (ftable s fw)" and "f_type (ftable s fw) = FD_PIPE" and "f_pipe (ftable s fw) = Some p" and "f_writable (ftable s fw)"
    and "pi_readopen (pipes s p)" and "pi_writeopen (pipes s p)"
    and "refs_legal NFILE (\<lambda>i. i = fr \<or> i = fw) (\<lambda>i. f_ref (ftable s i)) ops"
  shows "\<exists>u. run_refs filedup (fileclose lr lw) ops s = Ret () u
     \<and> (\<forall>i. f_ref (ftable u i) = refs_after (\<lambda>i. f_ref (ftable s i)) ops i)
     \<and> (pi_readopen (pipes u p) \<longleftrightarrow> 0 < f_ref (ftable u fr)) \<and> (f_type (ftable u fr) = FD_NONE \<longleftrightarrow> f_ref (ftable u fr) = 0)
     \<and> (pi_writeopen (pipes u p) \<longleftrightarrow> 0 < f_ref (ftable u fw)) \<and> (f_type (ftable u fw) = FD_NONE \<longleftrightarrow> f_ref (ftable u fw) = 0)
     \<and> (\<not> pi_readopen (pipes u p) \<longrightarrow> \<not> asleep_on u (Ch_nwrite p)) \<and> (\<not> pi_writeopen (pipes u p) \<longrightarrow> \<not> asleep_on u (Ch_nread p))
     \<and> free_ok u (if f_ref (ftable u fr) = 0 \<and> f_ref (ftable u fw) = 0 then pg # ps else ps)"
proof -
  have "pipe_ok fr fw pg ps s" using assms by (simp add: pipe_ok_def end_ok_def)
  from file_refs.counted [OF this assms(17)] obtain u where u: "run_refs filedup (fileclose lr lw) ops s = Ret () u"
    "pipe_ok fr fw pg ps u" "(\<lambda>i. f_ref (ftable u i)) = refs_after (\<lambda>i. f_ref (ftable s i)) ops" by blast
  have "f_ref (ftable u i) = refs_after (\<lambda>i. f_ref (ftable s i)) ops i" for i using fun_cong [OF u(3)] .
  moreover have "0 < x \<longleftrightarrow> x \<noteq> 0" if "0 \<le> x" for x :: int using that by auto
  ultimately show ?thesis using u(1,2) unfolding pipe_ok_def end_ok_def assms(6)
    by (intro exI [of _ u]) (auto split: if_splits)
qed

text \<open>A pipe with a reader that sleeps in it; the reader's end is duplicated, then all references are given back.\<close>

definition life_demo :: kstate where
  "life_demo = (kstate0 (\<lambda>_ _. []))\<lparr>
     ftable := (\<lambda>f. if f < 2 then file0\<lparr>f_ref := 1, f_type := FD_PIPE, f_pipe := Some 0x80400000, f_writable := (f = 1)\<rparr> else file0),
     pipes := (\<lambda>_. pipe0\<lparr>pi_readopen := True, pi_writeopen := True\<rparr>),
     ptable := (\<lambda>_. proc0\<lparr>p_state := SLEEPING, p_chan := Some (Ch_nread 0x80400000)\<rparr>)\<rparr>"

theorem pipe_lifetime_witness:
  "\<exists>u. run_refs filedup (fileclose (\<lambda>_. panic []) (\<lambda>_. panic [])) [Dup 0, Put 0, Put 1, Put 0] life_demo = Ret () u
     \<and> f_ref (ftable u 0) = 0 \<and> \<not> pi_writeopen (pipes u 0x80400000) \<and> \<not> asleep_on u (Ch_nread 0x80400000) \<and> free_ok u [0x80400000]"
proof -
  have f: "held life_demo = []" "free_ok life_demo []" "pg_ok life_demo 0x80400000"
    by (simp_all add: life_demo_def kstate0_def free_ok_def pg_ok_def V2P_def)
  have t: "f_ref (ftable life_demo i) = (if i < 2 then 1 else 0)" "f_type (ftable life_demo 0) = FD_PIPE" "f_type (ftable life_demo 1) = FD_PIPE"
    "f_pipe (ftable life_demo 0) = Some 0x80400000" "f_pipe (ftable life_demo 1) = Some 0x80400000"
    "\<not> f_writable (ftable life_demo 0)" "f_writable (ftable life_demo 1)"
    "pi_readopen (pipes life_demo p)" "pi_writeopen (pipes life_demo p)" for i p
    by (simp_all add: life_demo_def file0_def)
  show ?thesis
    using pipe_lifetime [of life_demo 0 1 "[]" "0x80400000" "0x80400000" "[Dup 0, Put 0, Put 1, Put 0]" "\<lambda>_. panic []" "\<lambda>_. panic []"] f t
    by (auto simp: refs_after_def)
qed

end
