(* ===== verification/Vm.thy ===== *)
theory Vm
  imports Kalloc
begin

text \<open>
  Page tables (\<^verbatim>\<open>vm.c\<close>). A page directory and its page tables are pages of memory holding 1024
  32-bit entries each; pointers to them are kernel addresses, and 0 is the null pointer. A loop
  over addresses whose counter would wrap around, so that it never ends, is a \<open>Fault\<close>. Messages
  that the code prints when memory runs out are left out, and so are the segment registers: of
  \<^verbatim>\<open>switchuvm\<close> the checks remain.
\<close>

subsection \<open>Addresses and entries\<close>

definition PDX :: "u32 \<Rightarrow> u32" where
  "PDX va = drop_bit 22 va AND 0x3FF"

definition PTX :: "u32 \<Rightarrow> u32" where
  "PTX va = drop_bit 12 va AND 0x3FF"

definition PGADDR :: "u32 \<Rightarrow> u32 \<Rightarrow> u32 \<Rightarrow> u32" where
  "PGADDR d t off = push_bit 22 d OR push_bit 12 t OR off"

definition PTE_ADDR :: "u32 \<Rightarrow> u32" where
  "PTE_ADDR pte = pte AND NOT 0xFFF"

definition PTE_FLAGS :: "u32 \<Rightarrow> u32" where
  "PTE_FLAGS pte = pte AND 0xFFF"

abbreviation (input) PTE_P :: u32 where "PTE_P \<equiv> 1"
abbreviation (input) PTE_W :: u32 where "PTE_W \<equiv> 2"
abbreviation (input) PTE_U :: u32 where "PTE_U \<equiv> 4"

subsection \<open>Operations\<close>

definition walkpgdir :: "u32 \<Rightarrow> u32 \<Rightarrow> bool \<Rightarrow> u32 kM" where
  "walkpgdir pgdir va alloc =
     bind (gets (\<lambda>s. load32 (mem s) (pgdir + 4 * PDX va))) (\<lambda>pde.
     if pde AND PTE_P \<noteq> 0 then ret (P2V (PTE_ADDR pde) + 4 * PTX va)
     else if \<not> alloc then ret 0
     else
       bind kalloc (\<lambda>pgtab.
       if pgtab = 0 then ret 0
       else
         bind (mem_write pgtab (replicate 4096 0)) (\<lambda>_.
         bind (mem_write32 (pgdir + 4 * PDX va) (V2P pgtab OR PTE_P OR PTE_W OR PTE_U)) (\<lambda>_.
         ret (pgtab + 4 * PTX va)))))"

text \<open>The body of the loop of \<^verbatim>\<open>mappages\<close>: false if a page table could not be allocated.\<close>

definition map_one :: "u32 \<Rightarrow> u32 \<Rightarrow> u32 \<Rightarrow> u32 \<Rightarrow> bool kM" where
  "map_one pgdir a pa perm =
     bind (walkpgdir pgdir a True) (\<lambda>pte.
     if pte = 0 then ret False
     else
       bind (gets (\<lambda>s. load32 (mem s) pte)) (\<lambda>e.
       bind (panic_if (e AND PTE_P \<noteq> 0) ''remap'') (\<lambda>_.
       bind (mem_write32 pte (pa OR perm OR PTE_P)) (\<lambda>_.
       ret True))))"

text \<open>The loop itself, with \<open>n\<close> pages after the current one. It runs until \<^verbatim>\<open>a == last\<close>.\<close>

primrec mappages_from :: "u32 \<Rightarrow> nat \<Rightarrow> u32 \<Rightarrow> u32 \<Rightarrow> u32 \<Rightarrow> int kM" where
  "mappages_from pgdir 0 a pa perm = bind (map_one pgdir a pa perm) (\<lambda>ok. ret (if ok then 0 else -1))"
| "mappages_from pgdir (Suc n) a pa perm =
     bind (map_one pgdir a pa perm) (\<lambda>ok.
     if ok then mappages_from pgdir n (a + PGSIZE) (pa + PGSIZE) perm else ret (-1))"

definition mappages :: "u32 \<Rightarrow> u32 \<Rightarrow> u32 \<Rightarrow> u32 \<Rightarrow> u32 \<Rightarrow> int kM" where
  "mappages pgdir va sz pa perm =
     (let a = PGROUNDDOWN va; last = PGROUNDDOWN (va + sz - 1)
      in mappages_from pgdir (unat (last - a) div 4096) a pa perm)"

function deallocuvm_from :: "u32 \<Rightarrow> u32 \<Rightarrow> u32 \<Rightarrow> unit kM" where
  "deallocuvm_from pgdir oldsz a =
     (if a < oldsz then
        bind (walkpgdir pgdir a False) (\<lambda>pte.
        if pte = 0 then
          (let a' = PGADDR (PDX a + 1) 0 0 - PGSIZE + PGSIZE in
           if a < a' then deallocuvm_from pgdir oldsz a' else fault ''deallocuvm does not end'')
        else
          bind (gets (\<lambda>s. load32 (mem s) pte)) (\<lambda>e.
          bind (when_do (e AND PTE_P \<noteq> 0)
            (bind (panic_if (PTE_ADDR e = 0) ''kfree'') (\<lambda>_.
             bind (kfree (P2V (PTE_ADDR e))) (\<lambda>_.
             mem_write32 pte 0)))) (\<lambda>_.
          if a < a + PGSIZE then deallocuvm_from pgdir oldsz (a + PGSIZE) else fault ''deallocuvm does not end'')))
      else ret ())"
  by pat_completeness auto
termination
  by (relation "measure (\<lambda>(pgdir, oldsz, a). unat oldsz - unat a)")
    (auto simp: word_less_nat_alt Let_def intro!: diff_less_mono2)

declare deallocuvm_from.simps [simp del]

definition deallocuvm :: "u32 \<Rightarrow> u32 \<Rightarrow> u32 \<Rightarrow> u32 kM" where
  "deallocuvm pgdir oldsz newsz =
     (if oldsz \<le> newsz then ret oldsz
      else bind (deallocuvm_from pgdir oldsz (PGROUNDUP newsz)) (\<lambda>_. ret newsz))"

primrec free_tables :: "u32 \<Rightarrow> nat list \<Rightarrow> unit kM" where
  "free_tables pgdir [] = ret ()"
| "free_tables pgdir (i # is) =
     bind (gets (\<lambda>s. load32 (mem s) (pgdir + 4 * of_nat i))) (\<lambda>e.
     bind (when_do (e AND PTE_P \<noteq> 0) (kfree (P2V (PTE_ADDR e)))) (\<lambda>_.
     free_tables pgdir is))"

definition freevm :: "u32 \<Rightarrow> unit kM" where
  "freevm pgdir =
     bind (panic_if (pgdir = 0) ''freevm: no pgdir'') (\<lambda>_.
     bind (deallocuvm pgdir KERNBASE 0) (\<lambda>_.
     bind (free_tables pgdir [0..<1024]) (\<lambda>_.
     kfree pgdir)))"

text \<open>The table \<^verbatim>\<open>kmap\<close>: virtual address, physical start and end, permissions; \<open>d\<close> is \<^verbatim>\<open>data\<close>.\<close>

definition kmap :: "u32 \<Rightarrow> (u32 \<times> u32 \<times> u32 \<times> u32) list" where
  "kmap d =
     [(KERNBASE, 0, 0x100000, PTE_W),
      (KERNBASE + 0x100000, V2P (KERNBASE + 0x100000), V2P d, 0),
      (d, V2P d, PHYSTOP, PTE_W),
      (0xFE000000, 0xFE000000, 0, PTE_W)]"

primrec map_kernel :: "u32 \<Rightarrow> (u32 \<times> u32 \<times> u32 \<times> u32) list \<Rightarrow> u32 kM" where
  "map_kernel pgdir [] = ret pgdir"
| "map_kernel pgdir (k # ks) =
     (case k of (virt, phys_start, phys_end, perm) \<Rightarrow>
        bind (mappages pgdir virt (phys_end - phys_start) phys_start perm) (\<lambda>r.
        if r < 0 then bind (freevm pgdir) (\<lambda>_. ret 0) else map_kernel pgdir ks))"

definition setupkvm :: "u32 kM" where
  "setupkvm =
     bind kalloc (\<lambda>pgdir.
     if pgdir = 0 then ret 0
     else
       bind (mem_write pgdir (replicate 4096 0)) (\<lambda>_.
       bind (panic_if (0xFE000000 < P2V PHYSTOP) ''PHYSTOP too high'') (\<lambda>_.
       bind (gets kdata) (\<lambda>d.
       map_kernel pgdir (kmap d)))))"

definition kvmalloc :: "unit kM" where
  "kvmalloc = bind setupkvm (\<lambda>p. modify (\<lambda>s. s\<lparr>kpgdir := p\<rparr>))"

definition switchuvm :: "nat option \<Rightarrow> unit kM" where
  "switchuvm p' =
     (case p' of None \<Rightarrow> panic ''switchuvm: no process'' | Some p \<Rightarrow>
     bind (gets (\<lambda>s. ptable s p)) (\<lambda>q.
     bind (panic_if (p_kstack q = 0) ''switchuvm: no kstack'') (\<lambda>_.
     panic_if (p_pgdir q = 0) ''switchuvm: no pgdir'')))"

text \<open>\<^verbatim>\<open>kalloc\<close> failing is not checked here: the null pointer is written through.\<close>

definition inituvm :: "u32 \<Rightarrow> u8 list \<Rightarrow> unit kM" where
  "inituvm pgdir init =
     bind (panic_if (4096 \<le> length init) ''inituvm: more than a page'') (\<lambda>_.
     bind kalloc (\<lambda>pg.
     bind (if pg = 0 then fault ''null pointer'' else ret ()) (\<lambda>_.
     bind (mem_write pg (replicate 4096 0)) (\<lambda>_.
     bind (mappages pgdir 0 PGSIZE (V2P pg) (PTE_W OR PTE_U)) (\<lambda>_.
     mem_write pg init)))))"

function allocuvm_from :: "u32 \<Rightarrow> u32 \<Rightarrow> u32 \<Rightarrow> nat \<Rightarrow> u32 kM" where
  "allocuvm_from pgdir oldsz newsz a =
     (if a < unat newsz then
        bind kalloc (\<lambda>pg.
        if pg = 0 then bind (deallocuvm pgdir newsz oldsz) (\<lambda>_. ret 0)
        else
          bind (mem_write pg (replicate 4096 0)) (\<lambda>_.
          bind (mappages pgdir (of_nat a) PGSIZE (V2P pg) (PTE_W OR PTE_U)) (\<lambda>r.
          if r < 0 then
            bind (deallocuvm pgdir newsz oldsz) (\<lambda>_.
            bind (kfree pg) (\<lambda>_.
            ret 0))
          else allocuvm_from pgdir oldsz newsz (a + 4096))))
      else ret newsz)"
  by pat_completeness auto
termination
  by (relation "measure (\<lambda>(pgdir, oldsz, newsz, a). unat newsz - a)") auto

declare allocuvm_from.simps [simp del]

definition allocuvm :: "u32 \<Rightarrow> u32 \<Rightarrow> u32 \<Rightarrow> u32 kM" where
  "allocuvm pgdir oldsz newsz =
     (if KERNBASE \<le> newsz then ret 0
      else if newsz < oldsz then ret oldsz
      else allocuvm_from pgdir oldsz newsz (unat (PGROUNDUP oldsz)))"

text \<open>A null result of \<^verbatim>\<open>walkpgdir\<close> is not checked by \<^verbatim>\<open>uva2ka\<close>, but is by \<^verbatim>\<open>clearpteu\<close>.\<close>

definition clearpteu :: "u32 \<Rightarrow> u32 \<Rightarrow> unit kM" where
  "clearpteu pgdir uva =
     bind (walkpgdir pgdir uva False) (\<lambda>pte.
     bind (panic_if (pte = 0) ''clearpteu'') (\<lambda>_.
     bind (gets (\<lambda>s. load32 (mem s) pte)) (\<lambda>e.
     mem_write32 pte (e AND NOT PTE_U))))"

function copyuvm_from :: "u32 \<Rightarrow> u32 \<Rightarrow> nat \<Rightarrow> nat \<Rightarrow> u32 kM" where
  "copyuvm_from pgdir d sz i =
     (if i < sz then
        bind (walkpgdir pgdir (of_nat i) False) (\<lambda>pte.
        bind (panic_if (pte = 0) ''copyuvm: pte should exist'') (\<lambda>_.
        bind (gets (\<lambda>s. load32 (mem s) pte)) (\<lambda>e.
        bind (panic_if (e AND PTE_P = 0) ''copyuvm: page not present'') (\<lambda>_.
        bind kalloc (\<lambda>pg.
        if pg = 0 then bind (freevm d) (\<lambda>_. ret 0)
        else
          bind (gets (\<lambda>s. mload (mem s) (P2V (PTE_ADDR e)) 4096)) (\<lambda>bs.
          bind (mem_write pg bs) (\<lambda>_.
          bind (mappages d (of_nat i) PGSIZE (V2P pg) (PTE_FLAGS e)) (\<lambda>r.
          if r < 0 then bind (kfree pg) (\<lambda>_. bind (freevm d) (\<lambda>_. ret 0))
          else copyuvm_from pgdir d sz (i + 4096)))))))))
      else ret d)"
  by pat_completeness auto
termination
  by (relation "measure (\<lambda>(pgdir, d, sz, i). sz - i)") auto

declare copyuvm_from.simps [simp del]

definition copyuvm :: "u32 \<Rightarrow> u32 \<Rightarrow> u32 kM" where
  "copyuvm pgdir sz =
     bind setupkvm (\<lambda>d.
     if d = 0 then ret 0 else copyuvm_from pgdir d (unat sz) 0)"

definition uva2ka :: "u32 \<Rightarrow> u32 \<Rightarrow> u32 kM" where
  "uva2ka pgdir uva =
     bind (walkpgdir pgdir uva False) (\<lambda>pte.
     bind (if pte = 0 then fault ''null pointer'' else ret ()) (\<lambda>_.
     bind (gets (\<lambda>s. load32 (mem s) pte)) (\<lambda>e.
     if e AND PTE_P = 0 then ret 0
     else if e AND PTE_U = 0 then ret 0
     else ret (P2V (PTE_ADDR e)))))"

function copyout :: "u32 \<Rightarrow> u32 \<Rightarrow> u8 list \<Rightarrow> int kM" where
  "copyout pgdir va p =
     (if p = [] then ret 0
      else
        (let va0 = PGROUNDDOWN va; n = min (4096 - unat (va - va0)) (length p) in
         bind (uva2ka pgdir va0) (\<lambda>pa0.
         if pa0 = 0 then ret (-1)
         else
           bind (mem_write (pa0 + (va - va0)) (take n p)) (\<lambda>_.
           copyout pgdir (va0 + PGSIZE) (drop n p)))))"
  by pat_completeness auto
termination
  by (relation "measure (\<lambda>(pgdir, va, p). length p)") (auto simp: Let_def page_offset)

declare copyout.simps [simp del]

end
