(* ===== verification/Vm_Rules.thy ===== *)
theory Vm_Rules
  imports Vm
begin

text \<open>
  Rules for page tables: what the entries of a page read after a write to memory, the partial
  function \<open>mapping\<close> from user addresses to page table entries that a page directory denotes, and
  how \<^verbatim>\<open>walkpgdir\<close> and \<^verbatim>\<open>mappages\<close> change it.
\<close>

subsection \<open>Entries of a page\<close>

lemma page_addr_inj:
  assumes "(p :: u32) mod 4096 = 0" and "q mod 4096 = 0" and "x < 4096" and "y < 4096"
    and e: "p + of_nat x = q + of_nat y"
  shows "p = q \<and> x = y"
proof -
  have ux: "unat (of_nat x :: u32) = x" and uy: "unat (of_nat y :: u32) = y"
    using assms(3,4) by (simp_all add: unat_of_nat take_bit_nat_eq_self)
  have "p = q"
  proof (rule ccontr)
    assume "p \<noteq> q"
    from page_disjoint [OF assms(1,2) this assms(4)] have "4096 \<le> unat (p + of_nat x - p)" unfolding e .
    with ux assms(3) show False by simp
  qed
  moreover from this e have "(of_nat x :: u32) = of_nat y" by simp
  then have "x = y" using ux uy by metis
  ultimately show ?thesis by simp
qed

lemma mstore_outside: "(\<And>l. l < length bs \<Longrightarrow> x \<noteq> a + of_nat l) \<Longrightarrow> mstore m a bs x = m x"
proof -
  assume o: "\<And>l. l < length bs \<Longrightarrow> x \<noteq> a + of_nat l"
  have "x = a + of_nat (unat (x - a))" by simp
  with o [of "unat (x - a)"] show ?thesis unfolding mstore_def by (cases "unat (x - a) < length bs") auto
qed

lemma load32_outside:
  assumes "\<And>k l. k < 4 \<Longrightarrow> l < length bs \<Longrightarrow> b + of_nat k \<noteq> a + of_nat l"
  shows "load32 (mstore m a bs) b = load32 m b"
  by (rule load32_cong, rule mstore_outside) (use assms in blast)

lemma entry_update:
  assumes p: "p mod 4096 = 0" and q: "q mod 4096 = 0" and i: "i < 1024" and j: "j < 1024"
  shows "load32 (store32 m (p + of_nat (4 * i)) w) (q + of_nat (4 * j)) =
     (if p = q \<and> i = j then w else load32 m (q + of_nat (4 * j)))"
proof (cases "p = q \<and> i = j")
  case False
  have "q + of_nat (4 * j) + of_nat k \<noteq> p + of_nat (4 * i) + of_nat l" if "k < 4" "l < 4" for k l
  proof
    assume "q + of_nat (4 * j) + of_nat k = p + of_nat (4 * i) + of_nat l"
    then have "q + of_nat (4 * j + k) = p + of_nat (4 * i + l)" by (simp only: of_nat_add add.assoc)
    from page_addr_inj [OF q p _ _ this] i j that have "q = p" "4 * j + k = 4 * i + l" by auto
    then have "j = i" using that by presburger
    with \<open>q = p\<close> False show False by simp
  qed
  then have "load32 (store32 m (p + of_nat (4 * i)) w) (q + of_nat (4 * j)) = load32 m (q + of_nat (4 * j))"
    unfolding store32_def by (intro load32_outside) simp
  then show ?thesis unfolding if_not_P [OF False] .
qed simp

lemma get32_zeros: "get32 (replicate 4 0) 0 = 0"
proof -
  have "replicate 4 (0::u8) = [0, 0, 0, 0]" by (simp add: numeral_eq_Suc)
  then show ?thesis by (simp add: get32_def bslice_def word32_def)
qed

lemma unat_of_nat_u32: "n < 2 ^ 32 \<Longrightarrow> unat (of_nat n :: u32) = n"
  by (simp add: unat_of_nat take_bit_nat_eq_self)

lemma entry_zeroed:
  assumes "j < 1024"
  shows "load32 (mstore m p (replicate 4096 0)) (p + of_nat (4 * j)) = 0"
proof -
  have "mstore m p (replicate 4096 0) (p + of_nat (4 * j) + of_nat k) = 0" if "k < 4" for k
  proof -
    have e: "p + of_nat (4 * j) + of_nat k - p = (of_nat (4 * j + k) :: u32)" by simp
    have "unat (of_nat (4 * j + k) :: u32) = 4 * j + k"
      using assms that by (intro unat_of_nat_u32) simp
    then show ?thesis unfolding mstore_def e using assms that by simp
  qed
  then have "mload (mstore m p (replicate 4096 0)) (p + of_nat (4 * j)) 4 = replicate 4 0"
    unfolding mload_def by (intro nth_equalityI) simp_all
  then show ?thesis by (simp add: load32_def get32_zeros)
qed

lemma entry_zero_other:
  assumes "p mod 4096 = 0" and "q mod 4096 = 0" and "p \<noteq> q" and "j < 1024"
  shows "load32 (mstore m p (replicate 4096 0)) (q + of_nat (4 * j)) = load32 m (q + of_nat (4 * j))"
proof (rule load32_outside)
  fix k l :: nat
  assume kl: "k < 4" "l < length (replicate 4096 (0::u8))"
  show "q + of_nat (4 * j) + of_nat k \<noteq> p + of_nat l"
  proof
    assume "q + of_nat (4 * j) + of_nat k = p + of_nat l"
    then have "q + of_nat (4 * j + k) = p + of_nat l" by (simp only: of_nat_add add.assoc)
    from page_addr_inj [OF assms(2,1) _ _ this] assms kl show False by auto
  qed
qed

subsection \<open>Indices and flags\<close>

lemma unat_and_3FF: "unat (x AND 0x3FF :: u32) < 1024"
proof -
  have "(0x3FF :: u32) = mask 10" by (simp add: mask_eq_exp_minus_1)
  then have "x AND 0x3FF = take_bit 10 x" by (simp only: take_bit_eq_mask)
  then have "unat (x AND 0x3FF) = unat x mod 1024" by (simp add: take_bit_eq_mod unat_mod)
  then show ?thesis by simp
qed

definition pdx :: "u32 \<Rightarrow> nat" where "pdx va = unat (PDX va)"
definition ptx :: "u32 \<Rightarrow> nat" where "ptx va = unat (PTX va)"

lemma pdx_less [simp]: "pdx va < 1024" and ptx_less [simp]: "ptx va < 1024"
  by (simp_all add: pdx_def ptx_def PDX_def PTX_def unat_and_3FF)

lemma PDX_nat: "4 * PDX va = of_nat (4 * pdx va)" and PTX_nat: "4 * PTX va = of_nat (4 * ptx va)"
  by (simp_all add: pdx_def ptx_def)

lemma bit_PTX: "bit (PTX a) n \<longleftrightarrow> n < 10 \<and> bit a (n + 12)"
proof -
  have m: "(0x3FF :: u32) = mask 10" by (simp add: mask_eq_exp_minus_1)
  show ?thesis unfolding PTX_def m by (auto simp: bit_and_iff bit_mask_iff bit_drop_bit_eq add.commute)
qed

lemma bit_PDX: "bit (PDX a) n \<longleftrightarrow> n < 10 \<and> bit a (n + 22)"
proof -
  have m: "(0x3FF :: u32) = mask 10" by (simp add: mask_eq_exp_minus_1)
  show ?thesis unfolding PDX_def m by (auto simp: bit_and_iff bit_mask_iff bit_drop_bit_eq add.commute)
qed

lemma bit_PGROUNDDOWN: "bit (PGROUNDDOWN a) n \<longleftrightarrow> 12 \<le> n \<and> bit a n"
proof -
  have m: "(PGSIZE - 1 :: u32) = mask 12" by (simp add: mask_eq_exp_minus_1)
  show ?thesis unfolding PGROUNDDOWN_def m
    by (auto simp: bit_and_iff bit_mask_iff bit_not_iff not_less dest: bit_imp_le_length)
qed

lemma same_page: "pdx a = pdx b \<and> ptx a = ptx b \<longleftrightarrow> PGROUNDDOWN a = PGROUNDDOWN b"
proof
  assume "pdx a = pdx b \<and> ptx a = ptx b"
  then have d: "PDX a = PDX b" and t: "PTX a = PTX b" by (simp_all add: pdx_def ptx_def word_unat_eq_iff)
  show "PGROUNDDOWN a = PGROUNDDOWN b"
  proof (rule bit_word_eqI)
    fix n assume n: "n < LENGTH(32)"
    consider "n < 12" | "12 \<le> n" "n < 22" | "22 \<le> n" by linarith
    then show "bit (PGROUNDDOWN a) n = bit (PGROUNDDOWN b) n"
    proof cases
      case 2
      then have "n - 12 < 10" "n - 12 + 12 = n" by auto
      then show ?thesis using bit_PTX [of a "n - 12"] bit_PTX [of b "n - 12"] t by (simp add: bit_PGROUNDDOWN)
    next
      case 3
      with n have "n - 22 < 10" "n - 22 + 22 = n" by auto
      then show ?thesis using bit_PDX [of a "n - 22"] bit_PDX [of b "n - 22"] d by (simp add: bit_PGROUNDDOWN)
    qed (simp add: bit_PGROUNDDOWN)
  qed
next
  assume e: "PGROUNDDOWN a = PGROUNDDOWN b"
  have h: "bit a n = bit b n" if "12 \<le> n" for n
    using that arg_cong [OF e, of "\<lambda>w. bit w n"] by (simp add: bit_PGROUNDDOWN)
  have "PDX a = PDX b" by (rule bit_eqI) (simp add: bit_PDX h)
  moreover have "PTX a = PTX b" by (rule bit_eqI) (simp add: bit_PTX h)
  ultimately show "pdx a = pdx b \<and> ptx a = ptx b" by (simp add: pdx_def ptx_def)
qed


subsection \<open>The mapping of a page directory\<close>

definition pde_of :: "kstate \<Rightarrow> u32 \<Rightarrow> nat \<Rightarrow> u32" where
  "pde_of s pgdir i = load32 (mem s) (pgdir + of_nat (4 * i))"

definition present :: "u32 \<Rightarrow> bool" where
  "present e \<longleftrightarrow> e AND PTE_P \<noteq> 0"

definition tab_of :: "kstate \<Rightarrow> u32 \<Rightarrow> nat \<Rightarrow> u32" where
  "tab_of s pgdir i = P2V (PTE_ADDR (pde_of s pgdir i))"

definition pte_of :: "kstate \<Rightarrow> u32 \<Rightarrow> nat \<Rightarrow> nat \<Rightarrow> u32" where
  "pte_of s pgdir i j = load32 (mem s) (tab_of s pgdir i + of_nat (4 * j))"

text \<open>The entry the hardware finds for the address \<open>va\<close>, if there is one.\<close>

definition mapping :: "kstate \<Rightarrow> u32 \<Rightarrow> u32 \<Rightarrow> u32 option" where
  "mapping s pgdir va =
     (if present (pde_of s pgdir (pdx va)) \<and> present (pte_of s pgdir (pdx va) (ptx va))
      then Some (pte_of s pgdir (pdx va) (ptx va)) else None)"

text \<open>The tables are separate pages, none of them on the free list \<open>ps\<close>.\<close>

definition pt_ok :: "kstate \<Rightarrow> u32 \<Rightarrow> u32 list \<Rightarrow> bool" where
  "pt_ok s pgdir ps \<longleftrightarrow> free_ok s ps \<and> pgdir mod 4096 = 0 \<and> pgdir \<notin> set ps
   \<and> (\<forall>i<1024. present (pde_of s pgdir i) \<longrightarrow>
        tab_of s pgdir i \<noteq> 0 \<and> tab_of s pgdir i \<noteq> pgdir \<and> tab_of s pgdir i \<notin> set ps
      \<and> (\<forall>j<1024. present (pde_of s pgdir j) \<and> tab_of s pgdir i = tab_of s pgdir j \<longrightarrow> i = j))"

lemma aligned_add: "(a :: u32) mod 4096 = 0 \<Longrightarrow> b mod 4096 = 0 \<Longrightarrow> (a + b) mod 4096 = 0"
proof -
  assume "a mod 4096 = 0" "b mod 4096 = 0"
  then have "unat a mod 4096 = 0" "unat b mod 4096 = 0" by (simp_all add: word_unat_eq_iff unat_mod)
  then have "4096 dvd unat a + unat b" by (simp add: dvd_eq_mod_eq_0 [symmetric])
  then have "4096 dvd (unat a + unat b) mod 2 ^ 32" by (rule dvd_mod) simp
  then show ?thesis by (simp add: word_unat_eq_iff unat_mod unat_word_ariths dvd_eq_mod_eq_0)
qed

lemma PTE_ADDR_down: "PTE_ADDR e = PGROUNDDOWN e"
  by (simp add: PTE_ADDR_def PGROUNDDOWN_def)

lemma tab_of_aligned [simp]: "tab_of s pgdir i mod 4096 = 0"
  unfolding tab_of_def P2V_def PTE_ADDR_down by (intro aligned_add pgdown_aligned) simp

lemma present_or: "present (x OR y OR PTE_P)"
proof -
  have "bit ((x OR y OR 1) AND 1) 0" by (simp add: bit_or_iff bit_and_iff)
  then show ?thesis unfolding present_def by auto
qed

lemma PTE_ADDR_or:
  assumes "v mod 4096 = 0" and "f AND NOT 0xFFF = 0"
  shows "PTE_ADDR (v OR f) = v"
proof -
  have "PTE_ADDR (v OR f) = PTE_ADDR v OR PTE_ADDR f" by (simp add: PTE_ADDR_def bit.conj_disj_distrib2)
  also have "PTE_ADDR f = 0" using assms(2) by (simp add: PTE_ADDR_def)
  also have "PTE_ADDR v = v" unfolding PTE_ADDR_down by (rule pgdown_idem [OF assms(1)])
  finally show ?thesis by simp
qed

lemma free_ok_mem:
  assumes ok: "free_ok s ps" and a: "p mod 4096 = 0" "p \<notin> set ps" "i < 1024"
  shows "free_ok (s\<lparr>mem := store32 (mem s) (p + of_nat (4 * i)) w\<rparr>) ps"
proof -
  have "load32 (store32 (mem s) (p + of_nat (4 * i)) w) q = load32 (mem s) q" if "q \<in> set ps" for q
  proof -
    have q: "q mod 4096 = 0" "p \<noteq> q" using ok a that by (auto simp: free_ok_def pg_ok_def)
    from entry_update [OF a(1) q(1) a(3), of 0 "mem s" w] q(2) show ?thesis by simp
  qed
  then show ?thesis using ok flist_cong [of ps "store32 (mem s) (p + of_nat (4 * i)) w" "mem s"]
    by (simp add: free_ok_def pg_ok_def)
qed

lemma set_pte:
  fixes w :: u32
  assumes ok: "pt_ok s pgdir ps" and i: "i < 1024" "present (pde_of s pgdir i)" and j: "j < 1024"
  defines "t \<equiv> s\<lparr>mem := store32 (mem s) (tab_of s pgdir i + of_nat (4 * j)) w\<rparr>"
  shows "pt_ok t pgdir ps" and "\<forall>k<1024. pde_of t pgdir k = pde_of s pgdir k" and "pte_of t pgdir i j = w"
    and "\<forall>k<1024. \<forall>l<1024. present (pde_of s pgdir k) \<and> (k, l) \<noteq> (i, j) \<longrightarrow> pte_of t pgdir k l = pte_of s pgdir k l"
proof -
  let ?p = "tab_of s pgdir i"
  have p: "?p \<noteq> pgdir" "?p \<notin> set ps" "pgdir mod 4096 = 0" "free_ok s ps"
    and inj: "\<And>k. k < 1024 \<Longrightarrow> present (pde_of s pgdir k) \<Longrightarrow> tab_of s pgdir k = ?p \<Longrightarrow> k = i"
    using ok i unfolding pt_ok_def by metis+
  show pde: "\<forall>k<1024. pde_of t pgdir k = pde_of s pgdir k"
    using entry_update [OF tab_of_aligned p(3) j] p(1) by (simp add: pde_of_def t_def)
  then have tab: "\<forall>k<1024. tab_of t pgdir k = tab_of s pgdir k" by (simp add: tab_of_def)
  have mt: "mem t = store32 (mem s) (?p + of_nat (4 * j)) w" by (simp add: t_def)
  have "free_ok t ps" unfolding t_def by (rule free_ok_mem [OF p(4) tab_of_aligned p(2) j])
  then show "pt_ok t pgdir ps" using ok pde tab unfolding pt_ok_def by simp
  show "pte_of t pgdir i j = w" using tab i unfolding pte_of_def by (simp add: t_def)
  show "\<forall>k<1024. \<forall>l<1024. present (pde_of s pgdir k) \<and> (k, l) \<noteq> (i, j) \<longrightarrow> pte_of t pgdir k l = pte_of s pgdir k l"
  proof (intro allI impI)
    fix k l :: nat
    assume k: "k < 1024" and l: "l < 1024" and pr: "present (pde_of s pgdir k) \<and> (k, l) \<noteq> (i, j)"
    have nn: "\<not> (?p = tab_of s pgdir k \<and> j = l)" using inj [OF k] pr by auto
    have "load32 (mem t) (tab_of s pgdir k + of_nat (4 * l)) = load32 (mem s) (tab_of s pgdir k + of_nat (4 * l))"
      unfolding mt entry_update [OF tab_of_aligned tab_of_aligned j l] by (rule if_not_P [OF nn])
    then show "pte_of t pgdir k l = pte_of s pgdir k l"
      unfolding pte_of_def tab [rule_format, OF k] .
  qed
qed

lemma new_table:
  assumes ok: "pt_ok s pgdir (v # qs)" and i: "i < 1024" "\<not> present (pde_of s pgdir i)"
  defines "t \<equiv> s\<lparr>freelist := load32 (mem s) v,
       mem := store32 (mstore (mem s) v (replicate 4096 0)) (pgdir + of_nat (4 * i)) (V2P v OR PTE_P OR PTE_W OR PTE_U)\<rparr>"
  shows "pt_ok t pgdir qs" and "present (pde_of t pgdir i)" and "tab_of t pgdir i = v"
    and "\<forall>j<1024. pte_of t pgdir i j = 0"
    and "\<forall>k<1024. k \<noteq> i \<longrightarrow> pde_of t pgdir k = pde_of s pgdir k"
    and "\<forall>k<1024. \<forall>l<1024. k \<noteq> i \<and> present (pde_of s pgdir k) \<longrightarrow> pte_of t pgdir k l = pte_of s pgdir k l"
proof -
  let ?e = "V2P v OR PTE_P OR PTE_W OR PTE_U" and ?m = "mstore (mem s) v (replicate 4096 0)"
  have fr: "free_ok s (v # qs)" and pg: "pgdir mod 4096 = 0" "pgdir \<noteq> v" "pgdir \<notin> set qs"
    using ok by (auto simp: pt_ok_def)
  have v: "v mod 4096 = 0" "v \<noteq> 0" "v \<notin> set qs" using fr by (auto simp: free_ok_def pg_ok_def)
  have other: "tab_of s pgdir k \<noteq> v" "tab_of s pgdir k \<noteq> pgdir" if "k < 1024" "present (pde_of s pgdir k)" for k
    using ok that unfolding pt_ok_def by auto
  have ld: "load32 (mem t) (q + of_nat (4 * l)) = (if q = pgdir \<and> l = i then ?e else if q = v then 0 else load32 (mem s) (q + of_nat (4 * l)))"
    if "q mod 4096 = 0" "l < 1024" for q l
    using entry_update [OF pg(1) that(1) i(1) that(2), of ?m ?e] entry_zeroed [OF that(2), of "mem s" v]
      entry_zero_other [OF v(1) that(1) _ that(2), of "mem s"] pg(2)
    by (auto simp: t_def)
  have pdi: "pde_of t pgdir i = ?e" using ld [OF pg(1) i(1)] by (simp add: pde_of_def)
  have "bit (?e AND 1) 0" by (simp add: bit_or_iff bit_and_iff)
  then show pr: "present (pde_of t pgdir i)" unfolding pdi present_def by auto
  have "V2P v mod 4096 = 0" using aligned_add [OF v(1), of "- 0x80000000"] by (simp add: V2P_def)
  then have "PTE_ADDR ?e = V2P v" by (intro PTE_ADDR_or) simp_all
  then show tbi: "tab_of t pgdir i = v" unfolding tab_of_def pdi by (simp add: P2V_def V2P_def)
  show "\<forall>j<1024. pte_of t pgdir i j = 0" using ld [OF v(1)] pg(2) unfolding pte_of_def tbi by simp
  show pdk: "\<forall>k<1024. k \<noteq> i \<longrightarrow> pde_of t pgdir k = pde_of s pgdir k"
    using ld [OF pg(1)] pg(2) by (simp add: pde_of_def)
  then have tbk: "\<forall>k<1024. k \<noteq> i \<longrightarrow> tab_of t pgdir k = tab_of s pgdir k" by (simp add: tab_of_def)
  show "\<forall>k<1024. \<forall>l<1024. k \<noteq> i \<and> present (pde_of s pgdir k) \<longrightarrow> pte_of t pgdir k l = pte_of s pgdir k l"
    using ld [OF tab_of_aligned] other tbk by (simp add: pte_of_def)
  have ldq: "load32 (mem t) q = load32 (mem s) q" if "q \<in> set qs" for q
    using ld [of q 0] that fr pg v by (auto simp: free_ok_def pg_ok_def)
  have "flist (mem s) (load32 (mem s) v) qs" using fr by (simp add: free_ok_def)
  then have "flist (mem t) (load32 (mem s) v) qs" using flist_cong [OF ldq] by simp
  then have "free_ok t qs" using fr by (simp add: free_ok_def pg_ok_def t_def)
  have tk: "tab_of s pgdir k \<notin> set qs" "tab_of s pgdir k \<noteq> 0" if "k < 1024" "present (pde_of s pgdir k)" for k
    using ok that unfolding pt_ok_def by auto
  have inj: "a = b" if "a < 1024" "present (pde_of s pgdir a)" "b < 1024" "present (pde_of s pgdir b)"
      "tab_of s pgdir a = tab_of s pgdir b" for a b
    using ok that unfolding pt_ok_def by blast
  have c: "k = i \<and> tab_of t pgdir k = v \<or> k \<noteq> i \<and> present (pde_of s pgdir k) \<and> tab_of t pgdir k = tab_of s pgdir k"
    if "k < 1024" "present (pde_of t pgdir k)" for k
    using that pdk tbk tbi by (cases "k = i") simp_all
  have inj': "a = b" if "a < 1024" "present (pde_of t pgdir a)" "b < 1024" "present (pde_of t pgdir b)"
      and e: "tab_of t pgdir a = tab_of t pgdir b" for a b
    using c [OF that(1,2)] c [OF that(3,4)]
  proof (elim disjE conjE)
    assume "tab_of t pgdir a = v" "present (pde_of s pgdir b)" "tab_of t pgdir b = tab_of s pgdir b"
    then show ?thesis using e other(1) [OF that(3)] by simp
  next
    assume "tab_of t pgdir b = v" "present (pde_of s pgdir a)" "tab_of t pgdir a = tab_of s pgdir a"
    then show ?thesis using e other(1) [OF that(1)] by simp
  next
    assume "present (pde_of s pgdir a)" "present (pde_of s pgdir b)"
      "tab_of t pgdir a = tab_of s pgdir a" "tab_of t pgdir b = tab_of s pgdir b"
    then show ?thesis using e inj that(1,3) by simp
  qed simp
  have "tab_of t pgdir k \<noteq> 0 \<and> tab_of t pgdir k \<noteq> pgdir \<and> tab_of t pgdir k \<notin> set qs"
    if "k < 1024" "present (pde_of t pgdir k)" for k
    using c [OF that] v pg(2) tk [OF that(1)] other [OF that(1)] by (elim disjE conjE) simp_all
  then show "pt_ok t pgdir qs" unfolding pt_ok_def using \<open>free_ok t qs\<close> pg inj' by blast
qed

subsection \<open>Walking and mapping\<close>


lemma pt_ok_entry:
  assumes "pt_ok s pgdir ps" and "present (pde_of s pgdir (pdx va))"
  shows "tab_of s pgdir (pdx va) + of_nat (4 * ptx va) \<noteq> 0"
proof
  assume "tab_of s pgdir (pdx va) + of_nat (4 * ptx va) = 0"
  then have "tab_of s pgdir (pdx va) + of_nat (4 * ptx va) = 0 + of_nat 0" by simp
  from page_addr_inj [OF tab_of_aligned _ _ _ this] ptx_less [of va]
  have "tab_of s pgdir (pdx va) = 0" by simp
  then show False using assms by (auto simp: pt_ok_def)
qed

lemma walkpgdir_present:
  assumes "present (pde_of s pgdir (pdx va))"
  shows "walkpgdir pgdir va alloc s = Ret (tab_of s pgdir (pdx va) + of_nat (4 * ptx va)) s"
  using assms by (simp add: walkpgdir_def PDX_nat PTX_nat present_def pde_of_def tab_of_def del: of_nat_mult)

lemma walkpgdir_absent:
  assumes "\<not> present (pde_of s pgdir (pdx va))"
  shows "walkpgdir pgdir va False s = Ret 0 s"
  using assms by (simp add: walkpgdir_def PDX_nat PTX_nat present_def pde_of_def del: of_nat_mult)

lemma walkpgdir_alloc:
  assumes "pt_ok s pgdir ps" and "\<not> present (pde_of s pgdir (pdx va))"
  shows "walkpgdir pgdir va True s =
     (case ps of [] \<Rightarrow> Ret 0 s
      | v # qs \<Rightarrow> Ret (v + of_nat (4 * ptx va)) (s\<lparr>freelist := load32 (mem s) v,
          mem := store32 (mstore (mem s) v (replicate 4096 0)) (pgdir + of_nat (4 * pdx va)) (V2P v OR PTE_P OR PTE_W OR PTE_U)\<rparr>))"
proof -
  have fr: "free_ok s ps" using assms(1) by (simp add: pt_ok_def)
  have z: "v = 0 \<Longrightarrow> ps \<noteq> v # qs" for v qs using fr by (auto simp: free_ok_def)
  show ?thesis using assms(2) kalloc_run(1) [OF fr] z
    by (cases ps) (auto simp: walkpgdir_def PDX_nat PTX_nat present_def pde_of_def free_ok_def simp del: of_nat_mult)
qed

text \<open>Writing an entry of a page table that is there changes the mapping of one page.\<close>

lemma mapping_set_pte:
  assumes ok: "pt_ok s pgdir ps" and pr: "present (pde_of s pgdir (pdx va))" and w: "present w"
  defines "t \<equiv> s\<lparr>mem := store32 (mem s) (tab_of s pgdir (pdx va) + of_nat (4 * ptx va)) w\<rparr>"
  shows "mapping t pgdir vb = (if PGROUNDDOWN vb = PGROUNDDOWN va then Some w else mapping s pgdir vb)"
proof -
  note S = set_pte [OF ok pdx_less pr ptx_less, of va w, folded t_def]
  show ?thesis
  proof (cases "PGROUNDDOWN vb = PGROUNDDOWN va")
    case True
    then have "pdx vb = pdx va" "ptx vb = ptx va" using same_page [of vb va] by auto
    then show ?thesis using True S(2,3) pr w by (simp add: mapping_def)
  next
    case False
    then have "(pdx vb, ptx vb) \<noteq> (pdx va, ptx va)" using same_page [of vb va] by auto
    then show ?thesis using False S(2,4) by (auto simp: mapping_def)
  qed
qed

lemma mapping_new_table:
  assumes ok: "pt_ok s pgdir (v # qs)" and pr: "\<not> present (pde_of s pgdir (pdx va))"
  defines "t \<equiv> s\<lparr>freelist := load32 (mem s) v,
       mem := store32 (mstore (mem s) v (replicate 4096 0)) (pgdir + of_nat (4 * pdx va)) (V2P v OR PTE_P OR PTE_W OR PTE_U)\<rparr>"
  shows "mapping t pgdir vb = mapping s pgdir vb"
proof -
  note N = new_table [OF ok pdx_less pr, folded t_def]
  show ?thesis
  proof (cases "pdx vb = pdx va")
    case True
    then have "pte_of t pgdir (pdx vb) (ptx vb) = 0" "mapping s pgdir vb = None" using N(4) pr by (simp_all add: mapping_def)
    then show ?thesis by (simp add: mapping_def present_def)
  next
    case False
    then show ?thesis using N(5,6) by (auto simp: mapping_def)
  qed
qed

lemma map_one_remap:
  assumes "pt_ok s pgdir ps" and "mapping s pgdir va \<noteq> None"
  shows "map_one pgdir va pa perm s = Panic ''remap''"
proof -
  have p: "present (pde_of s pgdir (pdx va))" "present (pte_of s pgdir (pdx va) (ptx va))"
    using assms(2) by (auto simp: mapping_def split: if_splits)
  show ?thesis using p(2) pt_ok_entry [OF assms(1) p(1)]
    by (simp add: map_one_def walkpgdir_present [OF p(1)] pte_of_def present_def del: of_nat_mult)
qed

lemma map_one_run:
  assumes ok: "pt_ok s pgdir ps" and none: "mapping s pgdir va = None"
  shows "(map_one pgdir va pa perm s = Ret False s \<and> ps = []) \<or>
    (\<exists>t qs. map_one pgdir va pa perm s = Ret True t \<and> pt_ok t pgdir qs \<and> set qs \<subseteq> set ps \<and> length ps \<le> length qs + 1
       \<and> (\<forall>vb. mapping t pgdir vb = (if PGROUNDDOWN vb = PGROUNDDOWN va then Some (pa OR perm OR PTE_P) else mapping s pgdir vb)))"
proof (cases "present (pde_of s pgdir (pdx va))")
  case True
  have np: "\<not> present (pte_of s pgdir (pdx va) (ptx va))" using none True by (auto simp: mapping_def split: if_splits)
  have "map_one pgdir va pa perm s =
     Ret True (s\<lparr>mem := store32 (mem s) (tab_of s pgdir (pdx va) + of_nat (4 * ptx va)) (pa OR perm OR PTE_P)\<rparr>)"
    using np pt_ok_entry [OF ok True]
    by (simp add: map_one_def walkpgdir_present [OF True] pte_of_def present_def del: of_nat_mult)
  moreover note mapping_set_pte [OF ok True present_or, of pa perm] set_pte(1) [OF ok pdx_less True ptx_less, of va "pa OR perm OR PTE_P"]
  ultimately show ?thesis by (intro disjI2 exI [of _ ps] exI conjI allI) (assumption | simp)+
next
  case False
  show ?thesis
  proof (cases ps)
    case Nil
    then show ?thesis using walkpgdir_alloc [OF ok False] by (simp add: map_one_def)
  next
    case (Cons v qs)
    define t where "t = s\<lparr>freelist := load32 (mem s) v,
       mem := store32 (mstore (mem s) v (replicate 4096 0)) (pgdir + of_nat (4 * pdx va)) (V2P v OR PTE_P OR PTE_W OR PTE_U)\<rparr>"
    note ok' = ok [unfolded Cons]
    note N = new_table [OF ok' pdx_less False, folded t_def] and M = mapping_new_table [OF ok' False, folded t_def]
    have w: "walkpgdir pgdir va True s = Ret (tab_of t pgdir (pdx va) + of_nat (4 * ptx va)) t"
      "load32 (mem t) (tab_of t pgdir (pdx va) + of_nat (4 * ptx va)) = 0"
      using walkpgdir_alloc [OF ok' False] N(3,4) by (simp_all add: t_def pte_of_def)
    define u where "u = t\<lparr>mem := store32 (mem t) (tab_of t pgdir (pdx va) + of_nat (4 * ptx va)) (pa OR perm OR PTE_P)\<rparr>"
    have r: "map_one pgdir va pa perm s = Ret True u"
      using w pt_ok_entry [OF N(1,2)] by (simp add: map_one_def u_def del: of_nat_mult)
    note S = mapping_set_pte [OF N(1,2) present_or, of pa perm, folded u_def]
      set_pte(1) [OF N(1) pdx_less N(2) ptx_less, of va "pa OR perm OR PTE_P", folded u_def]
    show ?thesis
      by (rule disjI2, rule exI [of _ u], rule exI [of _ qs]) (use r S M Cons in \<open>auto simp del: of_nat_mult\<close>)
  qed
qed


subsection \<open>Mapping a range\<close>

text \<open>The number of the page of \<open>vb\<close>, counted from the page at \<open>a\<close>.\<close>

definition page_no :: "u32 \<Rightarrow> u32 \<Rightarrow> nat" where
  "page_no a vb = unat (PGROUNDDOWN vb - a) div 4096"

lemma page_no_0:
  assumes "a mod 4096 = 0"
  shows "page_no a vb = 0 \<longleftrightarrow> PGROUNDDOWN vb = a"
proof -
  have "page_no a vb = 0 \<longleftrightarrow> unat (PGROUNDDOWN vb - a) < 4096" by (auto simp: page_no_def div_eq_0_iff)
  also have "\<dots> \<longleftrightarrow> PGROUNDDOWN vb = a"
  proof
    assume l: "unat (PGROUNDDOWN vb - a) < 4096"
    have "PGROUNDDOWN vb + of_nat 0 = a + of_nat (unat (PGROUNDDOWN vb - a))" by simp
    from page_addr_inj [OF pgdown_aligned assms _ l this] show "PGROUNDDOWN vb = a" by simp
  qed simp
  finally show ?thesis .
qed

lemma page_no_step:
  assumes "PGROUNDDOWN vb \<noteq> a" and a: "a mod 4096 = 0"
  shows "page_no a vb = Suc (page_no (a + 4096) vb)"
proof -
  have "\<not> unat (PGROUNDDOWN vb - a) < 4096"
    using assms page_no_0 [OF a, of vb] by (auto simp: page_no_def div_eq_0_iff)
  then have l: "4096 \<le> PGROUNDDOWN vb - a" by (simp add: word_le_nat_alt)
  have e: "PGROUNDDOWN vb - (a + 4096) = PGROUNDDOWN vb - a - 4096" by simp
  have "unat (PGROUNDDOWN vb - a - 4096) = unat (PGROUNDDOWN vb - a) - 4096"
    using l by (simp add: unat_sub)
  then show ?thesis unfolding page_no_def e using l by (simp add: word_le_nat_alt le_div_geq)
qed

lemma page_no_back: "page_no (a + 4096) a = 2 ^ 20 - 1" if "a mod 4096 = 0"
  using that by (simp add: page_no_def pgdown_idem unat_minus_one)

lemma mappages_from_run:
  assumes "pt_ok s pgdir ps" and "a mod 4096 = 0" and "n < 2 ^ 20"
    and "\<And>vb. page_no a vb \<le> n \<Longrightarrow> mapping s pgdir vb = None"
  shows "\<exists>m t qs. mappages_from pgdir n a pa perm s = Ret (if m = Suc n then 0 else -1) t
     \<and> pt_ok t pgdir qs \<and> set qs \<subseteq> set ps \<and> length ps \<le> length qs + m \<and> m \<le> Suc n \<and> (m \<le> n \<longrightarrow> qs = [])
     \<and> (\<forall>vb. mapping t pgdir vb =
          (if page_no a vb < m then Some ((pa + of_nat (4096 * page_no a vb)) OR perm OR PTE_P) else mapping s pgdir vb))"
  using assms
proof (induction n arbitrary: s ps a pa)
  case (0 s ps a pa)
  have a: "PGROUNDDOWN a = a" and none: "mapping s pgdir a = None"
    using 0(2,4) page_no_0 [OF 0(2), of a] by (simp_all add: pgdown_idem)
  from map_one_run [OF 0(1) none, of pa perm] show ?case
  proof (elim disjE exE conjE)
    assume "map_one pgdir a pa perm s = Ret False s" "ps = []"
    then show ?thesis using 0(1) by (intro exI [of _ 0] exI [of _ s] exI [of _ "[]"]) simp
  next
    fix t qs
    assume "map_one pgdir a pa perm s = Ret True t" "pt_ok t pgdir qs" "set qs \<subseteq> set ps" "length ps \<le> length qs + 1"
      "\<forall>vb. mapping t pgdir vb = (if PGROUNDDOWN vb = PGROUNDDOWN a then Some (pa OR perm OR PTE_P) else mapping s pgdir vb)"
    then show ?thesis using a
      by (intro exI [of _ 1] exI [of _ t] exI [of _ qs]) (simp add: page_no_0 [OF 0(2), symmetric])
  qed
next
  case (Suc n s ps a pa)
  have a: "PGROUNDDOWN a = a" and none: "mapping s pgdir a = None"
    using Suc.prems(2,4) page_no_0 [OF Suc.prems(2), of a] by (simp_all add: pgdown_idem)
  from map_one_run [OF Suc.prems(1) none, of pa perm] show ?case
  proof (elim disjE exE conjE)
    assume "map_one pgdir a pa perm s = Ret False s" "ps = []"
    then show ?thesis using Suc.prems(1) by (intro exI [of _ 0] exI [of _ s] exI [of _ "[]"]) simp
  next
    fix t qs
    assume r: "map_one pgdir a pa perm s = Ret True t" and t: "pt_ok t pgdir qs" "set qs \<subseteq> set ps" "length ps \<le> length qs + 1"
      and mt: "\<forall>vb. mapping t pgdir vb = (if PGROUNDDOWN vb = PGROUNDDOWN a then Some (pa OR perm OR PTE_P) else mapping s pgdir vb)"
    have wrap: "page_no (a + 4096) vb = 2 ^ 20 - 1" if "PGROUNDDOWN vb = a" for vb
      using page_no_back [OF Suc.prems(2)] that by (simp add: page_no_def a)
    have "mapping t pgdir vb = None" if "page_no (a + 4096) vb \<le> n" for vb
    proof -
      have "PGROUNDDOWN vb \<noteq> a" using wrap [of vb] that Suc.prems(3) by auto
      moreover from page_no_step [OF this Suc.prems(2)] have "page_no a vb \<le> Suc n" using that by simp
      ultimately show ?thesis using mt a Suc.prems(4) by simp
    qed
    then obtain m u qs' where R: "mappages_from pgdir n (a + 4096) (pa + 4096) perm t = Ret (if m = Suc n then 0 else -1) u"
      "pt_ok u pgdir qs'" "set qs' \<subseteq> set qs" "length qs \<le> length qs' + m" "m \<le> Suc n" "m \<le> n \<longrightarrow> qs' = []"
      and mu: "\<forall>vb. mapping u pgdir vb =
          (if page_no (a + 4096) vb < m then Some ((pa + 4096 + of_nat (4096 * page_no (a + 4096) vb)) OR perm OR PTE_P) else mapping t pgdir vb)"
      using Suc.IH [OF t(1) aligned_add [OF Suc.prems(2)], of 4096 "pa + 4096"] Suc.prems(3) by auto
    have "mapping u pgdir vb =
        (if page_no a vb < Suc m then Some ((pa + of_nat (4096 * page_no a vb)) OR perm OR PTE_P) else mapping s pgdir vb)" for vb
    proof (cases "PGROUNDDOWN vb = a")
      case True
      then have "page_no a vb = 0" "\<not> page_no (a + 4096) vb < m"
        using page_no_0 [OF Suc.prems(2)] wrap R(5) Suc.prems(3) by auto
      then show ?thesis using mu mt True a by simp
    next
      case False
      from page_no_step [OF this Suc.prems(2)] show ?thesis using mu mt False a by (simp add: add.assoc)
    qed
    then show ?thesis using r R t
      by (intro exI [of _ "Suc m"] exI [of _ u] exI [of _ qs']) auto
  qed
qed

text \<open>
  Property (C6). \<^verbatim>\<open>mappages\<close> on a range none of whose pages is mapped maps a prefix of the pages of
  the range, page \<open>k\<close> to the physical page \<open>pa + 4096 * k\<close> with the given permissions, and
  changes no other mapping. It returns 0 if the prefix is the whole range and -1 otherwise, and
  then no free page is left; with a free page for every page of the range it returns 0. If the
  first page is already mapped it panics.
\<close>

theorem mappages_correct:
  fixes va sz pa perm :: u32
  assumes ok: "pt_ok s pgdir ps"
  defines "a \<equiv> PGROUNDDOWN va"
  defines "n \<equiv> page_no (PGROUNDDOWN va) (va + sz - 1)"
  shows "((\<forall>vb. page_no a vb \<le> n \<longrightarrow> mapping s pgdir vb = None) \<longrightarrow>
     (\<exists>m t qs. mappages pgdir va sz pa perm s = Ret (if m = Suc n then 0 else -1) t
       \<and> m \<le> Suc n \<and> pt_ok t pgdir qs \<and> set qs \<subseteq> set ps
       \<and> (m \<le> n \<longrightarrow> qs = [] \<and> length ps \<le> n)
       \<and> (\<forall>vb. mapping t pgdir vb =
            (if page_no a vb < m then Some ((pa + of_nat (4096 * page_no a vb)) OR perm OR PTE_P)
             else mapping s pgdir vb))))
    \<and> (mapping s pgdir va \<noteq> None \<longrightarrow> mappages pgdir va sz pa perm s = Panic ''remap'')"
    (is "(?none \<longrightarrow> ?maps) \<and> _")
proof (intro conjI impI)
  have n: "n < 2 ^ 20"
    using unsigned_less [of "PGROUNDDOWN (va + sz - 1) - PGROUNDDOWN va"] unfolding n_def page_no_def
    by (simp add: div_less_iff_less_mult)
  have e: "mappages pgdir va sz pa perm = mappages_from pgdir n a pa perm"
    by (simp add: mappages_def a_def n_def page_no_def Let_def)
  show ?maps if ?none
    using mappages_from_run [OF ok _ n, of a pa perm] that pgdown_aligned [of va] unfolding e a_def by fastforce
  show "mappages pgdir va sz pa perm s = Panic ''remap''" if m: "mapping s pgdir va \<noteq> None"
  proof -
    have "PGROUNDDOWN a = PGROUNDDOWN va" by (simp add: a_def pgdown_idem pgdown_aligned)
    with m have "mapping s pgdir a \<noteq> None" using same_page [of a va] by (auto simp: mapping_def split: if_splits)
    from map_one_remap [OF ok this] show ?thesis unfolding e by (cases n) simp_all
  qed
qed

definition vm_demo :: kstate where
  "vm_demo = (kstate0 (\<lambda>_ _. []))\<lparr>freelist := 0x80300000\<rparr>"

lemma vm_demo_zero: "load32 (mem vm_demo) a = 0"
proof -
  have "mload (\<lambda>_. 0) a 4 = replicate 4 0" unfolding mload_def by (intro nth_equalityI) simp_all
  then show ?thesis by (simp add: vm_demo_def kstate0_def load32_def get32_zeros)
qed

lemma vm_demo_ok: "pt_ok vm_demo 0x80200000 [0x80300000]" "mapping vm_demo 0x80200000 va = None"
  using vm_demo_zero
  by (simp_all add: pt_ok_def mapping_def pde_of_def present_def free_ok_def pg_ok_def V2P_def)
    (simp_all add: vm_demo_def kstate0_def)

theorem mappages_correct_witness:
  "\<exists>t. mappages 0x80200000 0 4096 0x400000 6 vm_demo = Ret 0 t \<and> mapping t 0x80200000 0xABC = Some 0x400007
     \<and> mapping t 0x80200000 0x1ABC = None"
proof -
  have d: "PGROUNDDOWN 0 = 0" "PGROUNDDOWN 0xFFF = 0" "PGROUNDDOWN 0xABC = 0" "PGROUNDDOWN 0x1ABC = 0x1000"
    by (simp_all add: PGROUNDDOWN_def)
  show ?thesis
    using mappages_correct [OF vm_demo_ok(1), where va = 0 and sz = 4096 and pa = "0x400000" and perm = 6] vm_demo_ok(2)
    by (auto simp: page_no_def d)
qed

end
