(* ===== verification/Vm_Free.thy ===== *)
theory Vm_Free
  imports Vm_Rules
begin

text \<open>
  Freeing user memory: the loops of \<^verbatim>\<open>deallocuvm\<close> and \<^verbatim>\<open>freevm\<close> (\<^verbatim>\<open>vm.c\<close>) end, and the memory given back is exactly
  the memory that was mapped.
\<close>

subsection \<open>The loop of deallocuvm ends\<close>

lemma unat_PDX: "unat (PDX a) = unat a div 0x400000"
proof -
  have m: "(0x3FF :: u32) = mask 10" by (simp add: mask_eq_exp_minus_1)
  have "PDX a = take_bit 10 (drop_bit 22 a)" unfolding PDX_def m by (simp only: take_bit_eq_mask)
  moreover have "unat (drop_bit 22 a) = unat a div 0x400000" by (simp add: drop_bit_eq_div unat_div)
  moreover have "unat a < 2 ^ 32" using unsigned_less [of a] by simp
  ultimately show ?thesis by (simp add: unsigned_take_bit_eq take_bit_nat_eq_self div_less_iff_less_mult)
qed

lemma unat_PGADDR:
  assumes "a < (0x80000000 :: u32)"
  shows "unat (PGADDR (PDX a + 1) 0 0) = (unat a div 0x400000 + 1) * 0x400000"
proof -
  have l: "unat a < 0x80000000" using assms by (simp add: word_less_nat_alt)
  then have "unat (PDX a) < 512" by (simp add: unat_PDX)
  then have "unat (PDX a + 1) = unat (PDX a) + 1" by (simp add: unat_word_ariths)
  moreover from this \<open>unat (PDX a) < 512\<close> have "unat ((PDX a + 1) * 0x400000) = unat (PDX a + 1) * 0x400000"
    by (simp add: unat_word_ariths)
  moreover have "PGADDR (PDX a + 1) 0 0 = (PDX a + 1) * 0x400000" by (simp add: PGADDR_def push_bit_eq_mult)
  ultimately show ?thesis by (simp add: unat_PDX)
qed

lemma next_table:
  assumes "a < (0x80000000 :: u32)"
  shows "a < PGADDR (PDX a + 1) 0 0 - PGSIZE + PGSIZE"
proof -
  have "unat a < (unat a div 0x400000 + 1) * 0x400000"
    using dividend_less_div_times [of "0x400000" "unat a"] by (simp add: algebra_simps)
  then show ?thesis using unat_PGADDR [OF assms] by (simp add: word_less_nat_alt)
qed

lemma next_page:
  assumes "a < (0x80000000 :: u32)"
  shows "a < a + PGSIZE"
proof -
  have l: "unat a < 0x80000000" using assms by (simp add: word_less_nat_alt)
  then show ?thesis by (simp add: word_less_nat_alt unat_word_ariths)
qed

text \<open>A computation that returns with the same locks held, or stops in the panic of \<^verbatim>\<open>kfree\<close>.\<close>

definition ends :: "kstate \<Rightarrow> (chan, kstate, 'a) outcome \<Rightarrow> bool" where
  "ends s r \<longleftrightarrow> (\<exists>x t. r = Ret x t \<and> held t = held s) \<or> r = Panic ''kfree''"

lemma ends_simps [simp]:
  "ends s (Ret x t) \<longleftrightarrow> held t = held s" "ends s (Panic m) \<longleftrightarrow> m = ''kfree''" "\<not> ends s (Sleep c t)" "\<not> ends s (Fault m)"
  by (simp_all add: ends_def)

lemma ends_bind:
  assumes "ends s (f s)" and "\<And>x t. f s = Ret x t \<Longrightarrow> held t = held s \<Longrightarrow> ends t (g x t)"
  shows "ends s (bind f g s)"
  using assms by (cases "f s") (auto simp: ends_def)

lemma kfree_ends: "Lk_kmem \<notin> set (held s) \<Longrightarrow> ends s (kfree v s)"
  by (simp add: kfree_def)

lemma walkpgdir_ends: "\<exists>pte. walkpgdir pgdir a False s = Ret pte s"
  by (simp add: walkpgdir_def)

lemma free_entry_ends:
  assumes "Lk_kmem \<notin> set (held s)"
  shows "ends s (when_do b (bind (panic_if c ''kfree'') (\<lambda>_. bind (kfree v) (\<lambda>_. mem_write32 pte 0))) s)"
  using kfree_ends [OF assms, of v] by (simp add: ends_def) auto

lemma deallocuvm_from_ends:
  assumes "oldsz \<le> 0x80000000" and "Lk_kmem \<notin> set (held s)"
  shows "ends s (deallocuvm_from pgdir oldsz a s)"
  using assms
proof (induction pgdir oldsz a arbitrary: s rule: deallocuvm_from.induct)
  case (1 pgdir oldsz a)
  show ?case
  proof (cases "a < oldsz")
    case True
    then have a: "a < 0x80000000" using "1.prems"(1) by simp
    obtain pte where w: "walkpgdir pgdir a False s = Ret pte s" using walkpgdir_ends by blast
    show ?thesis
    proof (cases "pte = 0")
      case True
      then show ?thesis using "1.IH"(1) [of pte, OF \<open>a < oldsz\<close> True refl next_table [OF a] "1.prems"] w \<open>a < oldsz\<close> next_table [OF a]
        by (subst deallocuvm_from.simps) (simp add: Let_def)
    next
      case False
      let ?e = "load32 (mem s) pte"
      let ?f = "when_do (?e AND PTE_P \<noteq> 0) (bind (panic_if (PTE_ADDR ?e = 0) ''kfree'')
        (\<lambda>_. bind (kfree (P2V (PTE_ADDR ?e))) (\<lambda>_. mem_write32 pte 0)))"
      have "deallocuvm_from pgdir oldsz a s = bind ?f (\<lambda>_. deallocuvm_from pgdir oldsz (a + PGSIZE)) s"
        using w False \<open>a < oldsz\<close> next_page [OF a] by (subst deallocuvm_from.simps) (simp del: when_do_run)
      moreover have "ends s (bind ?f (\<lambda>_. deallocuvm_from pgdir oldsz (a + PGSIZE)) s)"
      proof (rule ends_bind)
        show "ends s (?f s)" by (rule free_entry_ends [OF "1.prems"(2)])
        show "ends t (deallocuvm_from pgdir oldsz (a + PGSIZE) t)" if "held t = held s" for t
          using "1.IH"(2) [OF \<open>a < oldsz\<close> False next_page [OF a] "1.prems"(1), of t] that "1.prems"(2) by simp
      qed
      ultimately show ?thesis by simp
    qed
  next
    case False
    then show ?thesis by (subst deallocuvm_from.simps) simp
  qed
qed

text \<open>
  For sizes up to \<^verbatim>\<open>KERNBASE\<close>, whatever the page tables hold, the loop counter does not wrap around: \<^verbatim>\<open>deallocuvm\<close> returns, or \<^verbatim>\<open>kfree\<close> panics on an
  entry that is not a page of the allocator.
\<close>

lemma deallocuvm_run_ends:
  assumes "oldsz \<le> KERNBASE" and "Lk_kmem \<notin> set (held s)"
  shows "ends s (deallocuvm pgdir oldsz newsz s) \<and> (\<forall>r t. deallocuvm pgdir oldsz newsz s = Ret r t \<longrightarrow> r = min oldsz newsz)"
  using deallocuvm_from_ends [OF assms, of pgdir "PGROUNDUP newsz"]
  by (auto simp: deallocuvm_def ends_def min_def not_le)

subsection \<open>What deallocuvm unmaps\<close>

text \<open>The page directory itself and the limits of memory stay as they are.\<close>

definition same_dir :: "kstate \<Rightarrow> u32 \<Rightarrow> kstate \<Rightarrow> bool" where
  "same_dir s pgdir t \<longleftrightarrow> (\<forall>i<1024. pde_of t pgdir i = pde_of s pgdir i) \<and> kend t = kend s"

lemma same_dir_refl [simp]: "same_dir s pgdir s"
  by (simp add: same_dir_def)

lemma same_dir_trans: "same_dir s pgdir t \<Longrightarrow> same_dir t pgdir u \<Longrightarrow> same_dir s pgdir u"
  by (simp add: same_dir_def)

text \<open>The page of an entry is a page of the allocator that is in use, and not one of the tables.\<close>

definition own :: "kstate \<Rightarrow> u32 \<Rightarrow> u32 list \<Rightarrow> u32 \<Rightarrow> bool" where
  "own s pgdir ps e \<longleftrightarrow> (let q = P2V (PTE_ADDR e) in
     PTE_ADDR e \<noteq> 0 \<and> pg_ok s q \<and> q \<notin> set ps \<and> q \<noteq> pgdir
   \<and> (\<forall>i<1024. present (pde_of s pgdir i) \<longrightarrow> tab_of s pgdir i \<noteq> q))"

text \<open>The user part, below \<open>lim\<close>, maps different pages to different physical pages, all of them in use.\<close>

definition user_ok :: "kstate \<Rightarrow> u32 \<Rightarrow> u32 list \<Rightarrow> u32 \<Rightarrow> bool" where
  "user_ok s pgdir ps lim \<longleftrightarrow> pt_ok s pgdir ps
   \<and> (\<forall>va e. PGROUNDDOWN va < lim \<and> mapping s pgdir va = Some e \<longrightarrow> own s pgdir ps e
      \<and> (\<forall>vb e'. PGROUNDDOWN vb < lim \<and> mapping s pgdir vb = Some e' \<and> PTE_ADDR e' = PTE_ADDR e \<longrightarrow> PGROUNDDOWN vb = PGROUNDDOWN va))"

lemma entry_other_page:
  assumes "\<forall>x. 4096 \<le> unat (x - q) \<longrightarrow> m x = m0 x" and "q mod 4096 = 0" and "p mod 4096 = 0" and "p \<noteq> q" and "i < 1024"
  shows "load32 m (p + of_nat (4 * i)) = load32 m0 (p + of_nat (4 * i))"
proof (rule load32_cong)
  fix k :: nat assume k: "k < 4"
  have "4096 \<le> unat (p + of_nat (4 * i + k) - q)"
    using assms(4,5) k by (intro page_disjoint [OF assms(2,3)]) auto
  then show "m (p + of_nat (4 * i) + of_nat k) = m0 (p + of_nat (4 * i) + of_nat k)"
    using assms(1) by (simp add: add.assoc)
qed

lemma free_page:
  assumes ok: "pt_ok s pgdir ps" and o: "own s pgdir ps e"
  shows "\<exists>t. kfree (P2V (PTE_ADDR e)) s = Ret () t \<and> pt_ok t pgdir (P2V (PTE_ADDR e) # ps) \<and> kend t = kend s
    \<and> (\<forall>i<1024. pde_of t pgdir i = pde_of s pgdir i)
    \<and> (\<forall>i<1024. \<forall>j<1024. present (pde_of s pgdir i) \<longrightarrow> pte_of t pgdir i j = pte_of s pgdir i j)"
proof -
  let ?q = "P2V (PTE_ADDR e)"
  have q: "pg_ok s ?q" "?q \<notin> set ps" "?q \<noteq> pgdir" and tabs: "\<And>i. i < 1024 \<Longrightarrow> present (pde_of s pgdir i) \<Longrightarrow> tab_of s pgdir i \<noteq> ?q"
    using o by (auto simp: own_def Let_def)
  have f: "free_ok s ps" and pg: "pgdir mod 4096 = 0" using ok by (auto simp: pt_ok_def)
  obtain m where r: "kfree ?q s = Ret () (s\<lparr>mem := m, freelist := ?q\<rparr>)" and fo: "free_ok (s\<lparr>mem := m, freelist := ?q\<rparr>) (?q # ps)"
    and m: "\<forall>x. 4096 \<le> unat (x - ?q) \<longrightarrow> m x = mem s x" using kfree_run [OF f q(1,2)] by blast
  have qa: "?q mod 4096 = 0" using q(1) by (simp add: pg_ok_def)
  define t where "t = s\<lparr>mem := m, freelist := ?q\<rparr>"
  have pde: "\<forall>i<1024. pde_of t pgdir i = pde_of s pgdir i"
    using entry_other_page [OF m qa pg] q(3) by (simp add: pde_of_def t_def)
  then have tab: "\<forall>i<1024. tab_of t pgdir i = tab_of s pgdir i" by (simp add: tab_of_def)
  have pte: "\<forall>i<1024. \<forall>j<1024. present (pde_of s pgdir i) \<longrightarrow> pte_of t pgdir i j = pte_of s pgdir i j"
    using entry_other_page [OF m qa tab_of_aligned] tabs tab by (simp add: pte_of_def t_def)
  have "pt_ok t pgdir (?q # ps)"
    using ok fo pde tab tabs q(3) unfolding pt_ok_def t_def [symmetric] by auto
  then show ?thesis using r pde pte by (intro exI [of _ t]) (simp add: t_def)
qed

lemma mapping_cong:
  assumes "\<forall>i<1024. pde_of t pgdir i = pde_of s pgdir i"
    and "\<forall>i<1024. \<forall>j<1024. present (pde_of s pgdir i) \<longrightarrow> pte_of t pgdir i j = pte_of s pgdir i j"
  shows "mapping t pgdir va = mapping s pgdir va"
  using assms by (auto simp: mapping_def)

lemma mapping_clear_pte:
  assumes ok: "pt_ok s pgdir ps" and pr: "present (pde_of s pgdir (pdx va))"
  defines "t \<equiv> s\<lparr>mem := store32 (mem s) (tab_of s pgdir (pdx va) + of_nat (4 * ptx va)) 0\<rparr>"
  shows "mapping t pgdir vb = (if PGROUNDDOWN vb = PGROUNDDOWN va then None else mapping s pgdir vb)"
proof -
  note S = set_pte [OF ok pdx_less pr ptx_less, of va 0, folded t_def]
  show ?thesis
  proof (cases "PGROUNDDOWN vb = PGROUNDDOWN va")
    case True
    then have "pdx vb = pdx va" "ptx vb = ptx va" using same_page [of vb va] by auto
    then show ?thesis using True S(3) by (simp add: mapping_def present_def)
  next
    case False
    then have "(pdx vb, ptx vb) \<noteq> (pdx va, ptx va)" using same_page [of vb va] by auto
    then show ?thesis using False S(2,4) by (auto simp: mapping_def)
  qed
qed

lemma own_cong:
  assumes "own s pgdir ps e" and "\<forall>i<1024. pde_of t pgdir i = pde_of s pgdir i" and "kend t = kend s"
    and "P2V (PTE_ADDR e) \<notin> set qs"
  shows "own t pgdir (qs @ ps) e"
  using assms by (auto simp: own_def Let_def pg_ok_def tab_of_def)

lemma clear_one:
  assumes u: "user_ok s pgdir ps lim" and a: "PGROUNDDOWN a < lim" "mapping s pgdir a = Some e"
  defines "q \<equiv> P2V (PTE_ADDR e)"
  shows "\<exists>t. bind (kfree q) (\<lambda>_. mem_write32 (tab_of s pgdir (pdx a) + of_nat (4 * ptx a)) 0) s = Ret () t
    \<and> user_ok t pgdir (q # ps) lim \<and> same_dir s pgdir t
    \<and> (\<forall>vb. mapping t pgdir vb = (if PGROUNDDOWN vb = PGROUNDDOWN a then None else mapping s pgdir vb))"
proof -
  have ok: "pt_ok s pgdir ps" and o: "own s pgdir ps e" using u a by (auto simp: user_ok_def)
  have pr: "present (pde_of s pgdir (pdx a))" using a(2) by (auto simp: mapping_def split: if_splits)
  obtain t where t: "kfree q s = Ret () t" "pt_ok t pgdir (q # ps)" "kend t = kend s"
    and pde: "\<forall>i<1024. pde_of t pgdir i = pde_of s pgdir i"
    and pte: "\<forall>i<1024. \<forall>j<1024. present (pde_of s pgdir i) \<longrightarrow> pte_of t pgdir i j = pte_of s pgdir i j"
    using free_page [OF ok o] unfolding q_def by blast
  have tab: "tab_of t pgdir (pdx a) = tab_of s pgdir (pdx a)" using pde by (simp add: tab_of_def)
  have pr': "present (pde_of t pgdir (pdx a))" using pr pde by simp
  define v where "v = t\<lparr>mem := store32 (mem t) (tab_of t pgdir (pdx a) + of_nat (4 * ptx a)) 0\<rparr>"
  note S = set_pte [OF t(2) pdx_less pr' ptx_less, of a 0, folded v_def]
  have M: "mapping v pgdir vb = (if PGROUNDDOWN vb = PGROUNDDOWN a then None else mapping s pgdir vb)" for vb
    using mapping_clear_pte [OF t(2) pr', of vb, folded v_def] mapping_cong [OF pde pte] by simp
  have pv: "\<forall>i<1024. pde_of v pgdir i = pde_of s pgdir i" and kv: "kend v = kend s" using S(2) pde t(3) by (simp_all add: v_def)
  have "own v pgdir (q # ps) f \<and> (\<forall>vb f'. PGROUNDDOWN vb < lim \<and> mapping v pgdir vb = Some f' \<and> PTE_ADDR f' = PTE_ADDR f
      \<longrightarrow> PGROUNDDOWN vb = PGROUNDDOWN va)"
    if va: "PGROUNDDOWN va < lim" "mapping v pgdir va = Some f" for va f
  proof -
    have s: "mapping s pgdir va = Some f" "PGROUNDDOWN va \<noteq> PGROUNDDOWN a" using va M by (auto split: if_splits)
    have "PTE_ADDR f \<noteq> PTE_ADDR e" using u a va(1) s unfolding user_ok_def by metis
    then have "P2V (PTE_ADDR f) \<notin> set [q]" by (simp add: q_def P2V_def)
    with u va(1) s(1) have "own v pgdir ([q] @ ps) f" by (intro own_cong [OF _ pv kv]) (auto simp: user_ok_def)
    moreover have "PGROUNDDOWN vb = PGROUNDDOWN va"
      if "PGROUNDDOWN vb < lim" "mapping v pgdir vb = Some f'" "PTE_ADDR f' = PTE_ADDR f" for vb f'
      using that M [of vb] u va(1) s(1) unfolding user_ok_def by (metis option.distinct(1))
    ultimately show ?thesis by simp
  qed
  then have "user_ok v pgdir (q # ps) lim" using S(1) unfolding user_ok_def by blast
  moreover have "bind (kfree q) (\<lambda>_. mem_write32 (tab_of s pgdir (pdx a) + of_nat (4 * ptx a)) 0) s = Ret () v"
    using t(1) by (simp add: v_def tab)
  moreover have "same_dir s pgdir v" using pv kv by (simp add: same_dir_def)
  ultimately show ?thesis using M by blast
qed

text \<open>The physical pages mapped in the pages that start in \<open>[a, lim)\<close>.\<close>

definition mapped_pages :: "kstate \<Rightarrow> u32 \<Rightarrow> u32 \<Rightarrow> u32 \<Rightarrow> u32 set" where
  "mapped_pages s pgdir a lim =
     {P2V (PTE_ADDR e) |va e. a \<le> PGROUNDDOWN va \<and> PGROUNDDOWN va < lim \<and> mapping s pgdir va = Some e}"

definition unmap :: "kstate \<Rightarrow> u32 \<Rightarrow> u32 \<Rightarrow> u32 \<Rightarrow> kstate \<Rightarrow> bool" where
  "unmap s pgdir a lim t \<longleftrightarrow>
     (\<forall>va. mapping t pgdir va = (if a \<le> PGROUNDDOWN va \<and> PGROUNDDOWN va < lim then None else mapping s pgdir va))"

lemma same_table:
  assumes "a < (0x80000000 :: u32)" and "a \<le> PGROUNDDOWN va" and "PGROUNDDOWN va < PGADDR (PDX a + 1) 0 0"
  shows "pdx va = pdx a"
proof -
  have "unat (PGROUNDDOWN va) < (unat a div 0x400000 + 1) * 0x400000" "unat a \<le> unat (PGROUNDDOWN va)"
    using assms unat_PGADDR by (simp_all add: word_less_nat_alt word_le_nat_alt)
  then have "unat (PGROUNDDOWN va) div 0x400000 < unat a div 0x400000 + 1" "unat a div 0x400000 \<le> unat (PGROUNDDOWN va) div 0x400000"
    by (auto simp: div_less_iff_less_mult intro: div_le_mono)
  then have "pdx (PGROUNDDOWN va) = pdx a" by (simp add: pdx_def unat_PDX)
  moreover have "pdx (PGROUNDDOWN va) = pdx va" using same_page [of "PGROUNDDOWN va" va] by (simp add: pgdown_idem pgdown_aligned)
  ultimately show ?thesis by simp
qed

lemma next_page_start:
  assumes "a < (0x80000000 :: u32)" and "a mod 4096 = 0"
  shows "a \<le> PGROUNDDOWN va \<longleftrightarrow> PGROUNDDOWN va = a \<or> a + 4096 \<le> PGROUNDDOWN va"
proof -
  have l: "unat a < 0x80000000" using assms by (simp add: word_less_nat_alt)
  then have s: "unat (a + 4096) = unat a + 4096" by (simp add: unat_word_ariths)
  have "unat a mod 4096 = 0" "unat (PGROUNDDOWN va) mod 4096 = 0"
    using arg_cong [OF assms(2), of unat] arg_cong [OF pgdown_aligned [of va], of unat] by (simp_all add: unat_mod)
  then have "unat a \<le> unat (PGROUNDDOWN va) \<longleftrightarrow> unat (PGROUNDDOWN va) = unat a \<or> unat a + 4096 \<le> unat (PGROUNDDOWN va)"
    by (auto elim!: dvdE simp: dvd_eq_mod_eq_0 [symmetric])
  then show ?thesis by (simp add: word_le_nat_alt s word_unat_eq_iff)
qed

lemma PGADDR_aligned: "a < 0x80000000 \<Longrightarrow> PGADDR (PDX a + 1) 0 0 mod 4096 = 0"
proof -
  assume "a < 0x80000000"
  then have "unat (PGADDR (PDX a + 1) 0 0) mod 4096 = 0" by (simp add: unat_PGADDR mod_mult_right_eq [of _ "0x400000", symmetric])
  then show ?thesis by (simp add: word_unat_eq_iff unat_mod)
qed

lemma unmap_skip:
  assumes "\<And>va. a \<le> PGROUNDDOWN va \<Longrightarrow> PGROUNDDOWN va < b \<Longrightarrow> mapping s pgdir va = None" and "a \<le> b"
  shows "unmap s pgdir b lim t \<Longrightarrow> unmap s pgdir a lim t" and "mapped_pages s pgdir a lim = mapped_pages s pgdir b lim"
proof -
  have c: "b \<le> PGROUNDDOWN va \<or> mapping s pgdir va = None" if "a \<le> PGROUNDDOWN va" for va
    using assms(1) [OF that] by fastforce
  show "unmap s pgdir a lim t" if u: "unmap s pgdir b lim t"
    unfolding unmap_def
  proof
    fix va
    show "mapping t pgdir va = (if a \<le> PGROUNDDOWN va \<and> PGROUNDDOWN va < lim then None else mapping s pgdir va)"
      using u [unfolded unmap_def, rule_format, of va] c [of va] order_trans [OF assms(2), of "PGROUNDDOWN va"] by auto
  qed
  have "b \<le> PGROUNDDOWN va" if "a \<le> PGROUNDDOWN va" "mapping s pgdir va = Some e" for va e using c that by fastforce
  then show "mapped_pages s pgdir a lim = mapped_pages s pgdir b lim"
    unfolding mapped_pages_def using order_trans [OF assms(2)] by blast
qed

lemma unmap_clear:
  assumes a: "a < 0x80000000" "a mod 4096 = 0" "a < lim" and e: "mapping s pgdir a = Some e"
    and m: "\<forall>vb. mapping t pgdir vb = (if PGROUNDDOWN vb = PGROUNDDOWN a then None else mapping s pgdir vb)"
  shows "unmap t pgdir (a + 4096) lim v \<Longrightarrow> unmap s pgdir a lim v"
    and "mapped_pages s pgdir a lim = insert (P2V (PTE_ADDR e)) (mapped_pages t pgdir (a + 4096) lim)"
proof -
  note n = next_page_start [OF a(1,2)]
  have d: "PGROUNDDOWN a = a" using a(2) by (rule pgdown_idem)
  show "unmap s pgdir a lim v" if u: "unmap t pgdir (a + 4096) lim v"
    unfolding unmap_def
  proof
    fix va
    show "mapping v pgdir va = (if a \<le> PGROUNDDOWN va \<and> PGROUNDDOWN va < lim then None else mapping s pgdir va)"
      using u [unfolded unmap_def, rule_format, of va] m d n [of va] a(3) by auto
  qed
  have s: "mapping s pgdir va = Some e" if "PGROUNDDOWN va = a" for va
  proof -
    have "PGROUNDDOWN va = PGROUNDDOWN a" using that d by simp
    then have "pdx va = pdx a" "ptx va = ptx a" using same_page [of va a] by blast+
    then have "mapping s pgdir va = mapping s pgdir a" unfolding mapping_def by simp
    with e show ?thesis by simp
  qed
  have ne: "PGROUNDDOWN va \<noteq> a" if "a + 4096 \<le> PGROUNDDOWN va" for va
    using next_page [OF a(1)] that by auto
  show "mapped_pages s pgdir a lim = insert (P2V (PTE_ADDR e)) (mapped_pages t pgdir (a + 4096) lim)" (is "?L = ?R")
  proof
    have mt: "mapping t pgdir va = mapping s pgdir va" if "a + 4096 \<le> PGROUNDDOWN va" for va
      using m [rule_format, of va] ne [OF that] d by simp
    show "?L \<subseteq> ?R"
    proof
      fix q assume "q \<in> ?L"
      then obtain va f where q: "q = P2V (PTE_ADDR f)" "a \<le> PGROUNDDOWN va" "PGROUNDDOWN va < lim" "mapping s pgdir va = Some f"
        unfolding mapped_pages_def by blast
      from n [of va] q(2) consider "PGROUNDDOWN va = a" | "a + 4096 \<le> PGROUNDDOWN va" by blast
      then show "q \<in> ?R"
      proof cases
        case 1
        then show ?thesis using s [of va] q by simp
      next
        case 2
        then have "q \<in> mapped_pages t pgdir (a + 4096) lim" unfolding mapped_pages_def using q mt [of va] by auto
        then show ?thesis by simp
      qed
    qed
    have "P2V (PTE_ADDR e) \<in> ?L" unfolding mapped_pages_def using e d a(3) by force
    moreover have "mapped_pages t pgdir (a + 4096) lim \<subseteq> ?L"
    proof
      fix q assume "q \<in> mapped_pages t pgdir (a + 4096) lim"
      then obtain va f where "q = P2V (PTE_ADDR f)" "a + 4096 \<le> PGROUNDDOWN va" "PGROUNDDOWN va < lim" "mapping t pgdir va = Some f"
        unfolding mapped_pages_def by blast
      then show "q \<in> ?L" unfolding mapped_pages_def using mt [of va] n [of va] by auto
    qed
    ultimately show "?R \<subseteq> ?L" by simp
  qed
qed

lemma dealloc_step:
  assumes u: "user_ok s pgdir ps lim" and a: "a < lim" "a < 0x80000000" "a mod 4096 = 0" and pr: "present (pde_of s pgdir (pdx a))"
  shows "\<exists>t qs. deallocuvm_from pgdir lim a s = deallocuvm_from pgdir lim (a + 4096) t \<and> user_ok t pgdir (qs @ ps) lim
    \<and> same_dir s pgdir t \<and> (\<forall>v. unmap t pgdir (a + 4096) lim v \<longrightarrow> unmap s pgdir a lim v)
    \<and> mapped_pages s pgdir a lim = set qs \<union> mapped_pages t pgdir (a + 4096) lim"
proof -
  let ?pte = "tab_of s pgdir (pdx a) + of_nat (4 * ptx a)"
  let ?e = "pte_of s pgdir (pdx a) (ptx a)"
  have ok: "pt_ok s pgdir ps" using u by (simp add: user_ok_def)
  note nz = pt_ok_entry [OF ok pr] and w = walkpgdir_present [OF pr, of False]
  have d: "PGROUNDDOWN a = a" using a(3) by (rule pgdown_idem)
  have r: "deallocuvm_from pgdir lim a s =
     bind (when_do (present ?e) (bind (panic_if (PTE_ADDR ?e = 0) ''kfree'')
        (\<lambda>_. bind (kfree (P2V (PTE_ADDR ?e))) (\<lambda>_. mem_write32 ?pte 0)))) (\<lambda>_. deallocuvm_from pgdir lim (a + 4096)) s"
    using w nz a(1) next_page [OF a(2)]
    by (subst deallocuvm_from.simps) (simp add: present_def pte_of_def del: of_nat_mult when_do_run)
  show ?thesis
  proof (cases "present ?e")
    case True
    then have e: "mapping s pgdir a = Some ?e" using pr by (simp add: mapping_def)
    have pa: "PTE_ADDR ?e \<noteq> 0" using u e a(1) d unfolding user_ok_def own_def Let_def by metis
    obtain t where t: "bind (kfree (P2V (PTE_ADDR ?e))) (\<lambda>_. mem_write32 ?pte 0) s = Ret () t"
      and ut: "user_ok t pgdir (P2V (PTE_ADDR ?e) # ps) lim" "same_dir s pgdir t"
      and m: "\<forall>vb. mapping t pgdir vb = (if PGROUNDDOWN vb = PGROUNDDOWN a then None else mapping s pgdir vb)"
      using clear_one [OF u _ e] a(1) d by auto
    have "deallocuvm_from pgdir lim a s = deallocuvm_from pgdir lim (a + 4096) t"
      unfolding r using True pa t by (simp add: bind_run split: outcome.splits)
    then show ?thesis using ut unmap_clear [OF a(2,3,1) e m] by (intro exI [of _ t] exI [of _ "[P2V (PTE_ADDR ?e)]"]) simp
  next
    case False
    have "mapping s pgdir va = None" if "a \<le> PGROUNDDOWN va" "PGROUNDDOWN va < a + 4096" for va
    proof -
      have "PGROUNDDOWN va = PGROUNDDOWN a" using that next_page_start [OF a(2,3), of va] d by auto
      then have "pdx va = pdx a" "ptx va = ptx a" using same_page [of va a] by blast+
      then show ?thesis using False unfolding mapping_def by simp
    qed
    note k = unmap_skip [where a = a and b = "a + 4096" and lim = lim, OF this less_imp_le [OF next_page [OF a(2)]]]
    have "deallocuvm_from pgdir lim a s = deallocuvm_from pgdir lim (a + 4096) s" unfolding r using False by simp
    then show ?thesis using u k by (intro exI [of _ s] exI [of _ "[]"]) simp
  qed
qed

lemma dealloc_skip:
  assumes u: "user_ok s pgdir ps lim" and a: "a < lim" "a < 0x80000000" and pr: "\<not> present (pde_of s pgdir (pdx a))"
  defines "b \<equiv> PGADDR (PDX a + 1) 0 0"
  shows "deallocuvm_from pgdir lim a s = deallocuvm_from pgdir lim b s"
    and "unmap s pgdir b lim v \<Longrightarrow> unmap s pgdir a lim v" and "mapped_pages s pgdir a lim = mapped_pages s pgdir b lim"
proof -
  have l: "a < b" using next_table [OF a(2)] by (simp add: b_def)
  show "deallocuvm_from pgdir lim a s = deallocuvm_from pgdir lim b s"
    using walkpgdir_absent [OF pr] a(1) l by (subst deallocuvm_from.simps) (simp add: Let_def b_def)
  have "mapping s pgdir va = None" if "a \<le> PGROUNDDOWN va" "PGROUNDDOWN va < b" for va
    using same_table [OF a(2) that [unfolded b_def]] pr by (simp add: mapping_def)
  from unmap_skip [where a = a and b = b, OF this less_imp_le [OF l]] show "unmap s pgdir b lim v \<Longrightarrow> unmap s pgdir a lim v"
    and "mapped_pages s pgdir a lim = mapped_pages s pgdir b lim" by simp_all
qed

lemma deallocuvm_from_run:
  assumes "user_ok s pgdir ps lim" and "lim \<le> 0x80000000" and "a mod 4096 = 0"
  shows "\<exists>t qs. deallocuvm_from pgdir lim a s = Ret () t \<and> user_ok t pgdir (qs @ ps) lim \<and> unmap s pgdir a lim t
    \<and> set qs = mapped_pages s pgdir a lim \<and> same_dir s pgdir t"
  using assms
proof (induction "unat lim - unat a" arbitrary: s ps a rule: less_induct)
  case less
  show ?case
  proof (cases "a < lim")
    case False
    then have "deallocuvm_from pgdir lim a s = Ret () s" by (subst deallocuvm_from.simps) simp
    moreover have "unmap s pgdir a lim s" "mapped_pages s pgdir a lim = {}"
      using False by (auto simp: unmap_def mapped_pages_def dest: le_less_trans)
    ultimately show ?thesis using less.prems(1) by (intro exI [of _ s] exI [of _ "[]"]) simp
  next
    case True
    then have a: "a < 0x80000000" using less.prems(2) by simp
    have dec: "unat lim - unat b < unat lim - unat a" if "a < b" for b
      using that True by (simp add: word_less_nat_alt diff_less_mono2)
    show ?thesis
    proof (cases "present (pde_of s pgdir (pdx a))")
      case P: True
      obtain t qs where t: "deallocuvm_from pgdir lim a s = deallocuvm_from pgdir lim (a + 4096) t" "user_ok t pgdir (qs @ ps) lim"
        "same_dir s pgdir t" "\<forall>v. unmap t pgdir (a + 4096) lim v \<longrightarrow> unmap s pgdir a lim v"
        "mapped_pages s pgdir a lim = set qs \<union> mapped_pages t pgdir (a + 4096) lim"
        using dealloc_step [OF less.prems(1) True a less.prems(3) P] by blast
      from less.hyps [OF dec t(2) less.prems(2) aligned_add [OF less.prems(3)], of 4096] next_page [OF a]
      obtain v rs where "deallocuvm_from pgdir lim (a + 4096) t = Ret () v" "user_ok v pgdir (rs @ qs @ ps) lim"
        "unmap t pgdir (a + 4096) lim v" "set rs = mapped_pages t pgdir (a + 4096) lim" "same_dir t pgdir v" by auto
      then show ?thesis using t same_dir_trans [OF t(3)] by (intro exI [of _ v] exI [of _ "rs @ qs"]) auto
    next
      case False
      note k = dealloc_skip [OF less.prems(1) True a False]
      have "a < PGADDR (PDX a + 1) 0 0" using next_table [OF a] by simp
      from less.hyps [OF dec [OF this] less.prems(1,2) PGADDR_aligned [OF a]] k show ?thesis by auto
    qed
  qed
qed

text \<open>
  Property (C5). \<^verbatim>\<open>deallocuvm\<close> gives memory back exactly: it returns the new size, no page that starts from the new size rounded up to
  the old size is mapped any more, every other address is mapped as before, and the pages added to the free list are
  those that were mapped there, each once.
\<close>

theorem deallocuvm_unmaps:
  assumes "user_ok s pgdir ps oldsz" and "oldsz \<le> KERNBASE" and "newsz < oldsz"
  shows "\<exists>t qs. deallocuvm pgdir oldsz newsz s = Ret newsz t \<and> user_ok t pgdir (qs @ ps) oldsz \<and> free_ok t (qs @ ps)
    \<and> set qs = mapped_pages s pgdir (PGROUNDUP newsz) oldsz
    \<and> (\<forall>va. mapping t pgdir va =
         (if PGROUNDUP newsz \<le> PGROUNDDOWN va \<and> PGROUNDDOWN va < oldsz then None else mapping s pgdir va))"
proof -
  have "PGROUNDUP newsz = PGROUNDDOWN (newsz + PGSIZE - 1)" by (simp add: PGROUNDUP_def PGROUNDDOWN_def)
  then have "PGROUNDUP newsz mod 4096 = 0" using pgdown_aligned by simp
  from deallocuvm_from_run [OF assms(1,2) this] obtain t qs where
    t: "deallocuvm_from pgdir oldsz (PGROUNDUP newsz) s = Ret () t" "user_ok t pgdir (qs @ ps) oldsz"
      "unmap s pgdir (PGROUNDUP newsz) oldsz t" "set qs = mapped_pages s pgdir (PGROUNDUP newsz) oldsz" by blast
  have "free_ok t (qs @ ps)" using t(2) by (simp add: user_ok_def pt_ok_def)
  with t assms(3) show ?thesis
    by (intro exI [of _ t] exI [of _ qs]) (simp add: deallocuvm_def unmap_def not_le [symmetric])
qed

text \<open>A page directory that maps the page at 0 to the page at \<open>0x400000\<close>.\<close>

definition dealloc_demo :: kstate where
  "dealloc_demo = (kstate0 (\<lambda>_ _. []))\<lparr>mem := store32 (store32 (\<lambda>_. 0) 0x80200000 0x300007) 0x80300000 0x400007\<rparr>"

lemma load32_zero: "load32 (\<lambda>_. 0) a = 0"
  using vm_demo_zero [of a] by (simp add: vm_demo_def kstate0_def)

lemma dealloc_demo_entries:
  assumes "i < 1024"
  shows "pde_of dealloc_demo 0x80200000 i = (if i = 0 then 0x300007 else 0)"
    and "load32 (mem dealloc_demo) (0x80300000 + of_nat (4 * i)) = (if i = 0 then 0x400007 else 0)"
proof -
  have m: "mem dealloc_demo = store32 (store32 (\<lambda>_. 0) (0x80200000 + of_nat (4 * 0)) 0x300007) (0x80300000 + of_nat (4 * 0)) 0x400007"
    by (simp add: dealloc_demo_def)
  have e: "load32 (mem dealloc_demo) (q + of_nat (4 * i)) =
      (if 0x80300000 = q \<and> 0 = i then 0x400007 else if 0x80200000 = q \<and> 0 = i then 0x300007 else 0)" if "q mod 4096 = 0" for q
  proof -
    have p: "(0x80300000 :: u32) mod 4096 = 0" "(0x80200000 :: u32) mod 4096 = 0" "(0 :: nat) < 1024" by simp_all
    show ?thesis unfolding m entry_update [OF p(1) that p(3) assms] entry_update [OF p(2) that p(3) assms] load32_zero ..
  qed
  show "pde_of dealloc_demo 0x80200000 i = (if i = 0 then 0x300007 else 0)"
    unfolding pde_of_def using e [of "0x80200000"] by (simp del: of_nat_mult)
  show "load32 (mem dealloc_demo) (0x80300000 + of_nat (4 * i)) = (if i = 0 then 0x400007 else 0)"
    using e [of "0x80300000"] by (simp del: of_nat_mult)
qed

lemma dealloc_demo_mapping:
  "mapping dealloc_demo 0x80200000 va = (if PGROUNDDOWN va = 0 then Some 0x400007 else None)"
  "i < 1024 \<Longrightarrow> present (pde_of dealloc_demo 0x80200000 i) \<longleftrightarrow> i = 0" "tab_of dealloc_demo 0x80200000 0 = 0x80300000"
proof -
  have z: "pdx 0 = 0" "ptx 0 = 0" "PGROUNDDOWN 0 = 0" by (simp_all add: pdx_def ptx_def PDX_def PTX_def PGROUNDDOWN_def)
  show p: "i < 1024 \<Longrightarrow> present (pde_of dealloc_demo 0x80200000 i) \<longleftrightarrow> i = 0" for i
    by (simp add: dealloc_demo_entries present_def)
  show t: "tab_of dealloc_demo 0x80200000 0 = 0x80300000" by (simp add: tab_of_def dealloc_demo_entries PTE_ADDR_def P2V_def)
  have "pte_of dealloc_demo 0x80200000 0 j = (if j = 0 then 0x400007 else 0)" if "j < 1024" for j
    unfolding pte_of_def t by (rule dealloc_demo_entries(2) [OF that])
  then have pt: "pte_of dealloc_demo 0x80200000 0 (ptx va) = (if ptx va = 0 then 0x400007 else 0)" by simp
  have "pdx va = 0 \<and> ptx va = 0 \<longleftrightarrow> PGROUNDDOWN va = 0" using same_page [of va 0] z by simp
  then show "mapping dealloc_demo 0x80200000 va = (if PGROUNDDOWN va = 0 then Some 0x400007 else None)"
    using p [OF pdx_less, of va] pt by (cases "pdx va = 0") (auto simp: mapping_def present_def)
qed

lemma dealloc_demo_user_ok: "user_ok dealloc_demo 0x80200000 [] lim"
  by (auto simp: user_ok_def pt_ok_def dealloc_demo_mapping free_ok_def own_def pg_ok_def PTE_ADDR_def P2V_def V2P_def Let_def split: if_splits)
    (simp_all add: dealloc_demo_def kstate0_def)

theorem deallocuvm_unmaps_witness:
  "mapping dealloc_demo 0x80200000 5 = Some 0x400007 \<and>
   (\<exists>t. deallocuvm 0x80200000 4096 0 dealloc_demo = Ret 0 t \<and> mapping t 0x80200000 5 = None)"
proof -
  from deallocuvm_unmaps [OF dealloc_demo_user_ok, of 4096 0] show ?thesis
    by (auto simp: dealloc_demo_mapping PGROUNDDOWN_def PGROUNDUP_def)
qed


subsection \<open>freevm gives everything back\<close>

text \<open>The pages of the page tables for the slots \<open>is\<close> of the directory.\<close>

definition table_pages :: "kstate \<Rightarrow> u32 \<Rightarrow> nat list \<Rightarrow> u32 set" where
  "table_pages s pgdir is = tab_of s pgdir ` {i \<in> set is. present (pde_of s pgdir i)}"

lemma table_pages_cong:
  assumes "same_dir s pgdir t" and "set is \<subseteq> {..<1024}"
  shows "table_pages t pgdir is = table_pages s pgdir is"
proof -
  have "pde_of t pgdir i = pde_of s pgdir i" if "i \<in> set is" for i using assms that by (auto simp: same_dir_def)
  then show ?thesis unfolding table_pages_def tab_of_def by (intro image_cong) auto
qed

text \<open>The tables that are still to be freed are pages of the allocator in use, as the directory is.\<close>

definition tables_ok :: "kstate \<Rightarrow> u32 \<Rightarrow> u32 list \<Rightarrow> nat list \<Rightarrow> bool" where
  "tables_ok s pgdir ps is \<longleftrightarrow> free_ok s ps \<and> pg_ok s pgdir \<and> pgdir \<notin> set ps \<and> distinct is \<and> set is \<subseteq> {..<1024}
   \<and> (\<forall>i\<in>set is. present (pde_of s pgdir i) \<longrightarrow>
        pg_ok s (tab_of s pgdir i) \<and> tab_of s pgdir i \<noteq> pgdir \<and> tab_of s pgdir i \<notin> set ps
      \<and> (\<forall>j\<in>set is. present (pde_of s pgdir j) \<and> tab_of s pgdir i = tab_of s pgdir j \<longrightarrow> i = j))"

lemma free_table_step:
  assumes ok: "tables_ok s pgdir ps (i # is)" and p: "present (pde_of s pgdir i)"
  shows "\<exists>t. kfree (tab_of s pgdir i) s = Ret () t \<and> tables_ok t pgdir (tab_of s pgdir i # ps) is \<and> same_dir s pgdir t"
proof -
  let ?q = "tab_of s pgdir i"
  have q: "pg_ok s ?q" "?q \<noteq> pgdir" "?q \<notin> set ps" and f: "free_ok s ps" and pg: "pg_ok s pgdir"
    using ok p by (simp_all add: tables_ok_def)
  obtain m where r: "kfree ?q s = Ret () (s\<lparr>mem := m, freelist := ?q\<rparr>)"
    and fo: "free_ok (s\<lparr>mem := m, freelist := ?q\<rparr>) (?q # ps)"
    and m: "\<forall>x. 4096 \<le> unat (x - ?q) \<longrightarrow> m x = mem s x" by (rule kfree_run [OF f q(1,3)])
  let ?t = "s\<lparr>mem := m, freelist := ?q\<rparr>"
  have "?q mod 4096 = 0" "pgdir mod 4096 = 0" using q(1) pg by (simp_all add: pg_ok_def)
  from entry_other_page [OF m this q(2) [symmetric]] have pde: "\<forall>j<1024. pde_of ?t pgdir j = pde_of s pgdir j"
    by (simp add: pde_of_def)
  have sub: "j < 1024" if "j \<in> set is" for j using ok that by (auto simp: tables_ok_def)
  have e: "pde_of ?t pgdir j = pde_of s pgdir j" "tab_of ?t pgdir j = tab_of s pgdir j" "pg_ok ?t v = pg_ok s v"
    if "j \<in> set is" for j v
    using pde sub [OF that] by (simp_all add: tab_of_def pg_ok_def)
  have "tab_of s pgdir j \<noteq> ?q" if "j \<in> set is" "present (pde_of s pgdir j)" for j
    using ok p that by (auto simp: tables_ok_def)
  then have "tables_ok ?t pgdir (?q # ps) is"
    using ok fo e q(2) by (auto simp: tables_ok_def pg_ok_def)
  then show ?thesis using r pde by (simp add: same_dir_def)
qed

lemma free_tables_run:
  assumes "tables_ok s pgdir ps is"
  shows "\<exists>t qs. free_tables pgdir is s = Ret () t \<and> tables_ok t pgdir (qs @ ps) [] \<and> set qs = table_pages s pgdir is"
  using assms
proof (induction "is" arbitrary: s ps)
  case Nil
  then show ?case by (intro exI [of _ s] exI [of _ "[]"]) (simp add: table_pages_def)
next
  case (Cons i "is")
  have en: "load32 (mem s) (pgdir + 4 * of_nat i) = pde_of s pgdir i" by (simp add: pde_of_def)
  show ?case
  proof (cases "present (pde_of s pgdir i)")
    case True
    obtain t where t: "kfree (tab_of s pgdir i) s = Ret () t" "tables_ok t pgdir (tab_of s pgdir i # ps) is" "same_dir s pgdir t"
      using free_table_step [OF Cons.prems True] by blast
    have run: "free_tables pgdir (i # is) s = free_tables pgdir is t"
      using True t(1) by (simp add: en present_def tab_of_def)
    have "table_pages t pgdir is = table_pages s pgdir is"
      by (rule table_pages_cong [OF t(3)]) (use Cons.prems in \<open>simp add: tables_ok_def\<close>)
    moreover have "table_pages s pgdir (i # is) = insert (tab_of s pgdir i) (table_pages s pgdir is)"
      using True by (auto simp: table_pages_def)
    moreover obtain u qs where "free_tables pgdir is t = Ret () u" "tables_ok u pgdir (qs @ tab_of s pgdir i # ps) []"
      "set qs = table_pages t pgdir is" using Cons.IH [OF t(2)] by blast
    ultimately show ?thesis unfolding run by (intro exI [of _ u] exI [of _ "qs @ [tab_of s pgdir i]"]) simp
  next
    case False
    then have "free_tables pgdir (i # is) s = free_tables pgdir is s" by (simp add: en present_def)
    moreover have "table_pages s pgdir (i # is) = table_pages s pgdir is" using False by (auto simp: table_pages_def)
    moreover have "tables_ok s pgdir ps is" using Cons.prems by (auto simp: tables_ok_def)
    ultimately show ?thesis using Cons.IH by simp
  qed
qed

text \<open>
  Property (C15). Freeing an address space ends and gives back every page once: for a well-formed directory \<^verbatim>\<open>freevm\<close> returns, its loops over
  the user addresses up to \<^verbatim>\<open>KERNBASE\<close> and over the directory included, and the pages it adds to the free list are the pages mapped for the user, the pages of all
  page tables and the page of the directory. (The free list holds no page twice.)
\<close>

theorem freevm_ends:
  assumes u: "user_ok s pgdir ps KERNBASE" and d: "pg_ok s pgdir"
    and tabs: "\<forall>i<1024. present (pde_of s pgdir i) \<longrightarrow> pg_ok s (tab_of s pgdir i)"
  shows "\<exists>t qs. freevm pgdir s = Ret () t \<and> free_ok t (qs @ ps)
    \<and> set qs = mapped_pages s pgdir 0 KERNBASE \<union> table_pages s pgdir [0..<1024] \<union> {pgdir}"
proof -
  have "PGROUNDUP 0 = 0" by (simp add: PGROUNDUP_def)
  then obtain t qs where t: "deallocuvm pgdir KERNBASE 0 s = Ret 0 t" "user_ok t pgdir (qs @ ps) KERNBASE"
    "set qs = mapped_pages s pgdir 0 KERNBASE" "same_dir s pgdir t"
    using deallocuvm_from_run [OF u order_refl, of 0] by (auto simp: deallocuvm_def)
  have e: "pde_of t pgdir i = pde_of s pgdir i" "tab_of t pgdir i = tab_of s pgdir i" if "i < 1024" for i
    using t(4) that by (simp_all add: same_dir_def tab_of_def)
  have k: "pg_ok t v = pg_ok s v" for v using t(4) by (simp add: same_dir_def pg_ok_def)
  have "tables_ok t pgdir (qs @ ps) [0..<1024]"
    using t(2) d tabs e k unfolding user_ok_def pt_ok_def tables_ok_def by (auto simp: atLeast0LessThan)
  from free_tables_run [OF this] obtain v rs where v: "free_tables pgdir [0..<1024] t = Ret () v"
    "tables_ok v pgdir (rs @ qs @ ps) []" "set rs = table_pages t pgdir [0..<1024]" by blast
  have "table_pages t pgdir [0..<1024] = table_pages s pgdir [0..<1024]" by (rule table_pages_cong [OF t(4)]) auto
  moreover obtain m where "kfree pgdir v = Ret () (v\<lparr>mem := m, freelist := pgdir\<rparr>)"
    "free_ok (v\<lparr>mem := m, freelist := pgdir\<rparr>) (pgdir # rs @ qs @ ps)"
    using v(2) kfree_run [of v "rs @ qs @ ps" pgdir] by (auto simp: tables_ok_def)
  moreover have "pgdir \<noteq> 0" using d by (simp add: pg_ok_def)
  ultimately show ?thesis using t v
    by (intro exI [of _ "v\<lparr>mem := m, freelist := pgdir\<rparr>"] exI [of _ "pgdir # rs @ qs"]) (auto simp: freevm_def)
qed

theorem freevm_ends_witness:
  "\<exists>t ps. freevm 0x80200000 dealloc_demo = Ret () t \<and> free_ok t ps \<and> set ps = {0x80200000, 0x80300000, 0x80400000}"
proof -
  have pg: "pg_ok dealloc_demo v" if "v \<in> {0x80200000, 0x80300000}" for v
    using that by (auto simp: pg_ok_def V2P_def dealloc_demo_def kstate0_def)
  have "table_pages dealloc_demo 0x80200000 [0..<1024] = {0x80300000}"
    using dealloc_demo_mapping(2,3) by (auto simp: table_pages_def)
  moreover have "mapped_pages dealloc_demo 0x80200000 0 KERNBASE = {0x80400000}"
  proof -
    have "PGROUNDDOWN 0 = 0" by (simp add: PGROUNDDOWN_def)
    then have "\<exists>va. PGROUNDDOWN va = 0" by blast
    then show ?thesis by (auto simp: mapped_pages_def dealloc_demo_mapping PTE_ADDR_def P2V_def split: if_splits)
  qed
  moreover have "\<forall>i<1024. present (pde_of dealloc_demo 0x80200000 i) \<longrightarrow> pg_ok dealloc_demo (tab_of dealloc_demo 0x80200000 i)"
    using dealloc_demo_mapping(2,3) pg by auto
  ultimately show ?thesis using freevm_ends [OF dealloc_demo_user_ok pg [of "0x80200000"]] by auto
qed

end
