(* ===== verification/Spinlock.thy ===== *)
theory Spinlock
  imports Kalloc
begin

text \<open>
  Spin locks on several CPUs (\<^verbatim>\<open>spinlock.c\<close>). Here \<^verbatim>\<open>acquire\<close> and \<^verbatim>\<open>release\<close> are taken apart into their steps on the
  shared lock, and the CPUs interleave; each CPU has its interrupt flag and its \<^verbatim>\<open>pushcli\<close> nesting.
  The names \<open>spin_acquire\<close> and \<open>spin_release\<close> with a suffix are the parts of the two functions.
\<close>

subsection \<open>Interrupts\<close>

record cpu_t =
  ncli :: int
  intena :: bool
  fl_if :: bool

definition pushcli :: "cpu_t \<Rightarrow> cpu_t" where
  "pushcli c =
     (let eflags = fl_if c;
          c = c\<lparr>fl_if := False\<rparr>;
          c = (if ncli c = 0 then c\<lparr>intena := eflags\<rparr> else c)
      in c\<lparr>ncli := ncli c + 1\<rparr>)"

definition popcli :: "cpu_t \<Rightarrow> string + cpu_t" where
  "popcli c =
     (if fl_if c then Inl ''popcli - interruptible''
      else
        let c = c\<lparr>ncli := ncli c - 1\<rparr> in
        if ncli c < 0 then Inl ''popcli''
        else Inr (if ncli c = 0 \<and> intena c then c\<lparr>fl_if := True\<rparr> else c))"

subsection \<open>The lock\<close>

record spinlock_t =
  lk_locked :: u32
  lk_cpu :: "nat option"

definition initlock :: "spinlock_t \<Rightarrow> spinlock_t" where
  "initlock l = l\<lparr>lk_locked := 0, lk_cpu := None\<rparr>"

text \<open>Whether CPU \<open>i\<close>, in state \<open>c\<close>, holds the lock, and its state afterwards.\<close>

definition holding :: "spinlock_t \<Rightarrow> nat \<Rightarrow> cpu_t \<Rightarrow> string + (bool \<times> cpu_t)" where
  "holding l i c =
     (case popcli (pushcli c) of
        Inl e \<Rightarrow> Inl e
      | Inr c' \<Rightarrow> Inr (lk_locked l \<noteq> 0 \<and> lk_cpu l = Some i, c'))"

definition xchg :: "spinlock_t \<Rightarrow> u32 \<Rightarrow> u32 \<times> spinlock_t" where
  "xchg l v = (lk_locked l, l\<lparr>lk_locked := v\<rparr>)"

text \<open>The call stack recorded with a lock: at most \<open>n\<close> frames from the frame pointer \<open>ebp\<close> on, then zeros.\<close>

primrec pcs_from :: "(u32 \<Rightarrow> u8) \<Rightarrow> nat \<Rightarrow> u32 \<Rightarrow> u32 list" where
  "pcs_from m 0 ebp = []"
| "pcs_from m (Suc n) ebp =
     (if ebp = 0 \<or> ebp < KERNBASE \<or> ebp = 0xFFFFFFFF then replicate (Suc n) 0
      else load32 m (ebp + 4) # pcs_from m n (load32 m ebp))"

definition getcallerpcs :: "(u32 \<Rightarrow> u8) \<Rightarrow> u32 \<Rightarrow> u32 list" where
  "getcallerpcs m v = pcs_from m 10 (v - 8)"

subsection \<open>Steps of a CPU\<close>

datatype lpc = Outside | Spinning | Taken | Critical | Leaving | Panicked string

record smp =
  smp_lk :: spinlock_t
  smp_cpu :: "nat \<Rightarrow> cpu_t"
  smp_pc :: "nat \<Rightarrow> lpc"

definition goto :: "nat \<Rightarrow> lpc \<Rightarrow> smp \<Rightarrow> smp" where
  "goto i p m = m\<lparr>smp_pc := (smp_pc m)(i := p)\<rparr>"

definition set_cpu :: "nat \<Rightarrow> cpu_t \<Rightarrow> smp \<Rightarrow> smp" where
  "set_cpu i c m = m\<lparr>smp_cpu := (smp_cpu m)(i := c)\<rparr>"

definition spin_acquire_begin :: "nat \<Rightarrow> smp \<Rightarrow> smp" where
  "spin_acquire_begin i m =
     (case holding (smp_lk m) i (pushcli (smp_cpu m i)) of
        Inl e \<Rightarrow> goto i (Panicked e) m
      | Inr (h, c) \<Rightarrow> goto i (if h then Panicked ''acquire'' else Spinning) (set_cpu i c m))"

definition spin_acquire_try :: "nat \<Rightarrow> smp \<Rightarrow> smp" where
  "spin_acquire_try i m =
     (case xchg (smp_lk m) 1 of
        (old, l) \<Rightarrow> goto i (if old \<noteq> 0 then Spinning else Taken) (m\<lparr>smp_lk := l\<rparr>))"

definition spin_acquire_end :: "nat \<Rightarrow> smp \<Rightarrow> smp" where
  "spin_acquire_end i m = goto i Critical (m\<lparr>smp_lk := (smp_lk m)\<lparr>lk_cpu := Some i\<rparr>\<rparr>)"

definition spin_release_begin :: "nat \<Rightarrow> smp \<Rightarrow> smp" where
  "spin_release_begin i m =
     (case holding (smp_lk m) i (smp_cpu m i) of
        Inl e \<Rightarrow> goto i (Panicked e) m
      | Inr (h, c) \<Rightarrow>
          if \<not> h then goto i (Panicked ''release'') (set_cpu i c m)
          else goto i Leaving (set_cpu i c (m\<lparr>smp_lk := (smp_lk m)\<lparr>lk_cpu := None\<rparr>\<rparr>)))"

definition spin_release_end :: "nat \<Rightarrow> smp \<Rightarrow> smp" where
  "spin_release_end i m =
     (let m = m\<lparr>smp_lk := (smp_lk m)\<lparr>lk_locked := 0\<rparr>\<rparr> in
      case popcli (smp_cpu m i) of
        Inl e \<Rightarrow> goto i (Panicked e) m
      | Inr c \<Rightarrow> goto i Outside (set_cpu i c m))"

text \<open>
  Between its calls a CPU may do what it likes with its own interrupt state, as long as it keeps
  \<^verbatim>\<open>pushcli\<close> and \<^verbatim>\<open>popcli\<close> matched; inside the critical section the nesting stays at least 1.
\<close>

definition cpu_ok :: "cpu_t \<Rightarrow> bool" where
  "cpu_ok c \<longleftrightarrow> 0 \<le> ncli c \<and> (0 < ncli c \<longrightarrow> \<not> fl_if c)"

inductive smp_step :: "smp \<Rightarrow> smp \<Rightarrow> bool" where
  acquire_begin: "smp_pc m i = Outside \<Longrightarrow> smp_step m (spin_acquire_begin i m)"
| acquire_try: "smp_pc m i = Spinning \<Longrightarrow> smp_step m (spin_acquire_try i m)"
| acquire_end: "smp_pc m i = Taken \<Longrightarrow> smp_step m (spin_acquire_end i m)"
| release_begin: "smp_pc m i = Critical \<Longrightarrow> smp_step m (spin_release_begin i m)"
| release_end: "smp_pc m i = Leaving \<Longrightarrow> smp_step m (spin_release_end i m)"
| outside: "smp_pc m i = Outside \<Longrightarrow> cpu_ok c \<Longrightarrow> smp_step m (set_cpu i c m)"
| critical: "smp_pc m i = Critical \<Longrightarrow> cpu_ok c \<Longrightarrow> 1 \<le> ncli c \<Longrightarrow> smp_step m (set_cpu i c m)"

subsection \<open>Mutual exclusion\<close>

definition owner :: "lpc \<Rightarrow> bool" where
  "owner p \<longleftrightarrow> p = Taken \<or> p = Critical \<or> p = Leaving"

text \<open>The invariant, with the CPU \<open>w\<close> that has the lock, if there is one.\<close>

definition smp_ok :: "nat option \<Rightarrow> smp \<Rightarrow> bool" where
  "smp_ok w m \<longleftrightarrow>
     (\<forall>i. cpu_ok (smp_cpu m i) \<and> (\<forall>e. smp_pc m i \<noteq> Panicked e) \<and> (smp_pc m i \<noteq> Outside \<longrightarrow> 1 \<le> ncli (smp_cpu m i)))
   \<and> (\<forall>i. owner (smp_pc m i) \<longleftrightarrow> w = Some i)
   \<and> (lk_locked (smp_lk m) = 0 \<longleftrightarrow> w = None)
   \<and> (\<forall>i. lk_cpu (smp_lk m) = Some i \<longleftrightarrow> smp_pc m i = Critical)"

lemma owner_simps [simp]:
  "\<not> owner Outside" "\<not> owner Spinning" "owner Taken" "owner Critical" "owner Leaving" "\<not> owner (Panicked e)"
  by (simp_all add: owner_def)

lemma pushcli_ok: "cpu_ok c \<Longrightarrow> cpu_ok (pushcli c) \<and> 1 \<le> ncli (pushcli c) \<and> \<not> fl_if (pushcli c)"
  by (simp add: cpu_ok_def pushcli_def Let_def)

lemma popcli_ok: "cpu_ok c \<Longrightarrow> 1 \<le> ncli c \<Longrightarrow> \<exists>d. popcli c = Inr d \<and> cpu_ok d \<and> ncli d = ncli c - 1"
  by (auto simp: cpu_ok_def popcli_def Let_def)

lemma holding_ok:
  assumes "cpu_ok c"
  shows "\<exists>d. holding l i c = Inr (lk_locked l \<noteq> 0 \<and> lk_cpu l = Some i, d) \<and> cpu_ok d \<and> ncli d = ncli c"
proof -
  obtain d where "popcli (pushcli c) = Inr d" "cpu_ok d" "ncli d = ncli (pushcli c) - 1"
    using popcli_ok [of "pushcli c"] pushcli_ok [OF assms] by blast
  moreover have "ncli (pushcli c) = ncli c + 1" by (simp add: pushcli_def Let_def)
  ultimately show ?thesis by (simp add: holding_def)
qed

lemma smp_okD:
  assumes "smp_ok w m"
  shows "cpu_ok (smp_cpu m i)" and "smp_pc m i \<noteq> Panicked e" and "smp_pc m i \<noteq> Outside \<Longrightarrow> 1 \<le> ncli (smp_cpu m i)"
    and "owner (smp_pc m i) \<longleftrightarrow> w = Some i" and "lk_locked (smp_lk m) = 0 \<longleftrightarrow> w = None"
    and "lk_cpu (smp_lk m) = Some i \<longleftrightarrow> smp_pc m i = Critical"
  using assms by (auto simp: smp_ok_def)

lemma smp_ok_upd:
  assumes "smp_ok w m" and "cpu_ok c" and "\<And>e. p \<noteq> Panicked e" and "p \<noteq> Outside \<Longrightarrow> 1 \<le> ncli c"
    and "\<And>j. j \<noteq> i \<Longrightarrow> w' = Some j \<longleftrightarrow> w = Some j" and "owner p \<longleftrightarrow> w' = Some i"
    and "lk_locked l = 0 \<longleftrightarrow> w' = None"
    and "\<And>j. lk_cpu l = Some j \<longleftrightarrow> (if j = i then p = Critical else smp_pc m j = Critical)"
  shows "smp_ok w' (goto i p (set_cpu i c (m\<lparr>smp_lk := l\<rparr>)))"
  using assms unfolding smp_ok_def goto_def set_cpu_def by simp

lemma goto_lk: "goto i p (m\<lparr>smp_lk := l\<rparr>) = goto i p (set_cpu i (smp_cpu m i) (m\<lparr>smp_lk := l\<rparr>))"
  by (simp add: goto_def set_cpu_def)

lemma lk_same: "m\<lparr>smp_lk := smp_lk m\<rparr> = m"
  by simp

lemma spin_acquire_begin_ok:
  assumes "smp_ok w m" and "smp_pc m i = Outside"
  shows "smp_ok w (spin_acquire_begin i m)"
proof -
  note D = smp_okD [OF assms(1)]
  have p: "cpu_ok (pushcli (smp_cpu m i))" "1 \<le> ncli (pushcli (smp_cpu m i))" using D(1) pushcli_ok by auto
  have nc: "lk_cpu (smp_lk m) \<noteq> Some i" using D(6) [of i] assms(2) by simp
  have nw: "w \<noteq> Some i" using D(4) [of i] assms(2) by simp
  obtain d where d: "holding (smp_lk m) i (pushcli (smp_cpu m i)) = Inr (False, d)" "cpu_ok d" "1 \<le> ncli d"
    using holding_ok [OF p(1), of "smp_lk m" i] p(2) nc by auto
  have "smp_ok w (goto i Spinning (set_cpu i d (m\<lparr>smp_lk := smp_lk m\<rparr>)))"
    by (rule smp_ok_upd [OF assms(1)]) (use d nw nc D(5,6) in simp_all)
  then show ?thesis using d by (simp add: spin_acquire_begin_def lk_same)
qed

lemma spin_acquire_try_ok:
  assumes "smp_ok w m" and "smp_pc m i = Spinning"
  shows "smp_ok (if w = None then Some i else w) (spin_acquire_try i m)"
proof -
  note D = smp_okD [OF assms(1)]
  have nw: "w \<noteq> Some i" using D(4) [of i] assms(2) by simp
  show ?thesis unfolding spin_acquire_try_def xchg_def prod.case goto_lk
    by (rule smp_ok_upd [OF assms(1)]) (use nw assms(2) D(1,3,5) D(6) in auto)
qed

lemma spin_acquire_end_ok:
  assumes "smp_ok w m" and "smp_pc m i = Taken"
  shows "smp_ok w (spin_acquire_end i m)"
proof -
  note D = smp_okD [OF assms(1)]
  have w: "w = Some i" using D(4) [of i] assms(2) by simp
  have "smp_pc m j \<noteq> Critical" if "j \<noteq> i" for j using D(4) [of j] that w by (auto simp: owner_def)
  then show ?thesis unfolding spin_acquire_end_def goto_lk
    by (intro smp_ok_upd [OF assms(1)]) (use w assms(2) D(1,3,5) in auto)
qed

lemma spin_release_begin_ok:
  assumes "smp_ok w m" and "smp_pc m i = Critical"
  shows "smp_ok w (spin_release_begin i m)"
proof -
  note D = smp_okD [OF assms(1)]
  have w: "w = Some i" using D(4) [of i] assms(2) by simp
  have o: "smp_pc m j \<noteq> Critical" if "j \<noteq> i" for j using D(4) [of j] that w by (auto simp: owner_def)
  have l: "lk_locked (smp_lk m) \<noteq> 0" "lk_cpu (smp_lk m) = Some i" using D(5) D(6) [of i] w assms(2) by simp_all
  obtain d where d: "holding (smp_lk m) i (smp_cpu m i) = Inr (True, d)" "cpu_ok d" "1 \<le> ncli d"
    using holding_ok [OF D(1), of "smp_lk m" i i] D(3) [of i] l assms(2) by auto
  have "smp_ok w (goto i Leaving (set_cpu i d (m\<lparr>smp_lk := (smp_lk m)\<lparr>lk_cpu := None\<rparr>\<rparr>)))"
    by (rule smp_ok_upd [OF assms(1)]) (use d w l o in auto)
  then show ?thesis using d by (simp add: spin_release_begin_def)
qed

lemma spin_release_end_ok:
  assumes "smp_ok w m" and "smp_pc m i = Leaving"
  shows "smp_ok None (spin_release_end i m)"
proof -
  note D = smp_okD [OF assms(1)]
  have w: "w = Some i" using D(4) [of i] assms(2) by simp
  obtain d where d: "popcli (smp_cpu m i) = Inr d" "cpu_ok d" using popcli_ok [OF D(1) D(3), of i] assms(2) by auto
  have "smp_pc m j \<noteq> Critical" for j using D(4) [of j] assms(2) w by (cases "j = i") (auto simp: owner_def)
  then have "smp_ok None (goto i Outside (set_cpu i d (m\<lparr>smp_lk := (smp_lk m)\<lparr>lk_locked := 0\<rparr>\<rparr>)))"
    by (intro smp_ok_upd [OF assms(1)]) (use d w D(6) in auto)
  then show ?thesis using d by (simp add: spin_release_end_def)
qed

lemma set_cpu_ok:
  assumes "smp_ok w m" and "cpu_ok c" and "smp_pc m i \<noteq> Outside \<Longrightarrow> 1 \<le> ncli c"
  shows "smp_ok w (set_cpu i c m)"
  using assms unfolding smp_ok_def set_cpu_def by simp

lemma smp_step_ok: "smp_step m n \<Longrightarrow> \<exists>w. smp_ok w m \<Longrightarrow> \<exists>w. smp_ok w n"
  by (induction rule: smp_step.induct)
    (blast intro: spin_acquire_begin_ok spin_acquire_try_ok spin_acquire_end_ok spin_release_begin_ok spin_release_end_ok
      set_cpu_ok)+

text \<open>
  Property (C3). A spin lock excludes: in every interleaving of any number of CPUs, at most one is between
  \<^verbatim>\<open>acquire\<close> and \<^verbatim>\<open>release\<close>, and it runs with interrupts off. None of the panics of \<^verbatim>\<open>acquire\<close>, \<^verbatim>\<open>release\<close>,
  \<^verbatim>\<open>pushcli\<close> and \<^verbatim>\<open>popcli\<close> is reached, and a CPU that tries a free lock gets it.
\<close>

theorem spinlock_mutual_exclusion:
  assumes "smp_step\<^sup>*\<^sup>* m n" and "\<forall>i. smp_pc m i = Outside \<and> cpu_ok (smp_cpu m i)" and "smp_lk m = initlock l"
  shows "(\<forall>i j. smp_pc n i = Critical \<and> smp_pc n j = Critical \<longrightarrow> i = j)
   \<and> (\<forall>i. smp_pc n i = Critical \<longrightarrow> \<not> fl_if (smp_cpu n i))
   \<and> (\<forall>i e. smp_pc n i \<noteq> Panicked e)
   \<and> (\<forall>i. smp_pc n i = Spinning \<and> (\<forall>j. \<not> owner (smp_pc n j)) \<longrightarrow> smp_pc (spin_acquire_try i n) i = Taken)"
proof -
  have "smp_ok None m" using assms(2,3) by (simp add: smp_ok_def initlock_def)
  with assms(1) have "\<exists>w. smp_ok w n" by induction (auto dest: smp_step_ok)
  then obtain w where ok: "smp_ok w n" by blast
  note D = smp_okD [OF ok]
  have "smp_pc (spin_acquire_try i n) i = Taken" if "\<forall>j. \<not> owner (smp_pc n j)" for i
  proof -
    have "w = None" using that D(4) by (cases w) auto
    then show ?thesis using D(5) by (simp add: spin_acquire_try_def xchg_def goto_def)
  qed
  moreover have "\<not> fl_if (smp_cpu n i)" if "smp_pc n i = Critical" for i
    using that D(1) [of i] D(3) [of i] by (simp add: cpu_ok_def)
  moreover have "i = j" if "smp_pc n i = Critical" "smp_pc n j = Critical" for i j
    using that D(4) [of i] D(4) [of j] by simp
  ultimately show ?thesis using D(2) by blast
qed

definition smp_demo :: smp where
  "smp_demo = \<lparr>smp_lk = initlock \<lparr>lk_locked = 7, lk_cpu = None\<rparr>,
     smp_cpu = (\<lambda>_. \<lparr>ncli = 0, intena = False, fl_if = True\<rparr>), smp_pc = (\<lambda>_. Outside)\<rparr>"

theorem spinlock_mutual_exclusion_witness:
  "smp_pc (spin_acquire_end 1 (spin_acquire_try 1 (spin_acquire_begin 1 smp_demo))) 1 = Critical
   \<and> \<not> fl_if (smp_cpu (spin_acquire_end 1 (spin_acquire_try 1 (spin_acquire_begin 1 smp_demo))) 1)"
proof -
  let ?a = "spin_acquire_begin 1 smp_demo"
  let ?b = "spin_acquire_try 1 ?a"
  note d = spin_acquire_begin_def spin_acquire_try_def spin_acquire_end_def goto_def set_cpu_def holding_def pushcli_def
    popcli_def xchg_def initlock_def smp_demo_def Let_def
  have pc: "smp_pc smp_demo 1 = Outside" "smp_pc ?a 1 = Spinning" "smp_pc ?b 1 = Taken"
    "smp_pc (spin_acquire_end 1 ?b) 1 = Critical" by (simp_all add: d)
  have "smp_step\<^sup>*\<^sup>* smp_demo (spin_acquire_end 1 ?b)"
    using pc by (meson acquire_begin acquire_try acquire_end rtranclp.rtrancl_into_rtrancl rtranclp.rtrancl_refl)
  from spinlock_mutual_exclusion [OF this] pc show ?thesis by (auto simp: smp_demo_def cpu_ok_def)
qed

end
