(* ===== verification/Pipe_Queue.thy ===== *)
theory Pipe_Queue
  imports Pipe
begin

text \<open>
  Pipes as queues: the bytes between the two counters of a pipe are a queue of at most 512 bytes,
  \<^verbatim>\<open>pipewrite\<close> and \<^verbatim>\<open>piperead\<close> are its operations, and a writer and a reader that sleep and wake each
  other through it transfer every byte once, in order, and come to an end.
\<close>

subsection \<open>The queue in a pipe\<close>

definition pq :: "pipe_t \<Rightarrow> u8 list" where
  "pq q = ring_list 512 (pi_data q) (pi_nread q) (pi_nwrite q)"

definition put1 :: "u8 \<Rightarrow> pipe_t \<Rightarrow> pipe_t" where
  "put1 c q = q\<lparr>pi_data := (pi_data q)(unat (pi_nwrite q) mod PIPESIZE := c), pi_nwrite := pi_nwrite q + 1\<rparr>"

definition setp :: "nat \<Rightarrow> pipe_t \<Rightarrow> kstate \<Rightarrow> kstate" where
  "setp p q s = s\<lparr>pipes := (pipes s)(p := q)\<rparr>"

lemma setp_simps [simp]:
  "pipes (setp p q s) p = q" "setp p q (setp p q' s) = setp p q s" "setp p (pipes s p) s = s"
  "held (setp p q s) = held s" "curproc (setp p q s) = curproc s" "ptable (setp p q s) = ptable s"
  by (simp_all add: setp_def)

abbreviation parked :: "chan \<Rightarrow> kstate \<Rightarrow> kstate" where
  "parked c s \<equiv> s\<lparr>ptable := (ptable s)(curproc s := (ptable s (curproc s))\<lparr>p_chan := Some c, p_state := SLEEPING\<rparr>), held := []\<rparr>"

lemma length_pq: "length (pq q) = unat (pi_nwrite q - pi_nread q)"
  by (simp add: pq_def)

lemma pq_full:
  assumes "length (pq q) \<le> 512"
  shows "pi_nwrite q = pi_nread q + 512 \<longleftrightarrow> length (pq q) = 512"
proof
  assume "length (pq q) = 512"
  then have "pi_nwrite q - pi_nread q = 512" by (simp add: length_pq word_unat_eq_iff)
  then show "pi_nwrite q = pi_nread q + 512" by (simp add: algebra_simps)
qed (simp add: length_pq)

lemma pq_put1: "length (pq q) < 512 \<Longrightarrow> pq (put1 c q) = pq q @ [c]"
  unfolding pq_def put1_def by (simp add: pipe_ring.list_put)

lemma put1_fields [simp]:
  "pi_nread (fold put1 bs q) = pi_nread q" "pi_readopen (fold put1 bs q) = pi_readopen q"
  "pi_writeopen (fold put1 bs q) = pi_writeopen q"
  by (induction bs arbitrary: q) (simp_all add: put1_def)

lemma pq_put: "length (pq q) + length bs \<le> 512 \<Longrightarrow> pq (fold put1 bs q) = pq q @ bs"
proof (induction bs arbitrary: q)
  case (Cons c bs)
  then have "pq (put1 c q) = pq q @ [c]" by (intro pq_put1) simp
  with Cons show ?case by simp
qed simp

lemma pq_get:
  assumes "pi_nread q \<noteq> pi_nwrite q"
  shows "pq q = pi_data q (unat (pi_nread q) mod 512) # pq (q\<lparr>pi_nread := pi_nread q + 1\<rparr>)"
  using ring_list_get [OF assms] by (simp add: pq_def)

lemma pq_Nil: "pq q = [] \<longleftrightarrow> pi_nread q = pi_nwrite q"
  by (simp add: pq_def ring_list_Nil_iff)

subsection \<open>What the operations do to it\<close>

lemma pipewrite_loop_run:
  assumes "length (pq (pipes s p)) \<le> 512" and "held s = [Lk_pipe p]"
  shows "pipewrite_loop p bs s =
    (let q = pipes s p; k = 512 - length (pq q) in
     if length bs \<le> k then Ret True (setp p (fold put1 bs q) s)
     else if \<not> pi_readopen q \<or> p_killed (ptable s (curproc s)) then Ret False ((setp p (fold put1 (take k bs) q) s)\<lparr>held := []\<rparr>)
     else Sleep (Ch_nwrite p) (parked (Ch_nwrite p) (wake (Ch_nread p) (setp p (fold put1 (take k bs) q) s))))"
  using assms
proof (induction bs arbitrary: s)
  case Nil
  then show ?case by (simp add: Let_def)
next
  case (Cons c bs)
  let ?q = "pipes s p"
  show ?case
  proof (cases "length (pq ?q) = 512")
    case True
    then have "pi_nwrite ?q = pi_nread ?q + 512" using pq_full [OF Cons.prems(1)] by simp
    then show ?thesis using True Cons.prems(2) by (simp add: Let_def sleep_run)
  next
    case False
    then have nf: "pi_nwrite ?q \<noteq> pi_nread ?q + 512" using pq_full [OF Cons.prems(1)] by simp
    have lt: "length (pq ?q) < 512" using False Cons.prems(1) by simp
    let ?t = "setp p (put1 c ?q) s"
    have t: "pq (pipes ?t p) = pq ?q @ [c]" using pq_put1 [OF lt] by simp
    have "pipewrite_loop p (c # bs) s = pipewrite_loop p bs ?t"
      using nf by (simp add: setp_def [symmetric] put1_def [symmetric])
    also have "\<dots> = (let q = pipes ?t p; k = 512 - length (pq q) in
     if length bs \<le> k then Ret True (setp p (fold put1 bs q) ?t)
     else if \<not> pi_readopen q \<or> p_killed (ptable ?t (curproc ?t)) then Ret False ((setp p (fold put1 (take k bs) q) ?t)\<lparr>held := []\<rparr>)
     else Sleep (Ch_nwrite p) (parked (Ch_nwrite p) (wake (Ch_nread p) (setp p (fold put1 (take k bs) q) ?t))))"
      using t lt Cons.prems(2) by (intro Cons.IH) simp_all
    finally have e: "pipewrite_loop p (c # bs) s = \<dots>" .
    have k: "512 - length (pq ?q) = Suc (512 - length (pq (put1 c ?q)))" using t lt by simp
    show ?thesis unfolding e Let_def k using put1_fields(2) [of "[c]" ?q] by simp
  qed
qed

lemma piperead_copy_run:
  "piperead_copy p n s = Ret (take n (pq (pipes s p)))
     (setp p ((pipes s p)\<lparr>pi_nread := pi_nread (pipes s p) + of_nat (min n (length (pq (pipes s p))))\<rparr>) s)"
proof (induction n arbitrary: s)
  case (Suc n)
  let ?q = "pipes s p"
  show ?case
  proof (cases "pi_nread ?q = pi_nwrite ?q")
    case True
    then have e: "pq ?q = []" "piperead_copy p (Suc n) s = Ret [] s" using pq_Nil by simp_all
    show ?thesis unfolding e by simp
  next
    case False
    from pq_get [OF False] Suc.IH False show ?thesis
      by (simp add: setp_def [symmetric] add.assoc)
  qed
qed simp

lemma pq_drop:
  assumes "n \<le> length (pq q)"
  shows "pq (q\<lparr>pi_nread := pi_nread q + of_nat n\<rparr>) = drop n (pq q)"
  using assms
proof (induction n arbitrary: q)
  case (Suc n)
  then have ne: "pi_nread q \<noteq> pi_nwrite q" using pq_Nil [of q] by auto
  let ?q = "q\<lparr>pi_nread := pi_nread q + 1\<rparr>"
  have "n \<le> length (pq ?q)" using pq_get [OF ne] Suc.prems by simp
  from Suc.IH [OF this] pq_get [OF ne] show ?case by (simp add: add.assoc)
qed simp

lemma held_id: "held s = [] \<Longrightarrow> s\<lparr>held := []\<rparr> = s"
  by simp

lemma held_setp:
  assumes "held s = []"
  shows "(setp p q (s\<lparr>held := h\<rparr>))\<lparr>held := []\<rparr> = setp p q s"
    and "(wake c (setp p q (s\<lparr>held := h\<rparr>)))\<lparr>held := []\<rparr> = wake c (setp p q s)"
proof -
  have "(setp p q (s\<lparr>held := h\<rparr>))\<lparr>held := []\<rparr> = (setp p q s)\<lparr>held := []\<rparr>"
    "(wake c (setp p q (s\<lparr>held := h\<rparr>)))\<lparr>held := []\<rparr> = (wake c (setp p q s))\<lparr>held := []\<rparr>"
    by (simp_all add: setp_def wake_def)
  then show "(setp p q (s\<lparr>held := h\<rparr>))\<lparr>held := []\<rparr> = setp p q s"
    "(wake c (setp p q (s\<lparr>held := h\<rparr>)))\<lparr>held := []\<rparr> = wake c (setp p q s)"
    using assms held_id [of "setp p q s"] held_id [of "wake c (setp p q s)"] by simp_all
qed

lemma write_run:
  assumes l: "length (pq (pipes s p)) \<le> 512" and h: "held s = []"
  shows "bind (acquire (Lk_pipe p)) (\<lambda>_. pipewrite_resume p bs r) s =
    (let q = pipes s p; k = 512 - length (pq q) in
     if length bs \<le> k then Ret r (wake (Ch_nread p) (setp p (fold put1 bs q) s))
     else if \<not> pi_readopen q \<or> p_killed (ptable s (curproc s)) then Ret (-1) (setp p (fold put1 (take k bs) q) s)
     else Sleep (Ch_nwrite p) (parked (Ch_nwrite p) (wake (Ch_nread p) (setp p (fold put1 (take k bs) q) s))))"
proof -
  let ?s = "s\<lparr>held := [Lk_pipe p]\<rparr>"
  have b: "bind (acquire (Lk_pipe p)) (\<lambda>_. pipewrite_resume p bs r) s = pipewrite_resume p bs r ?s"
    using h by simp
  have ph: "parked c (wake d (setp p q ?s)) = parked c (wake d (setp p q s))" for c d q
    by (simp add: wake_def setp_def)
  show ?thesis unfolding b unfolding pipewrite_resume_def
    using l pipewrite_loop_run [of ?s p bs] held_setp [OF h] ph by (simp add: Let_def)
qed

lemma piperead_run:
  assumes h: "held s = []"
  shows "piperead p n s =
    (let q = pipes s p; cs = take (nat n) (pq q) in
     if pq q = [] \<and> pi_writeopen q then
       (if p_killed (ptable s (curproc s)) then Ret (-1, []) s else Sleep (Ch_nread p) (parked (Ch_nread p) s))
     else Ret (int (length cs), cs)
       (wake (Ch_nwrite p) (setp p (q\<lparr>pi_nread := pi_nread q + of_nat (length cs)\<rparr>) s)))"
proof -
  let ?s = "s\<lparr>held := [Lk_pipe p]\<rparr>"
  have e: "s\<lparr>held := []\<rparr> = s" using h by simp
  have "piperead_copy p (nat n) ?s = Ret (take (nat n) (pq (pipes s p)))
     (setp p ((pipes s p)\<lparr>pi_nread := pi_nread (pipes s p) + of_nat (length (take (nat n) (pq (pipes s p))))\<rparr>) ?s)"
    using piperead_copy_run [of p "nat n" ?s] by (simp add: min.commute)
  then show ?thesis unfolding piperead_def using h held_setp [OF h] e by (simp add: Let_def pq_Nil sleep_run)
qed

text \<open>
  Property (C38). \<^verbatim>\<open>pipewrite\<close> appends to the queue in the pipe as many of the bytes as there is room for. If that
  is all of them it wakes the readers and returns \<^verbatim>\<open>n\<close>; if not, it returns -1 when the read end is closed or the process was
  killed, and else goes to sleep, after waking the readers. \<^verbatim>\<open>piperead\<close> on a pipe that is empty and has its write end open changes nothing and
  returns -1 when the process was killed, and else goes to sleep; on any other pipe it removes the bytes it returns from
  the front of the queue and wakes the writers. Neither changes another pipe or whether the ends are open, and both leave without the lock.
\<close>

theorem pipe_refines_queue:
  assumes "length (pq (pipes s p)) \<le> 512" and "held s = []" and "nat n \<le> length addr"
  defines "q \<equiv> pipes s p" and "killed \<equiv> p_killed (ptable s (curproc s))"
  defines "k \<equiv> 512 - length (pq (pipes s p))"
  defines "same t \<equiv> held t = [] \<and> (\<forall>p'. p' \<noteq> p \<longrightarrow> pipes t p' = pipes s p')
     \<and> pi_readopen (pipes t p) = pi_readopen q \<and> pi_writeopen (pipes t p) = pi_writeopen q"
  shows "(case pipewrite p addr n s of
       Ret r t \<Rightarrow> same t \<and> pq (pipes t p) = pq q @ take (min k (nat n)) addr
         \<and> (if nat n \<le> k then r = n \<and> ptable t = ptable (wake (Ch_nread p) s)
            else r = -1 \<and> (\<not> pi_readopen q \<or> killed) \<and> ptable t = ptable s)
     | Sleep c t \<Rightarrow> same t \<and> c = Ch_nwrite p \<and> k < nat n \<and> pi_readopen q \<and> \<not> killed
         \<and> pq (pipes t p) = pq q @ take k addr \<and> length (pq (pipes t p)) = 512
         \<and> ptable t = ptable (parked (Ch_nwrite p) (wake (Ch_nread p) s))
     | _ \<Rightarrow> False)
   \<and> (case piperead p n s of
       Ret (r, cs) t \<Rightarrow>
         if pq q = [] \<and> pi_writeopen q then killed \<and> r = -1 \<and> cs = [] \<and> t = s
         else same t \<and> r = int (length cs) \<and> cs = take (nat n) (pq q) \<and> pq (pipes t p) = drop (nat n) (pq q)
            \<and> ptable t = ptable (wake (Ch_nwrite p) s)
     | Sleep c t \<Rightarrow> pq q = [] \<and> pi_writeopen q \<and> \<not> killed \<and> c = Ch_nread p \<and> t = parked (Ch_nread p) s
     | _ \<Rightarrow> False)"
proof
  have pw: "pipes (wake c t) = pipes t" "ptable (wake c (setp p x s)) = ptable (wake c s)" for c t x
    by (simp_all add: wake_def setp_def)
  have fo: "pi_readopen (fold put1 bs x) = pi_readopen x" "pi_writeopen (fold put1 bs x) = pi_writeopen x" for bs x
    by (induction bs arbitrary: x) (simp_all add: put1_def)
  have sp: "p' \<noteq> p \<Longrightarrow> pipes (setp p x s) p' = pipes s p'" for p' x by (simp add: setp_def)
  have "pq (fold put1 (take (min k (nat n)) addr) q) = pq q @ take (min k (nat n)) addr"
    using assms by (intro pq_put) (simp add: q_def k_def)
  then show "case pipewrite p addr n s of
       Ret r t \<Rightarrow> same t \<and> pq (pipes t p) = pq q @ take (min k (nat n)) addr
         \<and> (if nat n \<le> k then r = n \<and> ptable t = ptable (wake (Ch_nread p) s)
            else r = -1 \<and> (\<not> pi_readopen q \<or> killed) \<and> ptable t = ptable s)
     | Sleep c t \<Rightarrow> same t \<and> c = Ch_nwrite p \<and> k < nat n \<and> pi_readopen q \<and> \<not> killed
         \<and> pq (pipes t p) = pq q @ take k addr \<and> length (pq (pipes t p)) = 512
         \<and> ptable t = ptable (parked (Ch_nwrite p) (wake (Ch_nread p) s))
     | _ \<Rightarrow> False"
    unfolding pipewrite_def write_run [OF assms(1,2)]
    using assms(1,2,3) by (auto simp: Let_def q_def k_def killed_def same_def pw fo sp)
  have "pq (q\<lparr>pi_nread := pi_nread q + of_nat (length (take (nat n) (pq q)))\<rparr>) = drop (nat n) (pq q)"
    using pq_drop [of "length (take (nat n) (pq q))" q] by (cases "nat n \<le> length (pq q)") simp_all
  then show "case piperead p n s of
       Ret (r, cs) t \<Rightarrow>
         if pq q = [] \<and> pi_writeopen q then killed \<and> r = -1 \<and> cs = [] \<and> t = s
         else same t \<and> r = int (length cs) \<and> cs = take (nat n) (pq q) \<and> pq (pipes t p) = drop (nat n) (pq q)
            \<and> ptable t = ptable (wake (Ch_nwrite p) s)
     | Sleep c t \<Rightarrow> pq q = [] \<and> pi_writeopen q \<and> \<not> killed \<and> c = Ch_nread p \<and> t = parked (Ch_nread p) s
     | _ \<Rightarrow> False"
    unfolding piperead_run [OF assms(2)] using assms(2) by (simp add: Let_def q_def killed_def same_def pw sp)
qed

theorem pipe_refines_queue_witness:
  "\<exists>s. pi_writeopen (pipes s 7) \<and> (\<exists>t. pipewrite 7 [65, 66] 2 s = Ret 2 t \<and> pq (pipes t 7) = [65, 66])
     \<and> (\<exists>t. piperead 7 2 s = Sleep (Ch_nread 7) t \<and> p_state (ptable t (curproc s)) = SLEEPING)"
proof -
  let ?s = "(kstate0 (\<lambda>_ _. []))\<lparr>pipes := (\<lambda>_. pipe0\<lparr>pi_readopen := True, pi_writeopen := True\<rparr>)\<rparr>"
  have s: "pq (pipes ?s 7) = []" "held ?s = []" "pi_writeopen (pipes ?s 7)" "\<not> p_killed (ptable ?s (curproc ?s))"
    by (simp_all add: kstate0_def pq_def pipe0_def proc0_def)
  note P = pipe_refines_queue [of ?s 7 2 "[65, 66]"]
  have "\<exists>t. pipewrite 7 [65, 66] 2 ?s = Ret 2 t \<and> pq (pipes t 7) = [65, 66]"
    using conjunct1 [OF P] s by (auto split: outcome.splits)
  moreover have "\<exists>t. piperead 7 2 ?s = Sleep (Ch_nread 7) t \<and> p_state (ptable t (curproc ?s)) = SLEEPING"
    using conjunct2 [OF P] s by (auto split: outcome.splits)
  ultimately show ?thesis using s(3) by blast
qed

subsection \<open>A writer and a reader\<close>

text \<open>
  Two processes \<open>w\<close> and \<open>r\<close> share a pipe: \<open>w\<close> writes a sequence of bytes in one call, \<open>r\<close> reads
  again and again, at most \<open>n\<close> bytes at a time. A state is the kernel state with the bytes still to be
  written and the bytes read. In each step the scheduler picks a runnable process, which runs until
  its call returns or sleeps.
\<close>

definition run_as :: "nat \<Rightarrow> 'a kM \<Rightarrow> 'a kM" where
  "run_as i m =
     bind (modify (\<lambda>s. s\<lparr>curproc := i, ptable := (ptable s)(i := (ptable s i)\<lparr>p_state := RUNNING\<rparr>)\<rparr>)) (\<lambda>_. m)"

definition preempt :: "nat \<Rightarrow> kstate \<Rightarrow> kstate" where
  "preempt i s = s\<lparr>ptable := (ptable s)(i := (ptable s i)\<lparr>p_state := RUNNABLE\<rparr>)\<rparr>"

abbreviation runnable :: "kstate \<Rightarrow> nat \<Rightarrow> bool" where
  "runnable s i \<equiv> p_state (ptable s i) = RUNNABLE"

abbreviation write_call :: "nat \<Rightarrow> u8 list \<Rightarrow> int kM" where
  "write_call p bs \<equiv> bind (acquire (Lk_pipe p)) (\<lambda>_. pipewrite_resume p bs 0)"

type_synonym pipe_cfg = "kstate \<times> u8 list \<times> u8 list"

inductive pipe_step :: "nat \<Rightarrow> nat \<Rightarrow> nat \<Rightarrow> int \<Rightarrow> pipe_cfg \<Rightarrow> pipe_cfg \<Rightarrow> bool" for p w r n where
  write_ret: "runnable s w \<Longrightarrow> bs \<noteq> [] \<Longrightarrow> run_as w (write_call p bs) s = Ret k t \<Longrightarrow>
     pipe_step p w r n (s, bs, out) (preempt w t, [], out)"
| write_sleep: "runnable s w \<Longrightarrow> bs \<noteq> [] \<Longrightarrow> run_as w (write_call p bs) s = Sleep c t \<Longrightarrow>
     pipe_step p w r n (s, bs, out) (t, drop (unat (pi_nwrite (pipes t p) - pi_nwrite (pipes s p))) bs, out)"
| read_ret: "runnable s r \<Longrightarrow> run_as r (piperead p n) s = Ret (k, cs) t \<Longrightarrow>
     pipe_step p w r n (s, bs, out) (preempt r t, bs, out @ cs)"
| read_sleep: "runnable s r \<Longrightarrow> run_as r (piperead p n) s = Sleep c t \<Longrightarrow>
     pipe_step p w r n (s, bs, out) (t, bs, out)"

inductive_cases pipe_stepE: "pipe_step p w r n (s, bs, out) c"

text \<open>No process sleeps while it has something to do.\<close>

definition pipe_inv :: "nat \<Rightarrow> nat \<Rightarrow> nat \<Rightarrow> pipe_cfg \<Rightarrow> bool" where
  "pipe_inv p w r = (\<lambda>(s, bs, out).
     let q = pipes s p in
       held s = [] \<and> length (pq q) \<le> 512 \<and> pi_readopen q \<and> pi_writeopen q
     \<and> \<not> p_killed (ptable s w) \<and> \<not> p_killed (ptable s r)
     \<and> (runnable s w \<or> p_state (ptable s w) = SLEEPING \<and> p_chan (ptable s w) = Some (Ch_nwrite p) \<and> length (pq q) = 512)
     \<and> (runnable s r \<or> p_state (ptable s r) = SLEEPING \<and> p_chan (ptable s r) = Some (Ch_nread p) \<and> pq q = []))"

definition pipe_measure :: "nat \<Rightarrow> nat \<Rightarrow> nat \<Rightarrow> pipe_cfg \<Rightarrow> nat" where
  "pipe_measure p w r = (\<lambda>(s, bs, out). 4 * length bs + 2 * length (pq (pipes s p))
     + (if runnable s w then 1 else 0) + (if runnable s r then 1 else 0))"

definition pipe_text :: "nat \<Rightarrow> pipe_cfg \<Rightarrow> u8 list" where
  "pipe_text p = (\<lambda>(s, bs, out). out @ pq (pipes s p) @ bs)"

definition as_run :: "nat \<Rightarrow> kstate \<Rightarrow> kstate" where
  "as_run i s = s\<lparr>curproc := i, ptable := (ptable s)(i := (ptable s i)\<lparr>p_state := RUNNING\<rparr>)\<rparr>"

lemma as_run_simps [simp]:
  "held (as_run i s) = held s" "pipes (as_run i s) = pipes s" "curproc (as_run i s) = i"
  "p_killed (ptable (as_run i s) j) = p_killed (ptable s j)"
  "p_chan (ptable (as_run i s) j) = p_chan (ptable s j)"
  "p_state (ptable (as_run i s) j) = (if i = j then RUNNING else p_state (ptable s j))"
  by (simp_all add: as_run_def)

lemma run_as_run: "run_as i m s = m (as_run i s)"
  by (simp add: run_as_def as_run_def)

lemma pipes_wake [simp]: "pipes (wake c s) = pipes s"
  by (simp add: wake_def)

lemma state_wake:
  assumes "j < NPROC"
  shows "p_state (ptable (wake c s) j) =
    (if p_state (ptable s j) = SLEEPING \<and> p_chan (ptable s j) = Some c then RUNNABLE else p_state (ptable s j))"
    "p_chan (ptable (wake c s) j) = p_chan (ptable s j)"
  using assms by (simp_all add: wake_def wake_tab_def wake_proc_def)

lemma preempt_simps [simp]:
  "held (preempt i s) = held s" "pipes (preempt i s) = pipes s"
  "p_killed (ptable (preempt i s) j) = p_killed (ptable s j)"
  "p_chan (ptable (preempt i s) j) = p_chan (ptable s j)"
  "p_state (ptable (preempt i s) j) = (if i = j then RUNNABLE else p_state (ptable s j))"
  by (simp_all add: preempt_def)

lemma pq_stored: "length (pq q) + length bs \<le> 512 \<Longrightarrow> unat (pi_nwrite (fold put1 bs q) - pi_nwrite q) = length bs"
proof -
  assume l: "length (pq q) + length bs \<le> 512"
  have "pi_nwrite (fold put1 bs q) = pi_nwrite q + of_nat (length bs)"
    by (induction bs arbitrary: q) (simp_all add: put1_def)
  then show ?thesis using l by (simp add: unat_of_nat take_bit_nat_eq_self)
qed

lemma write_step:
  assumes inv: "pipe_inv p w r (s, bs, out)" and wr: "w \<noteq> r" "w < NPROC" "r < NPROC" and run: "runnable s w" "bs \<noteq> []"
  defines "k \<equiv> 512 - length (pq (pipes s p))"
  shows "length bs \<le> k \<Longrightarrow> \<exists>t. run_as w (write_call p bs) s = Ret 0 t \<and> pipe_inv p w r (preempt w t, [], out)
      \<and> pq (pipes t p) = pq (pipes s p) @ bs"
    and "k < length bs \<Longrightarrow> \<exists>t. run_as w (write_call p bs) s = Sleep (Ch_nwrite p) t \<and> pipe_inv p w r (t, drop k bs, out)
      \<and> pq (pipes t p) = pq (pipes s p) @ take k bs \<and> \<not> runnable t w
      \<and> (k = 0 \<longrightarrow> runnable t r = runnable s r)
      \<and> unat (pi_nwrite (pipes t p) - pi_nwrite (pipes s p)) = k"
proof -
  note I = inv [unfolded pipe_inv_def, simplified, unfolded Let_def]
  have l: "length (pq (pipes (as_run w s) p)) \<le> 512" "held (as_run w s) = []" using I by simp_all
  note W = write_run [OF l, of bs 0, folded run_as_run, simplified Let_def as_run_simps]
  show "\<exists>t. run_as w (write_call p bs) s = Ret 0 t \<and> pipe_inv p w r (preempt w t, [], out)
      \<and> pq (pipes t p) = pq (pipes s p) @ bs" if "length bs \<le> k"
  proof -
    have "pq (fold put1 bs (pipes s p)) = pq (pipes s p) @ bs" using that l(1) by (intro pq_put) (simp add: k_def)
    then show ?thesis using that W I wr run state_wake [OF wr(3)]
      by (auto simp: k_def pipe_inv_def Let_def)
  qed
  show "\<exists>t. run_as w (write_call p bs) s = Sleep (Ch_nwrite p) t \<and> pipe_inv p w r (t, drop k bs, out)
      \<and> pq (pipes t p) = pq (pipes s p) @ take k bs \<and> \<not> runnable t w
      \<and> (k = 0 \<longrightarrow> runnable t r = runnable s r)
      \<and> unat (pi_nwrite (pipes t p) - pi_nwrite (pipes s p)) = k" if "k < length bs"
  proof -
    have "pq (fold put1 (take k bs) (pipes s p)) = pq (pipes s p) @ take k bs"
      "unat (pi_nwrite (fold put1 (take k bs) (pipes s p)) - pi_nwrite (pipes s p)) = k"
      using that l(1) pq_put [of "pipes s p" "take k bs"] pq_stored [of "pipes s p" "take k bs"] by (simp_all add: k_def)
    then show ?thesis using that W I wr run state_wake [OF wr(3)]
      by (auto simp: k_def pipe_inv_def Let_def)
  qed
qed

lemma read_step:
  assumes inv: "pipe_inv p w r (s, bs, out)" and wr: "w \<noteq> r" "w < NPROC" "r < NPROC" and run: "runnable s r" "0 < n"
  defines "cs \<equiv> take (nat n) (pq (pipes s p))"
  shows "pq (pipes s p) \<noteq> [] \<Longrightarrow> \<exists>t. run_as r (piperead p n) s = Ret (int (length cs), cs) t
      \<and> pipe_inv p w r (preempt r t, bs, out @ cs) \<and> pq (pipes t p) = drop (nat n) (pq (pipes s p))"
    and "pq (pipes s p) = [] \<Longrightarrow> \<exists>t. run_as r (piperead p n) s = Sleep (Ch_nread p) t
      \<and> pipe_inv p w r (t, bs, out) \<and> pipes t = pipes s \<and> \<not> runnable t r \<and> runnable t w = runnable s w"
proof -
  note I = inv [unfolded pipe_inv_def, simplified, unfolded Let_def]
  have h: "held (as_run r s) = []" using I by simp
  note R = piperead_run [OF h, of p n, folded run_as_run, simplified Let_def as_run_simps]
  show "\<exists>t. run_as r (piperead p n) s = Ret (int (length cs), cs) t
      \<and> pipe_inv p w r (preempt r t, bs, out @ cs) \<and> pq (pipes t p) = drop (nat n) (pq (pipes s p))"
    if ne: "pq (pipes s p) \<noteq> []"
  proof -
    let ?q = "(pipes s p)\<lparr>pi_nread := pi_nread (pipes s p) + of_nat (length cs)\<rparr>"
    let ?t = "wake (Ch_nwrite p) (setp p ?q (as_run r s))"
    have "pq ?q = drop (nat n) (pq (pipes s p))"
      using pq_drop [of "length cs" "pipes s p"] by (cases "nat n \<le> length (pq (pipes s p))") (simp_all add: cs_def)
    moreover have "length (pq (pipes s p)) \<le> 512" using I by blast
    then have "length (drop (nat n) (pq (pipes s p))) \<le> 512" by simp
    ultimately have "pipe_inv p w r (preempt r ?t, bs, out @ cs)" "pq (pipes ?t p) = drop (nat n) (pq (pipes s p))"
      using I wr state_wake [OF wr(2)] by (auto simp: pipe_inv_def Let_def)
    moreover have "run_as r (piperead p n) s = Ret (int (length cs), cs) ?t"
      using R ne by (simp add: cs_def)
    ultimately show ?thesis by blast
  qed
  show "\<exists>t. run_as r (piperead p n) s = Sleep (Ch_nread p) t
      \<and> pipe_inv p w r (t, bs, out) \<and> pipes t = pipes s \<and> \<not> runnable t r \<and> runnable t w = runnable s w"
    if "pq (pipes s p) = []"
    using R that I wr by (auto simp: pipe_inv_def Let_def)
qed

lemma pipe_step_ok:
  assumes inv: "pipe_inv p w r c" and wr: "w \<noteq> r" "w < NPROC" "r < NPROC" "0 < n" and st: "pipe_step p w r n c d"
  shows "pipe_inv p w r d \<and> pipe_text p d = pipe_text p c \<and> pipe_measure p w r d < pipe_measure p w r c"
proof -
  from st show ?thesis
  proof (cases rule: pipe_step.cases)
    case (write_ret s bs k t out)
    note W = write_step [OF inv [unfolded write_ret(1)] wr(1-3) write_ret(3,4)]
    have "length bs \<le> 512 - length (pq (pipes s p))" using W(2) write_ret(5) by fastforce
    from W(1) [OF this] write_ret show ?thesis
      by (cases bs) (auto simp: pipe_text_def pipe_measure_def)
  next
    case (write_sleep s bs ch t out)
    note W = write_step [OF inv [unfolded write_sleep(1)] wr(1-3) write_sleep(3,4)]
    have k: "512 - length (pq (pipes s p)) < length bs" using W(1) write_sleep(5) by fastforce
    from W(2) [OF k] write_sleep k show ?thesis
      by (cases "512 - length (pq (pipes s p)) = 0") (auto simp: pipe_text_def pipe_measure_def)
  next
    case (read_ret s k cs t bs out)
    note R = read_step [OF inv [unfolded read_ret(1)] wr(1-3) read_ret(3) wr(4)]
    have ne: "pq (pipes s p) \<noteq> []" using R(2) read_ret(4) by fastforce
    then have "length (pq (pipes s p)) - nat n < length (pq (pipes s p))" using wr(4) by simp
    with R(1) [OF ne] read_ret show ?thesis
      by (auto simp: pipe_text_def pipe_measure_def)
  next
    case (read_sleep s ch t bs out)
    note R = read_step [OF inv [unfolded read_sleep(1)] wr(1-3) read_sleep(3) wr(4)]
    have "pq (pipes s p) = []" using R(1) read_sleep(4) by fastforce
    from R(2) [OF this] read_sleep show ?thesis
      by (auto simp: pipe_text_def pipe_measure_def)
  qed
qed

lemma pipe_reachable:
  assumes "(pipe_step p w r n)\<^sup>*\<^sup>* c d" and "pipe_inv p w r c" and wr: "w \<noteq> r" "w < NPROC" "r < NPROC" "0 < n"
  shows "pipe_inv p w r d \<and> pipe_text p d = pipe_text p c"
  using assms(1,2) by induction (use pipe_step_ok [OF _ wr] in auto)

lemma pipe_stuck:
  assumes inv: "pipe_inv p w r (s, bs, out)" and wr: "w \<noteq> r" "w < NPROC" "r < NPROC" "0 < n"
    and no: "\<nexists>d. pipe_step p w r n (s, bs, out) d"
  shows "bs = [] \<and> pq (pipes s p) = []"
proof -
  have "\<not> runnable s r"
  proof
    assume run: "runnable s r"
    note R = read_step [OF inv wr(1-3) run wr(4)]
    show False
    proof (cases "pq (pipes s p) = []")
      case True
      from R(2) [OF this] run no show False by (metis pipe_step.read_sleep)
    next
      case False
      from R(1) [OF this] run no show False by (metis pipe_step.read_ret)
    qed
  qed
  then have e: "pq (pipes s p) = []" using inv by (simp add: pipe_inv_def Let_def)
  then have run: "runnable s w" using inv by (simp add: pipe_inv_def Let_def)
  have "bs = []"
  proof (rule ccontr)
    assume ne: "bs \<noteq> []"
    note W = write_step [OF inv wr(1-3) run ne]
    show False
    proof (cases "length bs \<le> 512 - length (pq (pipes s p))")
      case True
      from W(1) [OF this] run ne no show False by (metis pipe_step.write_ret)
    next
      case False
      then have "512 - length (pq (pipes s p)) < length bs" by simp
      from W(2) [OF this] run ne no show False by (metis pipe_step.write_sleep)
    qed
  qed
  with e show ?thesis by simp
qed

text \<open>
  Property (C13). Bytes leave a pipe in the order in which they were written, none lost, none twice, in every
  interleaving of a writer and a reader: what was read, followed by what is in the pipe, followed by what
  is still to be written, is always the text.
\<close>

theorem pipe_fifo:
  assumes "pipe_inv p w r (s, bs, [])" and "pq (pipes s p) = []"
    and "w \<noteq> r" and "w < NPROC" and "r < NPROC" and "0 < n"
    and "(pipe_step p w r n)\<^sup>*\<^sup>* (s, bs, []) (t, cs, out)"
  shows "out @ pq (pipes t p) @ cs = bs \<and> length (pq (pipes t p)) \<le> 512"
  using pipe_reachable [OF assms(7,1,3-6)] assms(2) by (simp add: pipe_text_def pipe_inv_def Let_def)

text \<open>
  Property (C4). The transfer ends: there is no infinite run of writer and reader, whatever the scheduler does
  (so neither busy-waits), and a run that cannot go on has delivered the whole text (so no wake-up is lost).
\<close>

theorem pipe_delivers:
  assumes inv: "pipe_inv p w r (s, bs, [])" and e: "pq (pipes s p) = []"
    and wr: "w \<noteq> r" "w < NPROC" "r < NPROC" "0 < n"
  shows "(\<nexists>f. f 0 = (s, bs, []) \<and> (\<forall>i. pipe_step p w r n (f i) (f (Suc i))))
   \<and> (\<forall>t cs out. (pipe_step p w r n)\<^sup>*\<^sup>* (s, bs, []) (t, cs, out) \<and> (\<nexists>d. pipe_step p w r n (t, cs, out) d) \<longrightarrow> out = bs)"
proof (intro conjI notI allI impI; (elim exE conjE)?)
  fix f assume f: "f 0 = (s, bs, [])" "\<forall>i. pipe_step p w r n (f i) (f (Suc i))"
  have I: "pipe_inv p w r (f i)" for i
    by (induction i) (use inv f pipe_step_ok [OF _ wr] in auto)
  have "(f (Suc i), f i) \<in> measure (pipe_measure p w r)" for i
    using pipe_step_ok [OF I wr] f(2) by simp
  then show False using wf_iff_no_infinite_down_chain [of "measure (pipe_measure p w r)"] by blast
next
  fix t cs out
  assume reach: "(pipe_step p w r n)\<^sup>*\<^sup>* (s, bs, []) (t, cs, out)" and no: "\<nexists>d. pipe_step p w r n (t, cs, out) d"
  from pipe_reachable [OF reach inv wr] have "pipe_inv p w r (t, cs, out)" "out @ pq (pipes t p) @ cs = bs"
    using e by (simp_all add: pipe_text_def)
  with pipe_stuck [OF this(1) wr no] show "out = bs" by simp
qed

definition pipe_demo :: kstate where
  "pipe_demo = (kstate0 (\<lambda>_ _. []))\<lparr>ptable := (\<lambda>_. proc0\<lparr>p_state := RUNNABLE\<rparr>),
     pipes := (\<lambda>_. pipe0\<lparr>pi_readopen := True, pi_writeopen := True\<rparr>)\<rparr>"

lemma pipe_demo_inv: "pipe_inv 7 0 1 (pipe_demo, bs, [])" "pq (pipes pipe_demo 7) = []"
  by (simp_all add: pipe_inv_def pipe_demo_def Let_def pq_def pipe0_def kstate0_def proc0_def)

theorem pipe_fifo_witness:
  "\<exists>t. pipe_step 7 0 1 1 (pipe_demo, replicate 600 65, []) (t, replicate 88 65, []) \<and> pq (pipes t 7) = replicate 512 65"
proof -
  note W = write_step(2) [OF pipe_demo_inv(1) [of "replicate 600 65"], simplified pipe_demo_inv(2), simplified]
  have run: "runnable pipe_demo 0" by (simp add: pipe_demo_def)
  obtain t where t: "run_as 0 (write_call 7 (replicate 600 65)) pipe_demo = Sleep (Ch_nwrite 7) t"
    "unat (pi_nwrite (pipes t 7) - pi_nwrite (pipes pipe_demo 7)) = 512"
    using W run by auto
  have st: "pipe_step 7 0 1 1 (pipe_demo, replicate 600 65, []) (t, replicate 88 65, [])"
    using pipe_step.write_sleep [OF run _ t(1)] t(2) by simp
  from pipe_fifo [OF pipe_demo_inv _ _ _ _ r_into_rtranclp [where r = "pipe_step 7 0 1 1", OF st]]
  have "pq (pipes t 7) @ replicate 88 65 = replicate 512 65 @ replicate 88 65"
    by (simp add: replicate_add [symmetric])
  with st show ?thesis by auto
qed

theorem pipe_delivers_witness:
  "\<nexists>f. f 0 = (pipe_demo, [65, 66], []) \<and> (\<forall>i. pipe_step 7 0 1 1 (f i) (f (Suc i)))"
  using pipe_delivers [OF pipe_demo_inv, where n = 1] by simp

end
