(* ===== verification/Syscall_Args.thy ===== *)
theory Syscall_Args
  imports Vm_Rules
begin

text \<open>
  User memory as the kernel sees it while a process runs, and the fetching of system call arguments
  (\<^verbatim>\<open>fetchint\<close> to \<^verbatim>\<open>argstr\<close> of \<^verbatim>\<open>syscall.c\<close>). The kernel dereferences user addresses directly, so the
  hardware translates them with the page directory of the current process; a page that is not there
  is a fault in kernel mode, at which \<^verbatim>\<open>trap\<close> panics. A function that stores a result through a pointer
  and returns an error code returns \<open>None\<close> for -1 and \<open>Some\<close> the result otherwise.
\<close>

subsection \<open>User memory\<close>

text \<open>The kernel address of the byte at user address \<open>va\<close>; a write needs \<open>PTE_W\<close> (\<^verbatim>\<open>CR0_WP\<close> is set).\<close>

definition uaddr :: "bool \<Rightarrow> u32 \<Rightarrow> kstate \<Rightarrow> u32 option" where
  "uaddr write va s =
     (let pgdir = p_pgdir (ptable s (curproc s));
          pde = load32 (mem s) (pgdir + 4 * PDX va) in
      if pde AND PTE_P = 0 then None
      else
        let pte = load32 (mem s) (P2V (PTE_ADDR pde) + 4 * PTX va) in
        if pte AND PTE_P = 0 \<or> write \<and> pte AND PTE_W = 0 then None
        else Some (P2V (PTE_ADDR pte) + (va AND 0xFFF)))"

primrec uread :: "u32 \<Rightarrow> nat \<Rightarrow> u8 list kM" where
  "uread va 0 = ret []"
| "uread va (Suc n) =
     bind (gets (uaddr False va)) (\<lambda>a.
     case a of
       None \<Rightarrow> panic ''trap''
     | Some a \<Rightarrow>
         bind (gets (\<lambda>s. mem s a)) (\<lambda>b.
         bind (uread (va + 1) n) (\<lambda>bs.
         ret (b # bs))))"

primrec uwrite :: "u32 \<Rightarrow> u8 list \<Rightarrow> unit kM" where
  "uwrite va [] = ret ()"
| "uwrite va (b # bs) =
     bind (gets (uaddr True va)) (\<lambda>a.
     case a of
       None \<Rightarrow> panic ''trap''
     | Some a \<Rightarrow>
         bind (mem_write a [b]) (\<lambda>_.
         uwrite (va + 1) bs))"

subsection \<open>Arguments\<close>

definition fetchint :: "u32 \<Rightarrow> u32 option kM" where
  "fetchint addr =
     bind myproc (\<lambda>me.
     bind (gets (\<lambda>s. p_sz (ptable s me))) (\<lambda>sz.
     if sz \<le> addr \<or> sz < addr + 4 then ret None
     else
       bind (uread addr 4) (\<lambda>bs.
       ret (Some (get32 bs 0)))))"

text \<open>The string without its final 0.\<close>

primrec fetchstr_loop :: "u32 \<Rightarrow> nat \<Rightarrow> u8 list option kM" where
  "fetchstr_loop s 0 = ret None"
| "fetchstr_loop s (Suc k) =
     bind (uread s 1) (\<lambda>b.
     if b = [0] then ret (Some [])
     else
       bind (fetchstr_loop (s + 1) k) (\<lambda>r.
       ret (map_option (\<lambda>cs. b @ cs) r)))"

definition fetchstr :: "u32 \<Rightarrow> u8 list option kM" where
  "fetchstr addr =
     bind myproc (\<lambda>me.
     bind (gets (\<lambda>s. p_sz (ptable s me))) (\<lambda>sz.
     if sz \<le> addr then ret None
     else fetchstr_loop addr (unat sz - unat addr)))"

definition argint :: "nat \<Rightarrow> u32 option kM" where
  "argint n =
     bind myproc (\<lambda>me.
     bind (gets (\<lambda>s. tf_esp (p_tf (ptable s me)))) (\<lambda>esp.
     fetchint (esp + 4 + of_nat (4 * n))))"

definition argptr :: "nat \<Rightarrow> u32 \<Rightarrow> u32 option kM" where
  "argptr n sz =
     bind myproc (\<lambda>me.
     bind (argint n) (\<lambda>r.
     case r of
       None \<Rightarrow> ret None
     | Some i \<Rightarrow>
         bind (gets (\<lambda>s. p_sz (ptable s me))) (\<lambda>psz.
         if sint sz < 0 \<or> psz \<le> i \<or> psz < i + sz then ret None
         else ret (Some i))))"

definition argstr :: "nat \<Rightarrow> u8 list option kM" where
  "argstr n =
     bind (argint n) (\<lambda>r.
     case r of None \<Rightarrow> ret None | Some addr \<Rightarrow> fetchstr addr)"

subsection \<open>Rules\<close>

lemma uread_run:
  assumes "\<forall>i<n. uaddr False (va + of_nat i) s \<noteq> None"
  shows "uread va n s = Ret (map (\<lambda>i. mem s (the (uaddr False (va + of_nat i) s))) [0..<n]) s"
  using assms
proof (induction n arbitrary: va)
  case (Suc n)
  have "\<forall>i<n. uaddr False (va + 1 + of_nat i) s \<noteq> None" using Suc.prems by (auto simp: add.assoc dest: spec [of _ "Suc _"])
  note IH = Suc.IH [OF this]
  obtain a where a: "uaddr False va s = Some a" using Suc.prems by (auto dest: spec [of _ 0])
  have "map f [0..<Suc n] = f 0 # map (\<lambda>i. f (Suc i)) [0..<n]" for f :: "nat \<Rightarrow> u8"
    by (simp add: upt_conv_Cons map_Suc_upt [symmetric] del: upt_Suc)
  then show ?case using IH a by (simp add: add.assoc del: upt_Suc)
qed simp

lemma uread_state: "uread va n s = Ret bs t \<Longrightarrow> t = s \<and> length bs = n"
  by (induction n arbitrary: va bs) (auto split: option.splits outcome.splits elim!: bind_RetE)

lemma argint_state: "argint n s = Ret r t \<Longrightarrow> t = s"
  by (auto simp: argint_def fetchint_def split: if_splits outcome.splits elim!: bind_RetE dest: uread_state)

lemma no_wrap:
  assumes "sz \<le> KERNBASE" and "i < sz" and "0 \<le> sint k" and "i + k \<le> sz"
  shows "unat i + unat k \<le> unat sz"
proof -
  have sz: "unat sz \<le> 2 ^ 31" using assms(1) by (simp add: word_le_nat_alt)
  have i: "unat i < unat sz" using assms(2) by (simp add: word_less_nat_alt)
  have "uint k < 2147483648" using assms(3) uint_bounded [of k] by (auto simp: sint_u32 split: if_splits)
  moreover have "int (unat k) = uint k" by simp
  ultimately have k: "unat k < 2147483648" by linarith
  have "unat i + unat k < 2 ^ 32" using sz i k by simp
  then have "unat (i + k) = unat i + unat k" by (simp add: unat_word_ariths)
  with assms(4) show ?thesis by (simp add: word_le_nat_alt)
qed

lemma argptr_run:
  assumes "argptr n k s = Ret (Some i) t" and "p_sz (ptable s (curproc s)) \<le> KERNBASE"
  shows "t = s \<and> unat i + unat k \<le> unat (p_sz (ptable s (curproc s)))"
proof -
  obtain r where r: "argint n s = Ret r s"
    using assms(1) by (auto simp: argptr_def split: outcome.splits dest: argint_state)
  then have "t = s" "\<not> (sint k < 0 \<or> p_sz (ptable s (curproc s)) \<le> i \<or> p_sz (ptable s (curproc s)) < i + k)"
    using assms(1) by (auto simp: argptr_def split: option.splits if_splits)
  with no_wrap [OF assms(2), of i k] show ?thesis by (simp add: not_le not_less)
qed

lemma fetchstr_loop_run:
  "fetchstr_loop a k s = Ret (Some cs) t \<Longrightarrow> t = s \<and> length cs < k \<and> 0 \<notin> set cs \<and> uread a (length cs + 1) s = Ret (cs @ [0]) s"
proof (induction k arbitrary: a cs)
  case (Suc k)
  from Suc.prems obtain b u where b: "uread a 1 s = Ret b u"
    and k: "(if b = [0] then ret (Some []) else bind (fetchstr_loop (a + 1) k) (\<lambda>r. ret (map_option (\<lambda>cs. b @ cs) r))) u = Ret (Some cs) t"
    by (auto split: outcome.splits simp del: One_nat_def)
  from uread_state [OF b] obtain c where u: "u = s" and c: "b = [c]" by (auto simp: length_Suc_conv)
  show ?case
  proof (cases "c = 0")
    case True
    then show ?thesis using k b u c by auto
  next
    case False
    then obtain r v where r: "fetchstr_loop (a + 1) k s = Ret r v" and e: "map_option (\<lambda>cs. b @ cs) r = Some cs" "v = t"
      using k u c by (auto split: outcome.splits)
    then obtain cs' where cs': "r = Some cs'" "cs = c # cs'" using c by auto
    from Suc.IH [of "a + 1" cs'] r e cs' have I: "t = s" "length cs' < k" "0 \<notin> set cs'" "uread (a + 1) (length cs' + 1) s = Ret (cs' @ [0]) s"
      by auto
    have "uread a (Suc (length cs' + 1)) s = Ret (c # cs' @ [0]) s"
      using b c u I(4) by (auto split: option.splits outcome.splits)
    then show ?thesis using I False cs' by simp
  qed
qed simp

text \<open>
  Property (C40). What a system call gets from its caller is inside the caller's memory. A buffer that \<^verbatim>\<open>argptr\<close>
  accepts lies below \<^verbatim>\<open>sz\<close> as a whole, although the check adds in 32 bits; a string that \<^verbatim>\<open>fetchstr\<close> accepts ends with
  a 0 below \<^verbatim>\<open>sz\<close>, and its bytes are those of the caller's memory. Neither changes the state.
\<close>

theorem user_arguments_checked:
  assumes "p_sz (ptable s (curproc s)) \<le> KERNBASE"
  shows "(argptr n k s = Ret (Some i) t \<longrightarrow> t = s \<and> unat i + unat k \<le> unat (p_sz (ptable s (curproc s))))
   \<and> (fetchstr a s = Ret (Some cs) t \<longrightarrow> t = s \<and> 0 \<notin> set cs \<and> unat a + length cs < unat (p_sz (ptable s (curproc s)))
         \<and> uread a (length cs + 1) s = Ret (cs @ [0]) s)"
proof (intro conjI impI)
  assume "fetchstr a s = Ret (Some cs) t"
  then have "fetchstr_loop a (unat (p_sz (ptable s (curproc s))) - unat a) s = Ret (Some cs) t"
    by (simp add: fetchstr_def split: if_splits)
  from fetchstr_loop_run [OF this] show "t = s" "0 \<notin> set cs" "unat a + length cs < unat (p_sz (ptable s (curproc s)))"
    "uread a (length cs + 1) s = Ret (cs @ [0]) s" by auto
qed (use argptr_run [OF _ assms] in blast)+

text \<open>A process with one page of zeros.\<close>

definition args_demo :: kstate where
  "args_demo = (kstate0 (\<lambda>_ _. []))\<lparr>ptable := (\<lambda>_. proc0\<lparr>p_sz := 4096, p_pgdir := 0x80200000\<rparr>),
     mem := store32 (store32 (\<lambda>_. 0) 0x80200000 0x300007) 0x80300000 0x400007\<rparr>"

lemma args_demo_uaddr:
  assumes "va < 4096"
  shows "uaddr False va args_demo = Some (0x80400000 + (va AND 0xFFF))"
proof -
  let ?m = "store32 (store32 (\<lambda>_. 0) 0x80200000 0x300007) 0x80300000 0x400007 :: u32 \<Rightarrow> u8"
  have l: "unat va < 4096" using assms by (simp add: word_less_nat_alt)
  have "drop_bit 12 va = 0" "drop_bit 22 va = 0"
    using l by (simp_all add: word_unat_eq_iff drop_bit_eq_div unat_div)
  then have x: "PDX va = 0" "PTX va = 0" by (simp_all add: PDX_def PTX_def)
  have "load32 ?m 0x80200000 = 0x300007"
    unfolding store32_def [of _ "0x80300000"] by (subst load32_other_page) simp_all
  then show ?thesis by (simp add: uaddr_def args_demo_def kstate0_def x Let_def P2V_def PTE_ADDR_def)
qed

theorem user_arguments_checked_witness:
  "\<exists>t. argptr 0 8 args_demo = Ret (Some 0) t \<and> t = args_demo"
proof -
  have sz: "p_sz (ptable args_demo (curproc args_demo)) = 4096" "tf_esp (p_tf (ptable args_demo (curproc args_demo))) = 0"
    by (simp_all add: args_demo_def proc0_def trapframe0_def)
  have "mem args_demo (0x80400000 + k) = 0" if "unat k < 4096" for k
    using that by (simp add: args_demo_def store32_def mstore_def unat_word_ariths)
  then have z: "mem args_demo (0x80400000 + (va AND 0xFFF)) = 0" for va
    using word_and_le1 [of va "0xFFF"] by (simp add: word_le_nat_alt)
  have u: "uaddr False (4 + of_nat i) args_demo = Some (0x80400000 + ((4 + of_nat i) AND 0xFFF))" if "i < 4" for i
    using that by (intro args_demo_uaddr) (simp add: word_less_nat_alt unat_word_ariths unat_of_nat_u32)
  have "map (\<lambda>i. mem args_demo (the (uaddr False (4 + of_nat i) args_demo))) [0..<4] = replicate 4 0"
    by (rule nth_equalityI) (use u z in simp_all)
  then have "uread 4 4 args_demo = Ret (replicate 4 0) args_demo"
    using uread_run [of 4 4 args_demo] u by simp
  then have "argint 0 args_demo = Ret (Some 0) args_demo"
    using sz by (simp add: argint_def fetchint_def get32_zeros)
  then have "argptr 0 8 args_demo = Ret (Some 0) args_demo"
    using sz by (simp add: argptr_def)
  with user_arguments_checked [of args_demo 0 8 0 args_demo 0 "[]"] sz show ?thesis by simp
qed

end
