(* ===== verification/Sysfile.thy ===== *)
theory Sysfile
  imports File Syscall_Args
begin

text \<open>
  The file system calls (\<^verbatim>\<open>sysfile.c\<close>; \<^verbatim>\<open>sys_exec\<close> is with \<^verbatim>\<open>exec\<close>). A call returns the value that ends
  up in \<^verbatim>\<open>%eax\<close>. The bytes a call reads from or writes to the caller's buffer pass through \<open>uread\<close> and
  \<open>uwrite\<close>, once for the whole buffer. Local name buffers, which the code leaves uninitialised, start
  as zeros; they are written before they are read.
\<close>

abbreviation (input) O_RDONLY :: u32 where "O_RDONLY \<equiv> 0"
abbreviation (input) O_WRONLY :: u32 where "O_WRONLY \<equiv> 1"
abbreviation (input) O_RDWR :: u32 where "O_RDWR \<equiv> 2"
abbreviation (input) O_CREATE :: u32 where "O_CREATE \<equiv> 0x200"

abbreviation name0 :: "u8 list" where "name0 \<equiv> replicate DIRSIZ 0"

subsection \<open>File descriptors\<close>

text \<open>The descriptor and the file.\<close>

definition argfd :: "nat \<Rightarrow> (nat \<times> nat) option kM" where
  "argfd n =
     bind (argint n) (\<lambda>r.
     case r of
       None \<Rightarrow> ret None
     | Some fd \<Rightarrow>
         if sint fd < 0 \<or> int NOFILE \<le> sint fd then ret None
         else
           bind myproc (\<lambda>me.
           bind (gets (\<lambda>s. p_ofile (ptable s me) (nat (sint fd)))) (\<lambda>f.
           case f of None \<Rightarrow> ret None | Some f \<Rightarrow> ret (Some (nat (sint fd), f)))))"

definition set_ofile :: "nat \<Rightarrow> nat option \<Rightarrow> unit kM" where
  "set_ofile fd f =
     bind myproc (\<lambda>me.
     upd_proc me (\<lambda>p. p\<lparr>p_ofile := (p_ofile p)(fd := f)\<rparr>))"

definition fdalloc :: "nat \<Rightarrow> nat option kM" where
  "fdalloc f =
     bind myproc (\<lambda>me.
     bind (gets (\<lambda>s. p_ofile (ptable s me))) (\<lambda>tab.
     case find (\<lambda>fd. tab fd = None) [0..<NOFILE] of
       Some fd \<Rightarrow> bind (set_ofile fd (Some f)) (\<lambda>_. ret (Some fd))
     | None \<Rightarrow> ret None))"

definition sys_dup :: "int kM" where
  "sys_dup =
     bind (argfd 0) (\<lambda>r.
     case r of
       None \<Rightarrow> ret (-1)
     | Some (_, f) \<Rightarrow>
         bind (fdalloc f) (\<lambda>r.
         case r of
           None \<Rightarrow> ret (-1)
         | Some fd \<Rightarrow>
             bind (filedup f) (\<lambda>_.
             ret (int fd))))"

text \<open>The common argument checking of \<^verbatim>\<open>sys_read\<close> and \<^verbatim>\<open>sys_write\<close>: file, count, buffer.\<close>

definition rw_args :: "(nat \<times> u32 \<times> u32) option kM" where
  "rw_args =
     bind (argfd 0) (\<lambda>r.
     case r of
       None \<Rightarrow> ret None
     | Some (_, f) \<Rightarrow>
         bind (argint 2) (\<lambda>r.
         case r of
           None \<Rightarrow> ret None
         | Some n \<Rightarrow>
             bind (argptr 1 n) (\<lambda>r.
             case r of None \<Rightarrow> ret None | Some p \<Rightarrow> ret (Some (f, n, p)))))"

definition sys_read :: "(nat \<Rightarrow> unit kM) \<Rightarrow> int kM" where
  "sys_read lr =
     bind rw_args (\<lambda>r.
     case r of
       None \<Rightarrow> ret (-1)
     | Some (f, n, p) \<Rightarrow>
         bind (fileread lr f (sint n)) (\<lambda>(r, d).
         bind (uwrite p d) (\<lambda>_.
         ret r)))"

definition sys_write :: "(nat \<Rightarrow> unit kM) \<Rightarrow> (nat \<Rightarrow> unit kM) \<Rightarrow> int kM" where
  "sys_write lr lw =
     bind rw_args (\<lambda>r.
     case r of
       None \<Rightarrow> ret (-1)
     | Some (f, n, p) \<Rightarrow>
         bind (uread p (unat n)) (\<lambda>d.
         filewrite lr lw f d (sint n)))"

definition sys_close :: "(nat \<Rightarrow> unit kM) \<Rightarrow> (nat \<Rightarrow> unit kM) \<Rightarrow> int kM" where
  "sys_close lr lw =
     bind (argfd 0) (\<lambda>r.
     case r of
       None \<Rightarrow> ret (-1)
     | Some (fd, f) \<Rightarrow>
         bind (set_ofile fd None) (\<lambda>_.
         bind (fileclose lr lw f) (\<lambda>_.
         ret 0)))"

text \<open>\<^verbatim>\<open>struct stat\<close> in memory: \<^verbatim>\<open>type\<close> at 0, \<^verbatim>\<open>dev\<close> at 4, \<^verbatim>\<open>ino\<close> at 8, \<^verbatim>\<open>nlink\<close> at 12, \<^verbatim>\<open>size\<close> at 16.\<close>

definition put_stat :: "u32 \<Rightarrow> stat \<Rightarrow> unit kM" where
  "put_stat a st =
     bind (uwrite (a + 4) (bytes32 (st_dev st))) (\<lambda>_.
     bind (uwrite (a + 8) (bytes32 (st_ino st))) (\<lambda>_.
     bind (uwrite a (bytes16 (st_type st))) (\<lambda>_.
     bind (uwrite (a + 12) (bytes16 (st_nlink st))) (\<lambda>_.
     uwrite (a + 16) (bytes32 (st_size st))))))"

definition sys_fstat :: "(nat \<Rightarrow> unit kM) \<Rightarrow> int kM" where
  "sys_fstat lr =
     bind (argfd 0) (\<lambda>r.
     case r of
       None \<Rightarrow> ret (-1)
     | Some (_, f) \<Rightarrow>
         bind (argptr 1 20) (\<lambda>r.
         case r of
           None \<Rightarrow> ret (-1)
         | Some p \<Rightarrow>
             bind (filestat lr f) (\<lambda>r.
             case r of
               None \<Rightarrow> ret (-1)
             | Some st \<Rightarrow> bind (put_stat p st) (\<lambda>_. ret 0))))"

subsection \<open>Links\<close>

text \<open>Leave a failed operation: \<^verbatim>\<open>end_op()\<close> and -1, the latter also after \<^verbatim>\<open>iunlockput\<close>.\<close>

definition fail_op :: "(nat \<Rightarrow> unit kM) \<Rightarrow> (nat \<Rightarrow> unit kM) \<Rightarrow> int kM" where
  "fail_op lr lw = bind (end_op lr lw) (\<lambda>_. ret (-1))"

definition fail_put :: "(nat \<Rightarrow> unit kM) \<Rightarrow> (nat \<Rightarrow> unit kM) \<Rightarrow> nat \<Rightarrow> int kM" where
  "fail_put lr lw ip = bind (iunlockput lr ip) (\<lambda>_. fail_op lr lw)"

definition link_bad :: "(nat \<Rightarrow> unit kM) \<Rightarrow> (nat \<Rightarrow> unit kM) \<Rightarrow> nat \<Rightarrow> int kM" where
  "link_bad lr lw ip =
     bind (ilock lr (Some ip)) (\<lambda>_.
     bind (upd_inode ip (\<lambda>i. i\<lparr>i_nlink := i_nlink i - 1\<rparr>)) (\<lambda>_.
     bind (iupdate lr ip) (\<lambda>_.
     fail_put lr lw ip)))"

text \<open>The part of \<^verbatim>\<open>sys_link\<close> from \<^verbatim>\<open>nameiparent\<close> on.\<close>

definition link_new :: "(nat \<Rightarrow> unit kM) \<Rightarrow> (nat \<Rightarrow> unit kM) \<Rightarrow> nat \<Rightarrow> u8 list \<Rightarrow> int kM" where
  "link_new lr lw ip new =
     bind (nameiparent lr new name0) (\<lambda>(r, name).
     case r of
       None \<Rightarrow> link_bad lr lw ip
     | Some dp \<Rightarrow>
         bind (ilock lr (Some dp)) (\<lambda>_.
         bind (gets (\<lambda>s. (i_dev (icache s dp), icache s ip))) (\<lambda>(ddev, i).
         bind (if ddev \<noteq> i_dev i then ret True
               else bind (dirlink lr dp name (i_inum i)) (\<lambda>r. ret (r < 0))) (\<lambda>bad.
         bind (iunlockput lr dp) (\<lambda>_.
         if bad then link_bad lr lw ip
         else
           bind (iput lr ip) (\<lambda>_.
           bind (end_op lr lw) (\<lambda>_.
           ret 0)))))))"

definition sys_link :: "(nat \<Rightarrow> unit kM) \<Rightarrow> (nat \<Rightarrow> unit kM) \<Rightarrow> int kM" where
  "sys_link lr lw =
     bind (argstr 0) (\<lambda>r.
     case r of
       None \<Rightarrow> ret (-1)
     | Some old \<Rightarrow>
         bind (argstr 1) (\<lambda>r.
         case r of
           None \<Rightarrow> ret (-1)
         | Some new \<Rightarrow>
             bind begin_op (\<lambda>_.
             bind (namei lr old) (\<lambda>r.
             case r of
               None \<Rightarrow> fail_op lr lw
             | Some ip \<Rightarrow>
                 bind (ilock lr (Some ip)) (\<lambda>_.
                 bind (gets (\<lambda>s. i_type (icache s ip))) (\<lambda>ty.
                 if ty = T_DIR then fail_put lr lw ip
                 else
                   bind (upd_inode ip (\<lambda>i. i\<lparr>i_nlink := i_nlink i + 1\<rparr>)) (\<lambda>_.
                   bind (iupdate lr ip) (\<lambda>_.
                   bind (iunlock (Some ip)) (\<lambda>_.
                   link_new lr lw ip new)))))))))"

function isdirempty_from :: "(nat \<Rightarrow> unit kM) \<Rightarrow> nat \<Rightarrow> nat \<Rightarrow> nat \<Rightarrow> bool kM" where
  "isdirempty_from lr dp sz off =
     (if off < sz then
        bind (readi lr dp (of_nat off) 16) (\<lambda>(r, d).
        bind (panic_if (r \<noteq> 16) ''isdirempty: readi'') (\<lambda>_.
        if de_inum (get_dirent d) \<noteq> 0 then ret False
        else isdirempty_from lr dp sz (off + 16)))
      else ret True)"
  by pat_completeness auto
termination
  by (relation "measure (\<lambda>(lr, dp, sz, off). sz - off)") auto

declare isdirempty_from.simps [simp del]

definition isdirempty :: "(nat \<Rightarrow> unit kM) \<Rightarrow> nat \<Rightarrow> bool kM" where
  "isdirempty lr dp =
     bind (gets (\<lambda>s. unat (i_size (icache s dp)))) (\<lambda>sz.
     isdirempty_from lr dp sz (2 * 16))"

text \<open>\<^verbatim>\<open>sys_unlink\<close> once the entry is found and its inode locked.\<close>

definition unlink_entry :: "(nat \<Rightarrow> unit kM) \<Rightarrow> (nat \<Rightarrow> unit kM) \<Rightarrow> nat \<Rightarrow> nat \<Rightarrow> u32 \<Rightarrow> int kM" where
  "unlink_entry lr lw dp ip off =
     bind (gets (\<lambda>s. icache s ip)) (\<lambda>i.
     bind (panic_if (sint (i_nlink i) < 1) ''unlink: nlink < 1'') (\<lambda>_.
     bind (if i_type i = T_DIR then bind (isdirempty lr ip) (\<lambda>e. ret (\<not> e)) else ret False) (\<lambda>full.
     if full then bind (iunlockput lr ip) (\<lambda>_. fail_put lr lw dp)
     else
       bind (writei lr dp (replicate 16 0) off 16) (\<lambda>r.
       bind (panic_if (r \<noteq> 16) ''unlink: writei'') (\<lambda>_.
       bind (gets (\<lambda>s. i_type (icache s ip))) (\<lambda>ty.
       bind (when_do (ty = T_DIR)
         (bind (upd_inode dp (\<lambda>d. d\<lparr>i_nlink := i_nlink d - 1\<rparr>)) (\<lambda>_.
          iupdate lr dp))) (\<lambda>_.
       bind (iunlockput lr dp) (\<lambda>_.
       bind (upd_inode ip (\<lambda>i. i\<lparr>i_nlink := i_nlink i - 1\<rparr>)) (\<lambda>_.
       bind (iupdate lr ip) (\<lambda>_.
       bind (iunlockput lr ip) (\<lambda>_.
       bind (end_op lr lw) (\<lambda>_.
       ret 0))))))))))))"

definition sys_unlink :: "(nat \<Rightarrow> unit kM) \<Rightarrow> (nat \<Rightarrow> unit kM) \<Rightarrow> int kM" where
  "sys_unlink lr lw =
     bind (argstr 0) (\<lambda>r.
     case r of
       None \<Rightarrow> ret (-1)
     | Some path \<Rightarrow>
         bind begin_op (\<lambda>_.
         bind (nameiparent lr path name0) (\<lambda>(r, name).
         case r of
           None \<Rightarrow> fail_op lr lw
         | Some dp \<Rightarrow>
             bind (ilock lr (Some dp)) (\<lambda>_.
             if namecmp name [46, 0] = 0 \<or> namecmp name [46, 46, 0] = 0 then fail_put lr lw dp
             else
               bind (dirlookup lr dp name) (\<lambda>r.
               case r of
                 None \<Rightarrow> fail_put lr lw dp
               | Some (ip, off) \<Rightarrow>
                   bind (ilock lr (Some ip)) (\<lambda>_.
                   unlink_entry lr lw dp ip off))))))"

subsection \<open>Creating and opening\<close>

text \<open>The new inode, initialised and entered into its directory.\<close>

definition create_new :: "(nat \<Rightarrow> unit kM) \<Rightarrow> nat \<Rightarrow> u8 list \<Rightarrow> u16 \<Rightarrow> u16 \<Rightarrow> u16 \<Rightarrow> nat option kM" where
  "create_new lr dp name ty major minor =
     bind (gets (\<lambda>s. i_dev (icache s dp))) (\<lambda>dev.
     bind (ialloc lr dev ty) (\<lambda>ip.
     bind (ilock lr (Some ip)) (\<lambda>_.
     bind (upd_inode ip (\<lambda>i. i\<lparr>i_major := major, i_minor := minor, i_nlink := 1\<rparr>)) (\<lambda>_.
     bind (iupdate lr ip) (\<lambda>_.
     bind (gets (\<lambda>s. (i_inum (icache s ip), i_inum (icache s dp)))) (\<lambda>(inum, dinum).
     bind (when_do (ty = T_DIR)
       (bind (upd_inode dp (\<lambda>d. d\<lparr>i_nlink := i_nlink d + 1\<rparr>)) (\<lambda>_.
        bind (iupdate lr dp) (\<lambda>_.
        bind (dirlink lr ip [46, 0] inum) (\<lambda>r.
        if r < 0 then panic ''create dots''
        else
          bind (dirlink lr ip [46, 46, 0] dinum) (\<lambda>r.
          panic_if (r < 0) ''create dots'')))))) (\<lambda>_.
     bind (dirlink lr dp name inum) (\<lambda>r.
     bind (panic_if (r < 0) ''create: dirlink'') (\<lambda>_.
     bind (iunlockput lr dp) (\<lambda>_.
     ret (Some ip)))))))))))"

definition create :: "(nat \<Rightarrow> unit kM) \<Rightarrow> u8 list \<Rightarrow> u16 \<Rightarrow> u16 \<Rightarrow> u16 \<Rightarrow> nat option kM" where
  "create lr path ty major minor =
     bind (nameiparent lr path name0) (\<lambda>(r, name).
     case r of
       None \<Rightarrow> ret None
     | Some dp \<Rightarrow>
         bind (ilock lr (Some dp)) (\<lambda>_.
         bind (dirlookup lr dp name) (\<lambda>r.
         case r of
           Some (ip, _) \<Rightarrow>
             bind (iunlockput lr dp) (\<lambda>_.
             bind (ilock lr (Some ip)) (\<lambda>_.
             bind (gets (\<lambda>s. i_type (icache s ip))) (\<lambda>ity.
             if ty = T_FILE \<and> ity = T_FILE then ret (Some ip)
             else bind (iunlockput lr ip) (\<lambda>_. ret None))))
         | None \<Rightarrow> create_new lr dp name ty major minor)))"

text \<open>The end of \<^verbatim>\<open>sys_open\<close>, with the inode locked.\<close>

definition open_file :: "(nat \<Rightarrow> unit kM) \<Rightarrow> (nat \<Rightarrow> unit kM) \<Rightarrow> nat \<Rightarrow> u32 \<Rightarrow> int kM" where
  "open_file lr lw ip omode =
     bind filealloc (\<lambda>r.
     case r of
       None \<Rightarrow> fail_put lr lw ip
     | Some f \<Rightarrow>
         bind (fdalloc f) (\<lambda>r.
         case r of
           None \<Rightarrow> bind (fileclose lr lw f) (\<lambda>_. fail_put lr lw ip)
         | Some fd \<Rightarrow>
             bind (iunlock (Some ip)) (\<lambda>_.
             bind (end_op lr lw) (\<lambda>_.
             bind (upd_file f (\<lambda>x. x\<lparr>f_type := FD_INODE, f_ip := Some ip, f_off := 0,
                     f_readable := (omode AND O_WRONLY = 0),
                     f_writable := (omode AND O_WRONLY \<noteq> 0 \<or> omode AND O_RDWR \<noteq> 0)\<rparr>)) (\<lambda>_.
             ret (int fd))))))"

definition sys_open :: "(nat \<Rightarrow> unit kM) \<Rightarrow> (nat \<Rightarrow> unit kM) \<Rightarrow> int kM" where
  "sys_open lr lw =
     bind (argstr 0) (\<lambda>r.
     case r of
       None \<Rightarrow> ret (-1)
     | Some path \<Rightarrow>
         bind (argint 1) (\<lambda>r.
         case r of
           None \<Rightarrow> ret (-1)
         | Some omode \<Rightarrow>
             bind begin_op (\<lambda>_.
             if omode AND O_CREATE \<noteq> 0 then
               bind (create lr path T_FILE 0 0) (\<lambda>r.
               case r of None \<Rightarrow> fail_op lr lw | Some ip \<Rightarrow> open_file lr lw ip omode)
             else
               bind (namei lr path) (\<lambda>r.
               case r of
                 None \<Rightarrow> fail_op lr lw
               | Some ip \<Rightarrow>
                   bind (ilock lr (Some ip)) (\<lambda>_.
                   bind (gets (\<lambda>s. i_type (icache s ip))) (\<lambda>ty.
                   if ty = T_DIR \<and> omode \<noteq> O_RDONLY then fail_put lr lw ip
                   else open_file lr lw ip omode))))))"

text \<open>The common end of \<^verbatim>\<open>sys_mkdir\<close> and \<^verbatim>\<open>sys_mknod\<close>.\<close>

definition made :: "(nat \<Rightarrow> unit kM) \<Rightarrow> (nat \<Rightarrow> unit kM) \<Rightarrow> nat option \<Rightarrow> int kM" where
  "made lr lw r =
     (case r of
        None \<Rightarrow> fail_op lr lw
      | Some ip \<Rightarrow>
          bind (iunlockput lr ip) (\<lambda>_.
          bind (end_op lr lw) (\<lambda>_.
          ret 0)))"

definition sys_mkdir :: "(nat \<Rightarrow> unit kM) \<Rightarrow> (nat \<Rightarrow> unit kM) \<Rightarrow> int kM" where
  "sys_mkdir lr lw =
     bind begin_op (\<lambda>_.
     bind (argstr 0) (\<lambda>r.
     case r of
       None \<Rightarrow> fail_op lr lw
     | Some path \<Rightarrow> bind (create lr path T_DIR 0 0) (made lr lw)))"

definition sys_mknod :: "(nat \<Rightarrow> unit kM) \<Rightarrow> (nat \<Rightarrow> unit kM) \<Rightarrow> int kM" where
  "sys_mknod lr lw =
     bind begin_op (\<lambda>_.
     bind (argstr 0) (\<lambda>r.
     case r of
       None \<Rightarrow> fail_op lr lw
     | Some path \<Rightarrow>
         bind (argint 1) (\<lambda>r.
         case r of
           None \<Rightarrow> fail_op lr lw
         | Some major \<Rightarrow>
             bind (argint 2) (\<lambda>r.
             case r of
               None \<Rightarrow> fail_op lr lw
             | Some minor \<Rightarrow> bind (create lr path T_DEV (ucast major) (ucast minor)) (made lr lw)))))"

definition sys_chdir :: "(nat \<Rightarrow> unit kM) \<Rightarrow> (nat \<Rightarrow> unit kM) \<Rightarrow> int kM" where
  "sys_chdir lr lw =
     bind myproc (\<lambda>me.
     bind begin_op (\<lambda>_.
     bind (argstr 0) (\<lambda>r.
     case r of
       None \<Rightarrow> fail_op lr lw
     | Some path \<Rightarrow>
         bind (namei lr path) (\<lambda>r.
         case r of
           None \<Rightarrow> fail_op lr lw
         | Some ip \<Rightarrow>
             bind (ilock lr (Some ip)) (\<lambda>_.
             bind (gets (\<lambda>s. i_type (icache s ip))) (\<lambda>ty.
             if ty \<noteq> T_DIR then fail_put lr lw ip
             else
               bind (iunlock (Some ip)) (\<lambda>_.
               bind (gets (\<lambda>s. p_cwd (ptable s me))) (\<lambda>cwd.
               bind (deref cwd) (\<lambda>cwd.
               bind (iput lr cwd) (\<lambda>_.
               bind (end_op lr lw) (\<lambda>_.
               bind (upd_proc me (\<lambda>p. p\<lparr>p_cwd := Some ip\<rparr>)) (\<lambda>_.
               ret 0))))))))))))"

definition sys_pipe :: "(nat \<Rightarrow> unit kM) \<Rightarrow> (nat \<Rightarrow> unit kM) \<Rightarrow> int kM" where
  "sys_pipe lr lw =
     bind (argptr 0 8) (\<lambda>r.
     case r of
       None \<Rightarrow> ret (-1)
     | Some fd \<Rightarrow>
         bind (pipealloc lr lw) (\<lambda>r.
         case r of
           None \<Rightarrow> ret (-1)
         | Some (rf, wrf) \<Rightarrow>
             bind (fdalloc rf) (\<lambda>r0.
             bind (case r0 of None \<Rightarrow> ret None | Some _ \<Rightarrow> fdalloc wrf) (\<lambda>r1.
             case (r0, r1) of
               (Some fd0, Some fd1) \<Rightarrow>
                 bind (uwrite fd (bytes32 (of_nat fd0))) (\<lambda>_.
                 bind (uwrite (fd + 4) (bytes32 (of_nat fd1))) (\<lambda>_.
                 ret 0))
             | _ \<Rightarrow>
                 bind (case r0 of None \<Rightarrow> ret () | Some fd0 \<Rightarrow> set_ofile fd0 None) (\<lambda>_.
                 bind (fileclose lr lw rf) (\<lambda>_.
                 bind (fileclose lr lw wrf) (\<lambda>_.
                 ret (-1))))))))"

end
