(* ===== verification/Sys_Mount.thy ===== *)
theory Sys_Mount
  imports Sysfile
begin

text \<open>
  Mounting and unmounting (\<^verbatim>\<open>sys_mount\<close> and \<^verbatim>\<open>sys_umount\<close> of \<^verbatim>\<open>sysmount.c\<close>), and the list of active mounts
  as a list: the operations on the linked entries look up, add and remove elements of it.
\<close>

subsection \<open>System calls\<close>

text \<open>Entering a new entry at the head of the list.\<close>

definition mnt_push :: "nat \<Rightarrow> u32 \<Rightarrow> nat \<Rightarrow> unit kM" where
  "mnt_push m devno mnti =
     bind (upd_mnt m (\<lambda>e. e\<lparr>m_devno := devno\<rparr>)) (\<lambda>_.
     bind (idup mnti) (\<lambda>ip.
     bind (upd_mnt m (\<lambda>e. e\<lparr>m_mnti := Some ip\<rparr>)) (\<lambda>_.
     bind (gets pmntlist) (\<lambda>l.
     bind (upd_mnt m (\<lambda>e. e\<lparr>m_next := l\<rparr>)) (\<lambda>_.
     modify (\<lambda>s. s\<lparr>pmntlist := Some m\<rparr>))))))"

definition mount_fail :: "(nat \<Rightarrow> unit kM) \<Rightarrow> (nat \<Rightarrow> unit kM) \<Rightarrow> nat \<Rightarrow> nat \<Rightarrow> int kM" where
  "mount_fail lr lw mnti devi =
     bind (iunlockput lr mnti) (\<lambda>_.
     fail_put lr lw devi)"

definition sys_mount :: "(nat \<Rightarrow> unit kM) \<Rightarrow> (nat \<Rightarrow> unit kM) \<Rightarrow> int kM" where
  "sys_mount lr lw =
     bind (argstr 0) (\<lambda>r.
     case r of None \<Rightarrow> ret (-1) | Some dev_path \<Rightarrow>
     bind (argstr 1) (\<lambda>r.
     case r of None \<Rightarrow> ret (-1) | Some mntpnt_path \<Rightarrow>
     bind begin_op (\<lambda>_.
     bind (namei lr mntpnt_path) (\<lambda>mnti'.
     bind (namei lr dev_path) (\<lambda>devi'.
     case mnti' of None \<Rightarrow> panic ''[sys_mount] mountpoint doesn't exist'' | Some mnti \<Rightarrow>
     (case devi' of None \<Rightarrow> panic ''[sys_mount] loop device doesn't exist'' | Some devi \<Rightarrow>
     bind (ilock lr (Some mnti)) (\<lambda>_.
     bind (ilock lr (Some devi)) (\<lambda>_.
     bind (gets (\<lambda>s. (i_inum (icache s mnti), i_type (icache s devi)))) (\<lambda>(inum, ty).
     if inum = ROOTINO then mount_fail lr lw mnti devi
     else if ty \<noteq> T_FILE then mount_fail lr lw mnti devi
     else
       bind (getorcreatedev devi) (\<lambda>devno.
       bind (modify (\<lambda>s. s\<lparr>is_loop_mounted := True\<rparr>)) (\<lambda>_.
       bind mntalloc (\<lambda>m.
       bind (mnt_push m devno mnti) (\<lambda>_.
       bind (mntput m) (\<lambda>_.
       bind (iunlockput lr mnti) (\<lambda>_.
       bind (iunlockput lr devi) (\<lambda>_.
       bind (end_op lr lw) (\<lambda>_.
       ret 0)))))))))))))))))"

text \<open>The second walk of \<^verbatim>\<open>sys_umount\<close>: \<open>pre\<close> is \<open>None\<close> for the address of the list head and \<open>Some i\<close> for
  that of entry \<open>i\<close>'s \<^verbatim>\<open>next\<close>.\<close>

definition set_pre :: "nat option \<Rightarrow> nat option \<Rightarrow> unit kM" where
  "set_pre pre n =
     (case pre of
        None \<Rightarrow> modify (\<lambda>s. s\<lparr>pmntlist := n\<rparr>)
      | Some i \<Rightarrow> upd_mnt i (\<lambda>e. e\<lparr>m_next := n\<rparr>))"

primrec mnt_unlink :: "nat \<Rightarrow> nat \<Rightarrow> nat option \<Rightarrow> nat option \<Rightarrow> unit kM" where
  "mnt_unlink 0 m pre cur = fault ''mount list does not end''"
| "mnt_unlink (Suc k) m pre cur =
     (case cur of
        None \<Rightarrow> panic ''[mntlookup] mnt entry is not in active mount list''
      | Some c \<Rightarrow>
          bind (gets (\<lambda>s. m_next (gmnttable s c))) (\<lambda>n.
          if c = m then set_pre pre n else mnt_unlink k m (Some c) n))"

text \<open>The part of \<^verbatim>\<open>sys_umount\<close> under \<^verbatim>\<open>gmnt.lock\<close>: the entry removed, or a reason not to.\<close>

definition umount_entry :: "u32 \<Rightarrow> nat option kM" where
  "umount_entry dev =
     bind (acquire Lk_gmnt) (\<lambda>_.
     bind (gets pmntlist) (\<lambda>l.
     bind (mnt_find (NMNT + 1) (\<lambda>e. m_devno e = dev) l) (\<lambda>r.
     case r of
       None \<Rightarrow> bind (release Lk_gmnt) (\<lambda>_. ret None)
     | Some m \<Rightarrow>
         bind (gets (\<lambda>s. m_refcnt (gmnttable s m))) (\<lambda>n.
         if 1 < n then bind (release Lk_gmnt) (\<lambda>_. ret None)
         else
           bind (mnt_unlink (NMNT + 1) m None l) (\<lambda>_.
           bind (release Lk_gmnt) (\<lambda>_.
           ret (Some m)))))))"

definition sys_umount :: "(nat \<Rightarrow> unit kM) \<Rightarrow> (nat \<Rightarrow> unit kM) \<Rightarrow> int kM" where
  "sys_umount lr lw =
     bind (argstr 0) (\<lambda>r.
     case r of None \<Rightarrow> ret (-1) | Some mntpnt_path \<Rightarrow>
     bind begin_op (\<lambda>_.
     bind (namei lr mntpnt_path) (\<lambda>mnti'.
     case mnti' of None \<Rightarrow> panic ''[sys_mount] mountpoint doesn't exist'' | Some mnti \<Rightarrow>
     bind (ilock lr (Some mnti)) (\<lambda>_.
     bind (gets (\<lambda>s. (i_dev (icache s mnti), i_inum (icache s mnti)))) (\<lambda>(dev, inum).
     if dev = ROOTDEV then bind (iunlock (Some mnti)) (\<lambda>_. fail_op lr lw)
     else if inum \<noteq> ROOTINO then bind (iunlock (Some mnti)) (\<lambda>_. fail_op lr lw)
     else
       bind (iunlock (Some mnti)) (\<lambda>_.
       bind (umount_entry dev) (\<lambda>r.
       case r of None \<Rightarrow> fail_op lr lw | Some cur \<Rightarrow>
       bind (gets (\<lambda>s. m_devno (gmnttable s cur))) (\<lambda>devno.
       bind (devput devno) (\<lambda>_.
       bind (upd_mnt cur (\<lambda>e. e\<lparr>m_devno := 0, m_mnti := None, m_next := None, m_refcnt := 0\<rparr>)) (\<lambda>_.
       bind (modify (\<lambda>s. s\<lparr>is_loop_mounted := False\<rparr>)) (\<lambda>_.
       bind (getlloopdevi 0) (\<lambda>devi'.
       bind (deref devi') (\<lambda>devi.
       bind (iput lr devi) (\<lambda>_.
       bind (iput lr mnti) (\<lambda>_.
       bind (end_op lr lw) (\<lambda>_.
       ret 0))))))))))))))))"

subsection \<open>The list of active mounts\<close>

primrec mchain :: "(nat \<Rightarrow> mntent) \<Rightarrow> nat option \<Rightarrow> nat list \<Rightarrow> bool" where
  "mchain tab p [] \<longleftrightarrow> p = None"
| "mchain tab p (m # ms) \<longleftrightarrow> p = Some m \<and> mchain tab (m_next (tab m)) ms"

definition mounts_ok :: "kstate \<Rightarrow> nat list \<Rightarrow> bool" where
  "mounts_ok s ms \<longleftrightarrow> mchain (gmnttable s) (pmntlist s) ms \<and> distinct ms \<and> set ms \<subseteq> {..<NMNT}
   \<and> (\<forall>m\<in>set ms. m_refcnt (gmnttable s m) \<noteq> 0) \<and> Lk_gmnt \<notin> set (held s)"

lemma mounts_ok_length: "mounts_ok s ms \<Longrightarrow> length ms \<le> NMNT"
  using card_mono [of "{..<NMNT}" "set ms"] by (auto simp: mounts_ok_def distinct_card)

lemma mchain_cong: "(\<And>m. m \<in> set ms \<Longrightarrow> m_next (tab m) = m_next (tab' m)) \<Longrightarrow> mchain tab p ms \<longleftrightarrow> mchain tab' p ms"
  by (induction ms arbitrary: p) auto

lemma mnt_find_run:
  assumes "mchain (gmnttable s) p ms" and "\<forall>m\<in>set ms. m_refcnt (gmnttable s m) \<noteq> 0" and "length ms < k"
  shows "mnt_find k P p s = Ret (find (\<lambda>m. P (gmnttable s m)) ms) s"
  using assms
proof (induction ms arbitrary: p k)
  case Nil
  then show ?case by (cases k) auto
next
  case (Cons m ms)
  then show ?case by (cases k) auto
qed

text \<open>The walk with the chain split at its position: \<open>us\<close> behind it, \<open>ms\<close> before it.\<close>

definition after :: "nat list \<Rightarrow> nat option" where
  "after us = (if us = [] then None else Some (last us))"

lemma after_snoc [simp]: "after (us @ [c]) = Some c" "after [] = None"
  by (simp_all add: after_def)

lemma mchain_redirect:
  assumes "mchain tab p (us @ m # ms)" and "distinct (us @ m # ms)" and "us \<noteq> []"
  shows "mchain (tab(last us := (tab (last us))\<lparr>m_next := m_next (tab m)\<rparr>)) p (us @ ms)"
  using assms
proof (induction us arbitrary: p)
  case (Cons u us)
  show ?case
  proof (cases "us = []")
    case True
    have "mchain (tab(u := (tab u)\<lparr>m_next := m_next (tab m)\<rparr>)) (m_next (tab m)) ms
        \<longleftrightarrow> mchain tab (m_next (tab m)) ms" using Cons.prems(2) by (intro mchain_cong) auto
    with True Cons.prems(1) show ?thesis by (simp add: fun_upd_def)
  next
    case False
    with Cons show ?thesis by auto
  qed
qed simp

definition relinked :: "kstate \<Rightarrow> kstate \<Rightarrow> bool" where
  "relinked s t \<longleftrightarrow> held t = held s \<and> (\<forall>m. (gmnttable t m)\<lparr>m_next := m_next (gmnttable s m)\<rparr> = gmnttable s m)"

lemma mnt_unlink_run:
  assumes "mchain (gmnttable s) (pmntlist s) (us @ ms)" and "distinct (us @ ms)"
    and "mchain (gmnttable s) cur ms" and "m \<in> set ms" and "length ms \<le> k"
  shows "\<exists>t. mnt_unlink k m (after us) cur s = Ret () t \<and> relinked s t
     \<and> mchain (gmnttable t) (pmntlist t) (us @ remove1 m ms)"
  using assms
proof (induction ms arbitrary: us cur k)
  case (Cons c ms)
  then obtain k' where k: "k = Suc k'" by (cases k) auto
  show ?case
  proof (cases "c = m")
    case True
    let ?n = "m_next (gmnttable s m)"
    show ?thesis
    proof (cases "us = []")
      case True
      then show ?thesis using Cons.prems \<open>c = m\<close> by (auto simp: k set_pre_def relinked_def after_def)
    next
      case False
      have "mchain ((gmnttable s)(last us := (gmnttable s (last us))\<lparr>m_next := ?n\<rparr>)) (pmntlist s) (us @ ms)"
        using Cons.prems(1,2) False \<open>c = m\<close> by (intro mchain_redirect) auto
      then show ?thesis using Cons.prems(3) False \<open>c = m\<close>
        by (auto simp: k set_pre_def relinked_def after_def)
    qed
  next
    case False
    then have "\<exists>t. mnt_unlink k' m (after (us @ [c])) (m_next (gmnttable s c)) s = Ret () t \<and> relinked s t
        \<and> mchain (gmnttable t) (pmntlist t) ((us @ [c]) @ remove1 m ms)"
      using Cons.prems k by (intro Cons.IH) auto
    then show ?thesis using Cons.prems(3) False by (simp add: k)
  qed
qed simp

lemma held_twice: "(s\<lparr>held := h\<rparr>)\<lparr>held := held s\<rparr> = s"
  by simp

lemma umount_entry_run:
  assumes ok: "mounts_ok s ms"
  shows "case find (\<lambda>m. m_devno (gmnttable s m) = dev) ms of
       None \<Rightarrow> umount_entry dev s = Ret None s
     | Some m \<Rightarrow> if 1 < m_refcnt (gmnttable s m) then umount_entry dev s = Ret None s
         else \<exists>t. umount_entry dev s = Ret (Some m) t \<and> mounts_ok t (remove1 m ms) \<and> relinked s t"
proof -
  let ?s = "s\<lparr>held := Lk_gmnt # held s\<rparr>"
  have len: "length ms < NMNT + 1" using mounts_ok_length [OF ok] by simp
  have ch: "mchain (gmnttable ?s) (pmntlist s) ms" "\<forall>m\<in>set ms. m_refcnt (gmnttable ?s m) \<noteq> 0" and h: "Lk_gmnt \<notin> set (held s)"
    using ok by (auto simp: mounts_ok_def)
  note F = mnt_find_run [OF ch len, of "\<lambda>e. m_devno e = dev"]
  show ?thesis
  proof (cases "find (\<lambda>m. m_devno (gmnttable s m) = dev) ms")
    case None
    then show ?thesis using F h by (simp add: umount_entry_def)
  next
    case (Some m)
    then have m: "m \<in> set ms" by (auto simp: find_Some_iff)
    show ?thesis
    proof (cases "1 < m_refcnt (gmnttable s m)")
      case True
      then show ?thesis using F h Some by (simp add: umount_entry_def)
    next
      case False
      have "distinct ([] @ ms)" "mchain (gmnttable ?s) (pmntlist ?s) ([] @ ms)" using ok by (simp_all add: mounts_ok_def)
      from mnt_unlink_run [OF this(2,1) ch(1) m, of "NMNT + 1"] len obtain t where
        t: "mnt_unlink (NMNT + 1) m None (pmntlist s) ?s = Ret () t" "relinked ?s t" "mchain (gmnttable t) (pmntlist t) (remove1 m ms)"
        by auto
      let ?t = "t\<lparr>held := held s\<rparr>"
      have "m_refcnt (gmnttable t i) = m_refcnt (gmnttable s i)" for i
        using t(2) by (auto simp: relinked_def dest!: spec [of _ i] arg_cong [of _ _ m_refcnt])
      then have "mounts_ok ?t (remove1 m ms)" "relinked s ?t"
        using t(2,3) ok set_remove1_subset [of m ms] by (auto simp: mounts_ok_def relinked_def)
      moreover have "umount_entry dev s = Ret (Some m) ?t"
        using F h Some False t(1,2) by (simp add: umount_entry_def relinked_def)
      ultimately show ?thesis using Some False by auto
    qed
  qed
qed

lemma mnt_push_run:
  assumes ok: "mounts_ok s ms" and m: "m < NMNT" "m \<notin> set ms" "m_refcnt (gmnttable s m) \<noteq> 0" and h: "Lk_icache \<notin> set (held s)"
  shows "\<exists>t. mnt_push m devno ip s = Ret () t \<and> mounts_ok t (m # ms)
     \<and> m_devno (gmnttable t m) = devno \<and> m_mnti (gmnttable t m) = Some ip \<and> i_ref (icache t ip) = i_ref (icache s ip) + 1"
proof -
  have "mchain ((gmnttable s)(m := e)) p ms \<longleftrightarrow> mchain (gmnttable s) p ms" for e p
    using m(2) by (intro mchain_cong) auto
  then show ?thesis using assms by (auto simp: mnt_push_def idup_def mounts_ok_def)
qed

text \<open>
  Property (C7). The linked entries of the mount table implement a list of active mounts. Looking a mount point up
  finds the entry mounted last on it and takes a reference; unmounting a device removes its entry and
  nothing else, unless the entry is in use; mounting adds an entry at the front. The walks always end:
  the list has no cycle, and this is kept.
\<close>

theorem mount_table_refines_list:
  assumes ok: "mounts_ok s ms" and new: "m < NMNT" "m \<notin> set ms" "m_refcnt (gmnttable s m) \<noteq> 0"
    and h: "Lk_icache \<notin> set (held s)"
  shows "mntlookup ip s = (case find (\<lambda>i. m_mnti (gmnttable s i) = Some ip) ms of
       None \<Rightarrow> Ret None s
     | Some i \<Rightarrow> Ret (Some i) (s\<lparr>gmnttable := (gmnttable s)(i := (gmnttable s i)\<lparr>m_refcnt := m_refcnt (gmnttable s i) + 1\<rparr>)\<rparr>))
   \<and> (case find (\<lambda>i. m_devno (gmnttable s i) = dev) ms of
       None \<Rightarrow> umount_entry dev s = Ret None s
     | Some i \<Rightarrow> if 1 < m_refcnt (gmnttable s i) then umount_entry dev s = Ret None s
         else \<exists>t. umount_entry dev s = Ret (Some i) t \<and> mounts_ok t (remove1 i ms) \<and> relinked s t)
   \<and> (\<exists>t. mnt_push m dev ip s = Ret () t \<and> mounts_ok t (m # ms)
         \<and> m_devno (gmnttable t m) = dev \<and> m_mnti (gmnttable t m) = Some ip)"
proof (intro conjI)
  let ?s = "s\<lparr>held := Lk_gmnt # held s\<rparr>"
  have len: "length ms < NMNT + 1" using mounts_ok_length [OF ok] by simp
  have ch: "mchain (gmnttable ?s) (pmntlist s) ms" "\<forall>m\<in>set ms. m_refcnt (gmnttable ?s m) \<noteq> 0" and hm: "Lk_gmnt \<notin> set (held s)"
    using ok by (auto simp: mounts_ok_def)
  show "mntlookup ip s = (case find (\<lambda>i. m_mnti (gmnttable s i) = Some ip) ms of
       None \<Rightarrow> Ret None s
     | Some i \<Rightarrow> Ret (Some i) (s\<lparr>gmnttable := (gmnttable s)(i := (gmnttable s i)\<lparr>m_refcnt := m_refcnt (gmnttable s i) + 1\<rparr>)\<rparr>))"
    using mnt_find_run [OF ch len, of "\<lambda>e. m_mnti e = Some ip"] hm
    by (simp add: mntlookup_def mntdup_def split: option.split)
qed (use umount_entry_run [OF ok] mnt_push_run [OF ok new h] in blast)+

definition mnt_demo :: kstate where
  "mnt_demo = (kstate0 (\<lambda>_ _. []))\<lparr>gmnttable := (\<lambda>_. mntent0\<lparr>m_devno := 0x80, m_refcnt := 1\<rparr>), pmntlist := Some 0\<rparr>"

theorem mount_table_refines_list_witness:
  "\<exists>t. umount_entry 0x80 mnt_demo = Ret (Some 0) t \<and> mounts_ok t []"
proof -
  have "mounts_ok mnt_demo [0]" by (simp add: mounts_ok_def mnt_demo_def mntent0_def kstate0_def)
  from mount_table_refines_list [OF this, of 1 5 "0x80"] show ?thesis
    by (simp add: mnt_demo_def kstate0_def) blast
qed

end
