(* ===== verification/Namespaces.thy ===== *)
theory Namespaces
  imports Syscall_Args
begin

text \<open>
  Namespaces (\<^verbatim>\<open>namespace.c\<close>, \<^verbatim>\<open>pid_namespace.c\<close>, \<^verbatim>\<open>sysnamespace.c\<close>) and the pids of a process, one for
  each level of nesting (\<^verbatim>\<open>get_namespace_pid\<close>, \<^verbatim>\<open>set_up_pids\<close> and others of \<^verbatim>\<open>proc.c\<close>). Both tables hold
  reference-counted slots; a pointer to a slot is its index.
\<close>

subsection \<open>Pid namespaces\<close>

definition set_pid_namespace :: "nat \<Rightarrow> int \<Rightarrow> nat option \<Rightarrow> int \<Rightarrow> int \<Rightarrow> bool \<Rightarrow> unit kM" where
  "set_pid_namespace ns count parent next_pid depth is_pid_1_killed =
     upd_pid_ns ns (\<lambda>n. n\<lparr>pn_count := count, pn_parent := parent, pn_next_pid := next_pid, pn_depth := depth,
       pn_is_pid_1_killed := is_pid_1_killed\<rparr>)"

primrec init_pid_namespaces_from :: "nat \<Rightarrow> unit kM" where
  "init_pid_namespaces_from 0 = ret ()"
| "init_pid_namespaces_from (Suc k) =
     bind (set_pid_namespace (NNAMESPACE - Suc k) 0 None 0 0 False) (\<lambda>_.
     init_pid_namespaces_from k)"

definition init_pid_namespaces :: "unit kM" where
  "init_pid_namespaces = init_pid_namespaces_from NNAMESPACE"

definition check_is_pid_namespace_legal :: "nat \<Rightarrow> bool kM" where
  "check_is_pid_namespace_legal ns = gets (\<lambda>s. pn_depth (pid_ns_table s ns) < int PID_NAMESPACE_MAX_DEPTH)"

definition increase_pid_namespace_count :: "nat \<Rightarrow> nat kM" where
  "increase_pid_namespace_count ns =
     bind (acquire Lk_pid_ns_table) (\<lambda>_.
     bind (upd_pid_ns ns (\<lambda>n. n\<lparr>pn_count := pn_count n + 1\<rparr>)) (\<lambda>_.
     bind (release Lk_pid_ns_table) (\<lambda>_.
     ret ns)))"

definition remove_from_pid_namespace :: "nat \<Rightarrow> unit kM" where
  "remove_from_pid_namespace ns =
     bind (acquire Lk_pid_ns_table) (\<lambda>_.
     bind (upd_pid_ns ns (\<lambda>n. n\<lparr>pn_count := pn_count n - 1\<rparr>)) (\<lambda>_.
     bind (gets (\<lambda>s. pn_count (pid_ns_table s ns))) (\<lambda>c.
     if c < 0 then
       bind (upd_pid_ns ns (\<lambda>n. n\<lparr>pn_count := pn_count n + 1\<rparr>)) (\<lambda>_.
       panic ''remove_from_pid_namespace: this pid_namespace is never used'')
     else release Lk_pid_ns_table)))"

definition create_new_pid_namespace :: "nat option \<Rightarrow> nat kM" where
  "create_new_pid_namespace parent =
     bind (acquire Lk_pid_ns_table) (\<lambda>_.
     bind (gets pid_ns_table) (\<lambda>tab.
     case find (\<lambda>i. pn_count (tab i) = 0) [0..<NNAMESPACE] of
       Some ns \<Rightarrow>
         bind (set_pid_namespace ns 1 parent 1
                 (case parent of None \<Rightarrow> 1 | Some p \<Rightarrow> pn_depth (tab p) + 1) False) (\<lambda>_.
         bind (release Lk_pid_ns_table) (\<lambda>_.
         ret ns))
     | None \<Rightarrow>
         bind (release Lk_pid_ns_table) (\<lambda>_.
         panic ''all pid_namespaces are occupied'')))"

definition alloc_new_pid :: "nat \<Rightarrow> int kM" where
  "alloc_new_pid ns =
     bind (acquire (Lk_pid_ns ns)) (\<lambda>_.
     bind (gets (\<lambda>s. pn_next_pid (pid_ns_table s ns))) (\<lambda>next_pid.
     bind (upd_pid_ns ns (\<lambda>n. n\<lparr>pn_next_pid := pn_next_pid n + 1\<rparr>)) (\<lambda>_.
     bind (release (Lk_pid_ns ns)) (\<lambda>_.
     ret next_pid))))"

subsection \<open>Namespace proxies\<close>

definition ns_init :: "unit kM" where
  "ns_init = init_pid_namespaces"

definition create_nsproxy :: "nat option \<Rightarrow> bool \<Rightarrow> nat kM" where
  "create_nsproxy pid_namespace is_lock_required =
     bind (when_do is_lock_required (acquire Lk_nstable)) (\<lambda>_.
     bind (gets nstable) (\<lambda>tab.
     case find (\<lambda>i. ns_count (tab i) = 0) [0..<NNAMESPACE] of
       None \<Rightarrow> panic ''namespace out of max!''
     | Some i \<Rightarrow>
         bind (upd_ns i (\<lambda>n. n\<lparr>ns_count := 1\<rparr>)) (\<lambda>_.
         bind (case pid_namespace of
                 None \<Rightarrow> create_new_pid_namespace None
               | Some ns \<Rightarrow> increase_pid_namespace_count ns) (\<lambda>ns.
         bind (upd_ns i (\<lambda>n. n\<lparr>ns_pid_ns := Some ns\<rparr>)) (\<lambda>_.
         bind (when_do is_lock_required (release Lk_nstable)) (\<lambda>_.
         ret i))))))"

definition free_nsproxy :: "nat \<Rightarrow> unit kM" where
  "free_nsproxy i = bind (acquire Lk_nstable) (\<lambda>_. release Lk_nstable)"

definition put_nsproxy :: "nat \<Rightarrow> unit kM" where
  "put_nsproxy i =
     bind (acquire Lk_nstable) (\<lambda>_.
     bind (upd_ns i (\<lambda>n. n\<lparr>ns_count := ns_count n - 1\<rparr>)) (\<lambda>_.
     bind (gets (\<lambda>s. nstable s i)) (\<lambda>n.
     bind (when_do (ns_count n = 0)
       (bind (deref (ns_pid_ns n)) (\<lambda>ns.
        bind (remove_from_pid_namespace ns) (\<lambda>_.
        upd_ns i (\<lambda>n. n\<lparr>ns_pid_ns := None\<rparr>))))) (\<lambda>_.
     release Lk_nstable))))"

definition get_nsproxy :: "nat \<Rightarrow> unit kM" where
  "get_nsproxy i =
     bind (acquire Lk_nstable) (\<lambda>_.
     bind (upd_ns i (\<lambda>n. n\<lparr>ns_count := ns_count n + 1\<rparr>)) (\<lambda>_.
     release Lk_nstable))"

text \<open>The expression \<^verbatim>\<open>p->nsproxy->pid_ns\<close>, which the code uses as a pointer without a check.\<close>

definition proc_pid_ns :: "nat \<Rightarrow> nat option kM" where
  "proc_pid_ns p =
     bind (gets (\<lambda>s. p_nsproxy (ptable s p))) (\<lambda>n.
     bind (deref n) (\<lambda>n.
     gets (\<lambda>s. ns_pid_ns (nstable s n))))"

abbreviation (input) PID_NS :: u32 where "PID_NS \<equiv> 1"

definition unshare :: "u32 \<Rightarrow> int kM" where
  "unshare flags =
     bind (acquire Lk_nstable) (\<lambda>_.
     bind myproc (\<lambda>p.
     bind (gets (\<lambda>s. p_nsproxy (ptable s p))) (\<lambda>r.
     bind (deref r) (\<lambda>old_ns.
     bind (gets (\<lambda>s. nstable s old_ns)) (\<lambda>n.
     bind (panic_if (ns_count n < 1) ''assert fails. namespace.c: 86'') (\<lambda>_.
     bind (create_nsproxy (ns_pid_ns n) False) (\<lambda>new_ns.
     bind (upd_proc p (\<lambda>q. q\<lparr>p_nsproxy := Some new_ns\<rparr>)) (\<lambda>_.
     bind (release Lk_nstable) (\<lambda>_.
     bind (put_nsproxy old_ns) (\<lambda>_.
     if 0 < sint (flags AND PID_NS) then
       bind (gets (\<lambda>s. p_child_pid_namespace (ptable s p))) (\<lambda>c.
       bind (panic_if (c \<noteq> None) ''pid_namespace already unshared'') (\<lambda>_.
       bind (proc_pid_ns p) (\<lambda>ns.
       bind (deref ns) (\<lambda>ns.
       bind (check_is_pid_namespace_legal ns) (\<lambda>legal.
       bind (panic_if (\<not> legal) ''no depth available for new child pid_namespace'') (\<lambda>_.
       bind (create_new_pid_namespace (Some ns)) (\<lambda>child.
       bind (upd_proc p (\<lambda>q. q\<lparr>p_child_pid_namespace := Some child\<rparr>)) (\<lambda>_.
       ret 0))))))))
     else ret 0))))))))))"

definition sys_unshare :: "int kM" where
  "sys_unshare =
     bind (argint 0) (\<lambda>r.
     case r of None \<Rightarrow> ret (-1) | Some nstype \<Rightarrow> unshare nstype)"

subsection \<open>The pids of a process\<close>

definition get_namespace_pid :: "proc \<Rightarrow> nat option \<Rightarrow> int" where
  "get_namespace_pid p ns =
     (case find (\<lambda>i. pe_pid_ns (p_pids p i) = ns) [0..<PID_NAMESPACE_MAX_DEPTH] of
        Some i \<Rightarrow> pe_pid (p_pids p i)
      | None \<Rightarrow> 0)"

definition proc_pid :: "nat \<Rightarrow> int kM" where
  "proc_pid p =
     bind myproc (\<lambda>me.
     bind (proc_pid_ns me) (\<lambda>ns.
     gets (\<lambda>s. get_namespace_pid (ptable s p) ns)))"

definition init_pids0 :: "nat \<Rightarrow> unit kM" where
  "init_pids0 p =
     bind (proc_pid_ns p) (\<lambda>ns.
     upd_proc p (\<lambda>q. q\<lparr>p_pids := (p_pids q)(0 := \<lparr>pe_pid_ns = ns, pe_pid = p_pid q\<rparr>)\<rparr>))"

text \<open>The loop of \<^verbatim>\<open>set_up_pids\<close> with \<open>k\<close> levels left; the result is the value of \<^verbatim>\<open>pid_namespace\<close> after it.\<close>

primrec set_up_pids_from :: "nat \<Rightarrow> nat \<Rightarrow> nat \<Rightarrow> nat option kM" where
  "set_up_pids_from p 0 ns = ret (Some ns)"
| "set_up_pids_from p (Suc k) ns =
     bind (alloc_new_pid ns) (\<lambda>pid.
     bind (upd_proc p (\<lambda>q. q\<lparr>p_pids := (p_pids q)(PID_NAMESPACE_MAX_DEPTH - Suc k := \<lparr>pe_pid_ns = Some ns, pe_pid = pid\<rparr>)\<rparr>)) (\<lambda>_.
     bind (gets (\<lambda>s. pn_parent (pid_ns_table s ns))) (\<lambda>parent.
     case parent of None \<Rightarrow> ret None | Some ns \<Rightarrow> set_up_pids_from p k ns)))"

definition set_up_pids :: "nat \<Rightarrow> nat \<Rightarrow> unit kM" where
  "set_up_pids p ns =
     bind (set_up_pids_from p PID_NAMESPACE_MAX_DEPTH ns) (\<lambda>r.
     panic_if (r \<noteq> None) ''fork: There are too many nested pid_namespaces!'')"

definition set_up_child_pid_namespace :: "nat \<Rightarrow> nat \<Rightarrow> nat option kM" where
  "set_up_child_pid_namespace cur_process new_process =
     bind (gets (\<lambda>s. p_child_pid_namespace (ptable s cur_process))) (\<lambda>c.
     case c of
       Some ns \<Rightarrow>
         bind (create_nsproxy (Some ns) True) (\<lambda>n.
         bind (upd_proc new_process (\<lambda>q. q\<lparr>p_nsproxy := Some n\<rparr>)) (\<lambda>_.
         ret (Some ns)))
     | None \<Rightarrow>
         bind (gets (\<lambda>s. p_nsproxy (ptable s cur_process))) (\<lambda>r.
         bind (deref r) (\<lambda>n.
         bind (get_nsproxy n) (\<lambda>_.
         bind (upd_proc new_process (\<lambda>q. q\<lparr>p_nsproxy := Some n\<rparr>)) (\<lambda>_.
         gets (\<lambda>s. ns_pid_ns (nstable s n)))))))"

subsection \<open>One pid per level\<close>

text \<open>The namespaces from \<open>ns\<close> up to the root.\<close>

primrec ns_path :: "(nat \<Rightarrow> pid_namespace) \<Rightarrow> nat \<Rightarrow> nat list \<Rightarrow> bool" where
  "ns_path tab ns [] \<longleftrightarrow> False"
| "ns_path tab ns (m # ms) \<longleftrightarrow> ns = m \<and> (case pn_parent (tab m) of None \<Rightarrow> ms = [] | Some q \<Rightarrow> ns_path tab q ms)"

lemma ns_path_cong: "(\<And>m. pn_parent (tab m) = pn_parent (tab' m)) \<Longrightarrow> ns_path tab ns l \<longleftrightarrow> ns_path tab' ns l"
  by (induction l arbitrary: ns) (auto split: option.splits)

lemma alloc_new_pid_run:
  "Lk_pid_ns ns \<notin> set (held s) \<Longrightarrow> alloc_new_pid ns s = Ret (pn_next_pid (pid_ns_table s ns))
     (s\<lparr>pid_ns_table := (pid_ns_table s)(ns := (pid_ns_table s ns)\<lparr>pn_next_pid := pn_next_pid (pid_ns_table s ns) + 1\<rparr>)\<rparr>)"
  by (simp add: alloc_new_pid_def)

definition numbered :: "nat \<Rightarrow> nat \<Rightarrow> nat list \<Rightarrow> kstate \<Rightarrow> kstate \<Rightarrow> bool" where
  "numbered p d l s t \<longleftrightarrow>
     (\<forall>j<d. p_pids (ptable t p) j = p_pids (ptable s p) j)
   \<and> (\<forall>i<length l. p_pids (ptable t p) (d + i) = \<lparr>pe_pid_ns = Some (l ! i), pe_pid = pn_next_pid (pid_ns_table s (l ! i))\<rparr>)
   \<and> (\<forall>m. pid_ns_table t m = (if m \<in> set l
          then (pid_ns_table s m)\<lparr>pn_next_pid := pn_next_pid (pid_ns_table s m) + 1\<rparr> else pid_ns_table s m))
   \<and> held t = held s"

lemma set_up_pids_from_run:
  assumes "ns_path (pid_ns_table s) ns l" and "distinct l" and "\<And>m. Lk_pid_ns m \<notin> set (held s)" and "k \<le> 4"
  shows "if length l \<le> k then \<exists>t. set_up_pids_from p k ns s = Ret None t \<and> numbered p (4 - k) l s t
     else \<exists>q t. set_up_pids_from p k ns s = Ret (Some q) t"
  using assms
proof (induction l arbitrary: s ns k)
  case (Cons m ms)
  show ?case
  proof (cases k)
    case (Suc k')
    let ?pid = "pn_next_pid (pid_ns_table s ns)"
    define u where "u = s\<lparr>pid_ns_table := (pid_ns_table s)(ns := (pid_ns_table s ns)\<lparr>pn_next_pid := ?pid + 1\<rparr>),
      ptable := (ptable s)(p := (ptable s p)\<lparr>p_pids := (p_pids (ptable s p))(4 - k := \<lparr>pe_pid_ns = Some ns, pe_pid = ?pid\<rparr>)\<rparr>)\<rparr>"
    have m: "m = ns" using Cons.prems(1) by simp
    have u: "pn_parent (pid_ns_table u ns) = pn_parent (pid_ns_table s ns)" "held u = held s" by (simp_all add: u_def)
    have step: "set_up_pids_from p k ns s =
       (case pn_parent (pid_ns_table s ns) of None \<Rightarrow> ret None | Some q \<Rightarrow> set_up_pids_from p k' q) u"
      using Cons.prems(3) by (simp add: Suc alloc_new_pid_run u_def)
    have one: "numbered p (4 - k) [ns] s u" by (auto simp: numbered_def u_def)
    show ?thesis
    proof (cases "pn_parent (pid_ns_table s ns)")
      case None
      then have "ms = []" using Cons.prems(1) by simp
      then show ?thesis using step None one m Suc by auto
    next
      case (Some q)
      have "ns_path (pid_ns_table s) q ms" using Cons.prems(1) Some m by simp
      then have path: "ns_path (pid_ns_table u) q ms"
        using ns_path_cong [of "pid_ns_table s" "pid_ns_table u"] by (simp add: u_def)
      have IH: "if length ms \<le> k' then \<exists>t. set_up_pids_from p k' q u = Ret None t \<and> numbered p (4 - k') ms u t
         else \<exists>q' t. set_up_pids_from p k' q u = Ret (Some q') t"
        using Cons.prems Suc path u(2) by (intro Cons.IH) auto
      show ?thesis
      proof (cases "length ms \<le> k'")
        case True
        with IH obtain t where t: "set_up_pids_from p k' q u = Ret None t" "numbered p (4 - k') ms u t" by auto
        have d: "4 - k' = Suc (4 - k)" using Cons.prems(4) Suc by simp
        have "numbered p (4 - k) (m # ms) s t"
          using t(2) Cons.prems(2) m unfolding numbered_def d by (auto simp: u_def nth_Cons split: nat.splits)
        with t(1) True step Some Suc show ?thesis by auto
      next
        case False
        with IH step Some Suc show ?thesis by auto
      qed
    qed
  qed auto
qed simp

text \<open>
  Property (C23). A new process gets one pid in its own pid namespace and one in every namespace around it, each the
  next number of that namespace's counter, which moves on by one; \<^verbatim>\<open>get_namespace_pid\<close> reads them back.
  Other counters do not change. A nesting deeper than four levels is a panic.
\<close>

theorem set_up_pids_levels:
  assumes "ns_path (pid_ns_table s) ns l" and "distinct l" and "\<forall>m. Lk_pid_ns m \<notin> set (held s)"
  shows "if length l \<le> 4 then
       \<exists>t. set_up_pids p ns s = Ret () t
         \<and> (\<forall>i<length l. get_namespace_pid (ptable t p) (Some (l ! i)) = pn_next_pid (pid_ns_table s (l ! i)))
         \<and> (\<forall>m. pn_next_pid (pid_ns_table t m) = pn_next_pid (pid_ns_table s m) + (if m \<in> set l then 1 else 0))
     else set_up_pids p ns s = Panic ''fork: There are too many nested pid_namespaces!''"
proof (cases "length l \<le> 4")
  case True
  with set_up_pids_from_run [OF assms(1,2), of 4 p] assms(3) obtain t where
    t: "set_up_pids_from p 4 ns s = Ret None t" "numbered p 0 l s t" by auto
  have "get_namespace_pid (ptable t p) (Some (l ! i)) = pn_next_pid (pid_ns_table s (l ! i))" if i: "i < length l" for i
  proof -
    have "find (\<lambda>j. pe_pid_ns (p_pids (ptable t p) j) = Some (l ! i)) [0..<4] = Some i"
      using t(2) i True assms(2) by (auto simp: find_upt_Some numbered_def nth_eq_iff_index_eq)
    then show ?thesis using t(2) i by (simp add: get_namespace_pid_def numbered_def)
  qed
  then show ?thesis using True t by (simp add: set_up_pids_def numbered_def)
next
  case False
  with set_up_pids_from_run [OF assms(1,2), of 4 p] assms(3) show ?thesis by (auto simp: set_up_pids_def)
qed

definition ns_demo :: kstate where
  "ns_demo = (kstate0 (\<lambda>_ _. []))\<lparr>pid_ns_table := (pid_ns_table (kstate0 (\<lambda>_ _. [])))
     (0 := \<lparr>pn_count = 1, pn_parent = None, pn_next_pid = 5, pn_depth = 1, pn_is_pid_1_killed = False\<rparr>,
      1 := \<lparr>pn_count = 1, pn_parent = Some 0, pn_next_pid = 2, pn_depth = 2, pn_is_pid_1_killed = False\<rparr>,
      2 := \<lparr>pn_count = 1, pn_parent = Some 1, pn_next_pid = 1, pn_depth = 3, pn_is_pid_1_killed = False\<rparr>)\<rparr>"

theorem set_up_pids_levels_witness:
  "\<exists>t. set_up_pids 3 2 ns_demo = Ret () t \<and> get_namespace_pid (ptable t 3) (Some 2) = 1
     \<and> get_namespace_pid (ptable t 3) (Some 1) = 2 \<and> get_namespace_pid (ptable t 3) (Some 0) = 5"
proof -
  have "ns_path (pid_ns_table ns_demo) 2 [2, 1, 0]" "\<forall>m. Lk_pid_ns m \<notin> set (held ns_demo)"
    by (simp_all add: ns_demo_def kstate0_def)
  with set_up_pids_levels [of ns_demo 2 "[2, 1, 0]" 3] show ?thesis
    by (auto simp: ns_demo_def All_less_Suc numeral_3_eq_3)
qed



end
