(* ===== verification/Proc.thy ===== *)
theory Proc
  imports Namespaces Sys_Mount
begin

text \<open>
  Processes (\<^verbatim>\<open>proc.c\<close>): creation, exit, waiting, killing and scheduling. The trap frame of a process is kept
  with the process instead of on its kernel stack, and the saved context, which only \<^verbatim>\<open>swtch\<close> uses, is
  left out: a process that gives up the CPU ends its run with the outcome \<open>Sleep\<close> (\<^verbatim>\<open>yield\<close> and \<^verbatim>\<open>exit\<close>, which
  wait on no channel, are parked under the process itself). The first user program, \<^verbatim>\<open>initcode\<close>, is an
  argument of \<^verbatim>\<open>userinit\<close>; \<^verbatim>\<open>forkret\<close> gets and returns the value of its static variable \<^verbatim>\<open>first\<close>.
\<close>

subsection \<open>Creation\<close>

definition allocproc :: "nat option kM" where
  "allocproc =
     bind (acquire Lk_ptable) (\<lambda>_.
     bind (gets ptable) (\<lambda>tab.
     case find (\<lambda>i. p_state (tab i) = UNUSED) [0..<NPROC] of
       None \<Rightarrow> bind (release Lk_ptable) (\<lambda>_. ret None)
     | Some p \<Rightarrow>
         bind (gets nextpid) (\<lambda>pid.
         bind (upd_proc p (\<lambda>q. q\<lparr>p_state := EMBRYO, p_pid := pid\<rparr>)) (\<lambda>_.
         bind (modify (\<lambda>s. s\<lparr>nextpid := nextpid s + 1\<rparr>)) (\<lambda>_.
         bind (release Lk_ptable) (\<lambda>_.
         bind kalloc (\<lambda>k.
         bind (upd_proc p (\<lambda>q. q\<lparr>p_kstack := k\<rparr>)) (\<lambda>_.
         if k = 0 then
           bind (upd_proc p (\<lambda>q. q\<lparr>p_state := UNUSED\<rparr>)) (\<lambda>_.
           ret None)
         else ret (Some p)))))))))"

definition userinit :: "(nat \<Rightarrow> unit kM) \<Rightarrow> u8 list \<Rightarrow> unit kM" where
  "userinit lr initcode =
     bind allocproc (\<lambda>r.
     bind (modify (\<lambda>s. s\<lparr>initproc := r\<rparr>)) (\<lambda>_.
     bind (deref r) (\<lambda>p.
     bind setupkvm (\<lambda>pgdir.
     bind (upd_proc p (\<lambda>q. q\<lparr>p_pgdir := pgdir\<rparr>)) (\<lambda>_.
     bind (panic_if (pgdir = 0) ''userinit: out of memory?'') (\<lambda>_.
     bind (inituvm pgdir initcode) (\<lambda>_.
     bind (upd_proc p (\<lambda>q. q\<lparr>p_sz := PGSIZE,
       p_tf := trapframe0\<lparr>tf_cs := 27, tf_ds := 35, tf_es := 35, tf_ss := 35, tf_eflags := 0x200,
         tf_esp := PGSIZE, tf_eip := 0\<rparr>,
       p_name := bsplice (p_name q) 0 (safestrcpy (bytes_of ''initcode'' @ [0]) 16)\<rparr>)) (\<lambda>_.
     bind (namei lr [47, 0]) (\<lambda>cwd.
     bind (upd_proc p (\<lambda>q. q\<lparr>p_cwd := cwd\<rparr>)) (\<lambda>_.
     bind (create_nsproxy None True) (\<lambda>n.
     bind (upd_proc p (\<lambda>q. q\<lparr>p_nsproxy := Some n\<rparr>)) (\<lambda>_.
     bind (proc_pid_ns p) (\<lambda>ns.
     bind (deref ns) (\<lambda>ns.
     bind (alloc_new_pid ns) (\<lambda>pid.
     bind (upd_proc p (\<lambda>q. q\<lparr>p_pid := pid\<rparr>)) (\<lambda>_.
     bind (init_pids0 p) (\<lambda>_.
     bind (acquire Lk_ptable) (\<lambda>_.
     bind (upd_proc p (\<lambda>q. q\<lparr>p_state := RUNNABLE\<rparr>)) (\<lambda>_.
     release Lk_ptable)))))))))))))))))))"

definition growproc :: "u32 \<Rightarrow> int kM" where
  "growproc n =
     bind myproc (\<lambda>me.
     bind (gets (\<lambda>s. ptable s me)) (\<lambda>p.
     bind (if 0 < sint n then allocuvm (p_pgdir p) (p_sz p) (p_sz p + n)
           else if sint n < 0 then deallocuvm (p_pgdir p) (p_sz p) (p_sz p + n)
           else ret (p_sz p)) (\<lambda>sz.
     if sint n \<noteq> 0 \<and> sz = 0 then ret (-1)
     else
       bind (upd_proc me (\<lambda>q. q\<lparr>p_sz := sz\<rparr>)) (\<lambda>_.
       bind (switchuvm (Some me)) (\<lambda>_.
       ret 0)))))"

text \<open>The loop that shares the open files with the child.\<close>

primrec fork_files :: "nat \<Rightarrow> nat \<Rightarrow> nat list \<Rightarrow> unit kM" where
  "fork_files me np [] = ret ()"
| "fork_files me np (i # is) =
     bind (gets (\<lambda>s. p_ofile (ptable s me) i)) (\<lambda>f.
     bind (case f of
             None \<Rightarrow> ret ()
           | Some f \<Rightarrow>
               bind (filedup f) (\<lambda>f.
               upd_proc np (\<lambda>q. q\<lparr>p_ofile := (p_ofile q)(i := Some f)\<rparr>))) (\<lambda>_.
     fork_files me np is))"

definition fork :: "int kM" where
  "fork =
     bind myproc (\<lambda>me.
     bind allocproc (\<lambda>r.
     case r of
       None \<Rightarrow> ret (-1)
     | Some np \<Rightarrow>
         bind (gets (\<lambda>s. ptable s me)) (\<lambda>cur.
         bind (copyuvm (p_pgdir cur) (p_sz cur)) (\<lambda>pgdir.
         bind (upd_proc np (\<lambda>q. q\<lparr>p_pgdir := pgdir\<rparr>)) (\<lambda>_.
         if pgdir = 0 then
           bind (gets (\<lambda>s. p_kstack (ptable s np))) (\<lambda>k.
           bind (kfree k) (\<lambda>_.
           bind (upd_proc np (\<lambda>q. q\<lparr>p_kstack := 0, p_state := UNUSED\<rparr>)) (\<lambda>_.
           ret (-1))))
         else
           bind (upd_proc np (\<lambda>q. q\<lparr>p_sz := p_sz cur, p_parent := Some me, p_tf := (p_tf cur)\<lparr>tf_eax := 0\<rparr>\<rparr>)) (\<lambda>_.
           bind (fork_files me np [0..<NOFILE]) (\<lambda>_.
           bind (deref (p_cwd cur)) (\<lambda>cwd.
           bind (idup cwd) (\<lambda>cwd.
           bind (upd_proc np (\<lambda>q. q\<lparr>p_cwd := Some cwd, p_name := bsplice (p_name q) 0 (safestrcpy (p_name cur) 16)\<rparr>)) (\<lambda>_.
           bind (set_up_child_pid_namespace me np) (\<lambda>ns.
           bind (deref ns) (\<lambda>ns.
           bind (set_up_pids np ns) (\<lambda>_.
           bind (upd_proc np (\<lambda>q. q\<lparr>p_pid := pe_pid (p_pids q 0)\<rparr>)) (\<lambda>_.
           bind (proc_pid_ns me) (\<lambda>mns.
           bind (gets (\<lambda>s. get_namespace_pid (ptable s np) mns)) (\<lambda>pid.
           bind (acquire Lk_ptable) (\<lambda>_.
           bind (upd_proc np (\<lambda>q. q\<lparr>p_state := RUNNABLE\<rparr>)) (\<lambda>_.
           bind (release Lk_ptable) (\<lambda>_.
           ret pid)))))))))))))))))))"

subsection \<open>Exit and wait\<close>

definition kill_process :: "nat \<Rightarrow> nat option \<Rightarrow> unit kM" where
  "kill_process p new_parent =
     upd_proc p (\<lambda>q. q\<lparr>p_killed := True, p_parent := new_parent,
       p_state := (if p_state q = SLEEPING then RUNNABLE else p_state q)\<rparr>)"

primrec close_files :: "(nat \<Rightarrow> unit kM) \<Rightarrow> (nat \<Rightarrow> unit kM) \<Rightarrow> nat \<Rightarrow> nat list \<Rightarrow> unit kM" where
  "close_files lr lw me [] = ret ()"
| "close_files lr lw me (fd # fds) =
     bind (gets (\<lambda>s. p_ofile (ptable s me) fd)) (\<lambda>f.
     bind (case f of
             None \<Rightarrow> ret ()
           | Some f \<Rightarrow>
               bind (fileclose lr lw f) (\<lambda>_.
               upd_proc me (\<lambda>q. q\<lparr>p_ofile := (p_ofile q)(fd := None)\<rparr>))) (\<lambda>_.
     close_files lr lw me fds))"

text \<open>The last process of the table that has pid 1 in the namespace.\<close>

definition find_pid_1 :: "nat option \<Rightarrow> nat option kM" where
  "find_pid_1 ns = gets (\<lambda>s. find (\<lambda>i. get_namespace_pid (ptable s i) ns = 1) (rev [0..<NPROC]))"

primrec kill_namespace :: "nat \<Rightarrow> nat option \<Rightarrow> nat option \<Rightarrow> nat list \<Rightarrow> unit kM" where
  "kill_namespace me ns parent [] = ret ()"
| "kill_namespace me ns parent (i # is) =
     bind (when_do (i \<noteq> me)
       (bind (proc_pid_ns i) (\<lambda>pns.
        when_do (pns = ns) (kill_process i parent)))) (\<lambda>_.
     kill_namespace me ns parent is)"

definition wakeup_proc :: "nat option \<Rightarrow> unit kM" where
  "wakeup_proc p = (case p of None \<Rightarrow> ret () | Some p \<Rightarrow> wakeup1 (Ch_proc p))"

primrec reparent :: "nat \<Rightarrow> nat option \<Rightarrow> nat list \<Rightarrow> unit kM" where
  "reparent me new_parent [] = ret ()"
| "reparent me new_parent (i # is) =
     bind (gets (\<lambda>s. ptable s i)) (\<lambda>p.
     bind (when_do (p_parent p = Some me)
       (bind (upd_proc i (\<lambda>q. q\<lparr>p_parent := new_parent\<rparr>)) (\<lambda>_.
        when_do (p_state p = ZOMBIE)
          (bind (gets initproc) wakeup_proc)))) (\<lambda>_.
     reparent me new_parent is))"

definition exit :: "(nat \<Rightarrow> unit kM) \<Rightarrow> (nat \<Rightarrow> unit kM) \<Rightarrow> int \<Rightarrow> 'a kM" where
  "exit lr lw exit_state =
     bind myproc (\<lambda>me.
     bind (upd_proc me (\<lambda>q. q\<lparr>p_exit_state := exit_state\<rparr>)) (\<lambda>_.
     bind (gets initproc) (\<lambda>init.
     bind (panic_if (init = Some me) ''init exiting'') (\<lambda>_.
     bind (close_files lr lw me [0..<NOFILE]) (\<lambda>_.
     bind begin_op (\<lambda>_.
     bind (gets (\<lambda>s. p_cwd (ptable s me))) (\<lambda>cwd.
     bind (deref cwd) (\<lambda>cwd.
     bind (iput lr cwd) (\<lambda>_.
     bind (end_op lr lw) (\<lambda>_.
     bind (upd_proc me (\<lambda>q. q\<lparr>p_cwd := None\<rparr>)) (\<lambda>_.
     bind (proc_pid_ns me) (\<lambda>ns'.
     bind (find_pid_1 ns') (\<lambda>pid1.
     bind (when_do (pid1 = None)
       (bind (deref ns') (\<lambda>ns.
        bind (gets (\<lambda>s. pn_is_pid_1_killed (pid_ns_table s ns))) (\<lambda>gone.
        panic_if (\<not> gone) ''can not find process with pid 1 in target namespace'')))) (\<lambda>_.
     bind (gets (\<lambda>s. p_nsproxy (ptable s me))) (\<lambda>n.
     bind (deref n) (\<lambda>n.
     bind (put_nsproxy n) (\<lambda>_.
     bind (acquire Lk_ptable) (\<lambda>_.
     bind (gets (\<lambda>s. ptable s me)) (\<lambda>cur.
     bind (wakeup_proc (p_parent cur)) (\<lambda>_.
     bind (if p_pid cur = 1 then
             bind (kill_namespace me ns' (p_parent cur) [0..<NPROC]) (\<lambda>_.
             bind (deref ns') (\<lambda>ns.
             upd_pid_ns ns (\<lambda>x. x\<lparr>pn_is_pid_1_killed := True\<rparr>)))
           else reparent me pid1 [0..<NPROC]) (\<lambda>_.
     bind (case p_child_pid_namespace cur of None \<Rightarrow> ret () | Some c \<Rightarrow> remove_from_pid_namespace c) (\<lambda>_.
     bind (upd_proc me (\<lambda>q. q\<lparr>p_state := ZOMBIE\<rparr>)) (\<lambda>_.
     sched (Ch_proc me))))))))))))))))))))))))"

text \<open>Reaping the zombie \<open>p\<close>.\<close>

definition reap :: "nat \<Rightarrow> unit kM" where
  "reap p =
     bind (gets (\<lambda>s. ptable s p)) (\<lambda>q.
     bind (kfree (p_kstack q)) (\<lambda>_.
     bind (upd_proc p (\<lambda>q. q\<lparr>p_kstack := 0\<rparr>)) (\<lambda>_.
     bind (freevm (p_pgdir q)) (\<lambda>_.
     upd_proc p (\<lambda>q. q\<lparr>p_pid := 0, p_pids := (\<lambda>_. \<lparr>pe_pid_ns = None, pe_pid = 0\<rparr>),
       p_parent := None, p_killed := False, p_state := UNUSED, p_name := (p_name q)[0 := 0],
       p_child_pid_namespace := None, p_exit_state := 0\<rparr>)))))"

definition wait :: "int kM" where
  "wait =
     bind myproc (\<lambda>me.
     bind (acquire Lk_ptable) (\<lambda>_.
     bind (gets ptable) (\<lambda>tab.
     case find (\<lambda>i. p_parent (tab i) = Some me \<and> p_state (tab i) = ZOMBIE) [0..<NPROC] of
       Some p \<Rightarrow>
         bind (proc_pid_ns me) (\<lambda>ns.
         bind (gets (\<lambda>s. get_namespace_pid (ptable s p) ns)) (\<lambda>pid.
         bind (reap p) (\<lambda>_.
         bind (release Lk_ptable) (\<lambda>_.
         ret pid))))
     | None \<Rightarrow>
         if find (\<lambda>i. p_parent (tab i) = Some me) [0..<NPROC] = None \<or> p_killed (tab me) then
           bind (release Lk_ptable) (\<lambda>_. ret (-1))
         else sleep (Ch_proc me) Lk_ptable)))"

definition kill :: "int \<Rightarrow> int kM" where
  "kill pid =
     bind (acquire Lk_ptable) (\<lambda>_.
     bind myproc (\<lambda>me.
     bind (proc_pid_ns me) (\<lambda>ns.
     bind (gets ptable) (\<lambda>tab.
     case find (\<lambda>i. get_namespace_pid (tab i) ns = pid) [0..<NPROC] of
       Some p \<Rightarrow>
         bind (kill_process p (p_parent (tab p))) (\<lambda>_.
         bind (release Lk_ptable) (\<lambda>_.
         ret 0))
     | None \<Rightarrow> bind (release Lk_ptable) (\<lambda>_. ret (-1))))))"

subsection \<open>Scheduling\<close>

definition yield :: "'a kM" where
  "yield =
     bind (acquire Lk_ptable) (\<lambda>_.
     bind myproc (\<lambda>me.
     bind (upd_proc me (\<lambda>q. q\<lparr>p_state := RUNNABLE\<rparr>)) (\<lambda>_.
     sched (Ch_proc me))))"

definition forkret :: "(nat \<Rightarrow> unit kM) \<Rightarrow> (nat \<Rightarrow> unit kM) \<Rightarrow> bool \<Rightarrow> bool kM" where
  "forkret lr lw first =
     bind (release Lk_ptable) (\<lambda>_.
     bind (when_do first
       (bind (iinit lr ROOTDEV) (\<lambda>_.
        initlog lr lw ROOTDEV))) (\<lambda>_.
     ret False))"

text \<open>
  The scheduler's loop over the process table from position \<open>p\<close> to the next switch: the process chosen, with the position at
  which the loop goes on when that process gives up the CPU (\<^verbatim>\<open>p++\<close>), or none, with \<^verbatim>\<open>ptable.lock\<close> released, when the
  end of the table is reached. The outer loop then takes the lock again and starts at position 0; the model makes it the same step.
\<close>

definition scheduler_from :: "nat \<Rightarrow> (nat \<times> nat) option kM" where
  "scheduler_from p =
     bind (gets ptable) (\<lambda>tab.
     case find (\<lambda>i. p \<le> i \<and> p_state (tab i) = RUNNABLE) [0..<NPROC] of
       Some i \<Rightarrow>
         bind (modify (\<lambda>s. s\<lparr>curproc := i\<rparr>)) (\<lambda>_.
         bind (switchuvm (Some i)) (\<lambda>_.
         bind (upd_proc i (\<lambda>q. q\<lparr>p_state := RUNNING\<rparr>)) (\<lambda>_.
         ret (Some (i, i + 1)))))
     | None \<Rightarrow> bind (release Lk_ptable) (\<lambda>_. ret None))"

definition scheduler :: "nat \<Rightarrow> (nat \<times> nat) option kM" where
  "scheduler p =
     bind (scheduler_from p) (\<lambda>r.
     case r of
       Some c \<Rightarrow> ret (Some c)
     | None \<Rightarrow>
         bind (acquire Lk_ptable) (\<lambda>_.
         scheduler_from 0))"

end
