(* ===== verification/Proc_Rules.thy ===== *)
theory Proc_Rules
  imports Proc
begin

text \<open>
  Rules about processes: which process the scheduler of \<^verbatim>\<open>proc.c\<close> runs next, and which process \<^verbatim>\<open>kill\<close> reaches
  across pid namespaces.
\<close>

subsection \<open>Scheduling is fair\<close>

lemma scheduler_choice:
  assumes "scheduler p s = Ret (Some (i, p')) t"
  shows "p' = i + 1 \<and> i < NPROC \<and> p_state (ptable s i) = RUNNABLE
     \<and> ((p \<le> i \<and> (\<forall>j. p \<le> j \<and> j < i \<longrightarrow> p_state (ptable s j) \<noteq> RUNNABLE))
        \<or> ((\<forall>j. p \<le> j \<and> j < NPROC \<longrightarrow> p_state (ptable s j) \<noteq> RUNNABLE) \<and> (\<forall>j<i. p_state (ptable s j) \<noteq> RUNNABLE)))"
proof (cases "find (\<lambda>i. p \<le> i \<and> p_state (ptable s i) = RUNNABLE) [0..<NPROC]")
  case None
  then have n: "\<forall>j. p \<le> j \<and> j < NPROC \<longrightarrow> p_state (ptable s j) \<noteq> RUNNABLE" by (simp add: find_None_iff)
  obtain k where k: "find (\<lambda>i. p_state (ptable s i) = RUNNABLE) [0..<NPROC] = Some k"
    using assms None by (cases "find (\<lambda>i. p_state (ptable s i) = RUNNABLE) [0..<NPROC]")
      (auto simp: scheduler_def scheduler_from_def split: if_splits)
  then have "k = i" "p' = i + 1" using assms None
    by (auto simp: scheduler_def scheduler_from_def switchuvm_def split: if_splits outcome.splits)
  with k n show ?thesis by (auto simp: find_upt_Some)
next
  case (Some k)
  then have "k = i" "p' = i + 1" using assms
    by (auto simp: scheduler_def scheduler_from_def switchuvm_def split: if_splits outcome.splits)
  with Some show ?thesis by (auto simp: find_upt_Some)
qed

text \<open>How far the scheduler's position is from process \<open>j\<close>, around the end of the table.\<close>

definition sched_dist :: "nat \<Rightarrow> nat \<Rightarrow> nat" where
  "sched_dist pos j = (if pos \<le> j then j - pos else NPROC + 1 - pos + j)"

lemma sched_dist_step:
  assumes "scheduler p s = Ret (Some (i, p')) t" and "p \<le> NPROC" and "j < NPROC" and "p_state (ptable s j) = RUNNABLE" and "i \<noteq> j"
  shows "sched_dist p' j < sched_dist p j \<and> p' \<le> NPROC"
proof -
  note C = scheduler_choice [OF assms(1)]
  show ?thesis
  proof (cases "p \<le> j")
    case True
    then have "p \<le> i" using C assms by blast
    moreover have "\<not> j < i" using C assms True by blast
    ultimately have "p \<le> i" "i < j" using assms(5) by simp_all
    then show ?thesis using True C by (simp add: sched_dist_def)
  next
    case False
    have "p \<le> i \<or> \<not> j < i" using C assms by blast
    then consider "p \<le> i" | "i < j" using assms(5) by linarith
    then show ?thesis using False C assms(2) by cases (auto simp: sched_dist_def)
  qed
qed

text \<open>
  Property (C14). The scheduler is fair: whatever the processes do between its choices, a process that stays runnable
  is chosen within one round, that is after at most \<^verbatim>\<open>NPROC\<close> other choices. (\<open>s k\<close> is the state in which the
  scheduler makes its \<open>k\<close>-th choice \<open>c k\<close>, from the position \<open>pos k\<close> of the table at which the choice before left it.)
\<close>

theorem scheduler_fair:
  assumes "pos 0 \<le> NPROC" and "\<forall>k. \<exists>t. scheduler (pos k) (s k) = Ret (Some (c k, pos (Suc k))) t"
    and "j < NPROC" and "\<forall>k\<le>NPROC. p_state (ptable (s k) j) = RUNNABLE"
  shows "\<exists>k\<le>NPROC. c k = j"
proof (rule ccontr)
  assume no: "\<not> (\<exists>k\<le>NPROC. c k = j)"
  have "pos k \<le> NPROC \<and> sched_dist (pos k) j + k \<le> NPROC" if "k \<le> NPROC" for k
    using that
  proof (induction k)
    case 0
    then show ?case using assms(1,3) by (auto simp: sched_dist_def)
  next
    case (Suc k)
    obtain t where "scheduler (pos k) (s k) = Ret (Some (c k, pos (Suc k))) t" using assms(2) by blast
    moreover have "pos k \<le> NPROC" "sched_dist (pos k) j + k \<le> NPROC" using Suc by simp_all
    moreover have "c k \<noteq> j" "p_state (ptable (s k) j) = RUNNABLE" using no assms(4) Suc.prems by simp_all
    ultimately have "sched_dist (pos (Suc k)) j < sched_dist (pos k) j \<and> pos (Suc k) \<le> NPROC"
      using sched_dist_step assms(3) by blast
    then show ?case using Suc by simp
  qed
  from this [of NPROC] have d: "pos NPROC \<le> NPROC" "sched_dist (pos NPROC) j = 0" by auto
  obtain t where "scheduler (pos NPROC) (s NPROC) = Ret (Some (c NPROC, pos (Suc NPROC))) t" using assms(2) by blast
  moreover have "c NPROC \<noteq> j" "p_state (ptable (s NPROC) j) = RUNNABLE" using no assms(4) by blast+
  ultimately show False using sched_dist_step [OF _ d(1) assms(3)] d(2) by fastforce
qed

definition sched_demo :: kstate where
  "sched_demo = (kstate0 (\<lambda>_ _. []))\<lparr>ptable := (\<lambda>i. if i = 3 then proc0\<lparr>p_state := RUNNABLE, p_kstack := 1, p_pgdir := 1\<rparr> else proc0),
     held := [Lk_ptable]\<rparr>"

lemma find_single: "i < n \<Longrightarrow> find (\<lambda>j. j = i) [0..<n] = Some i"
  by (simp add: find_upt_Some)

theorem scheduler_fair_witness:
  "(\<exists>t. scheduler 0 sched_demo = Ret (Some (3, 4)) t) \<and> (\<exists>k\<le>NPROC. (\<lambda>_. 3) k = (3 :: nat))"
proof -
  have r: "p_state (ptable sched_demo i) = RUNNABLE \<longleftrightarrow> i = 3" for i by (simp add: sched_demo_def proc0_def)
  have f: "find (\<lambda>i. p_state (ptable sched_demo i) = RUNNABLE) [0..<NPROC] = Some 3"
    "find (\<lambda>i. 4 \<le> i \<and> p_state (ptable sched_demo i) = RUNNABLE) [0..<NPROC] = None"
    by (simp_all add: r find_single find_None_iff)
  have h: "held sched_demo = [Lk_ptable]" "p_kstack (ptable sched_demo 3) = 1" "p_pgdir (ptable sched_demo 3) = 1"
    by (simp_all add: sched_demo_def)
  have s0: "\<exists>t. scheduler 0 sched_demo = Ret (Some (3, 4)) t"
    using f h by (simp add: scheduler_def scheduler_from_def switchuvm_def)
  have s4: "\<exists>t. scheduler 4 sched_demo = Ret (Some (3, 4)) t"
    using f h by (simp add: scheduler_def scheduler_from_def switchuvm_def)
  have "\<exists>k\<le>NPROC. (\<lambda>_. 3) k = (3 :: nat)"
    by (rule scheduler_fair [where pos = "\<lambda>k. if k = 0 then 0 else 4" and s = "\<lambda>_. sched_demo"])
      (use s0 s4 r in auto)
  with s0 show ?thesis by blast
qed

subsection \<open>What kill reaches\<close>

text \<open>The process \<^verbatim>\<open>kill\<close> finds, and its effect.\<close>

lemma kill_run:
  assumes "Lk_ptable \<notin> set (held s)" and "p_nsproxy (ptable s (curproc s)) = Some n"
  shows "kill pid s =
     (case find (\<lambda>i. get_namespace_pid (ptable s i) (ns_pid_ns (nstable s n)) = pid) [0..<NPROC] of
        Some p \<Rightarrow> Ret 0 (s\<lparr>ptable := (ptable s)(p := (ptable s p)\<lparr>p_killed := True,
          p_state := (if p_state (ptable s p) = SLEEPING then RUNNABLE else p_state (ptable s p))\<rparr>)\<rparr>)
      | None \<Rightarrow> Ret (-1) s)"
  using assms by (auto simp: kill_def kill_process_def proc_pid_ns_def myproc_def split: option.splits)

text \<open>
  Property (C17). \<^verbatim>\<open>kill\<close> stays inside the caller's pid namespace: with a non-zero pid it changes at most one process, and that one
  carries this pid in the caller's namespace; it returns 0 exactly if there is such a process, which is then marked killed and
  not left asleep. With no such process the state does not change.
\<close>

theorem kill_confined:
  assumes "Lk_ptable \<notin> set (held s)" and "p_nsproxy (ptable s (curproc s)) = Some n" and "pid \<noteq> 0"
    and "ns = ns_pid_ns (nstable s n)"
  shows "\<exists>r t. kill pid s = Ret r t
    \<and> (r = 0 \<longleftrightarrow> (\<exists>i<NPROC. get_namespace_pid (ptable s i) ns = pid))
    \<and> (r = 0 \<longrightarrow> (\<exists>i<NPROC. (\<exists>k<PID_NAMESPACE_MAX_DEPTH. p_pids (ptable s i) k = \<lparr>pe_pid_ns = ns, pe_pid = pid\<rparr>)
         \<and> p_killed (ptable t i) \<and> p_state (ptable t i) \<noteq> SLEEPING
         \<and> (\<forall>j. j \<noteq> i \<longrightarrow> ptable t j = ptable s j)))
    \<and> (r \<noteq> 0 \<longrightarrow> r = -1 \<and> t = s)"
proof (cases "find (\<lambda>i. get_namespace_pid (ptable s i) ns = pid) [0..<NPROC]")
  case None
  then have "kill pid s = Ret (-1) s" using kill_run [OF assms(1,2), of pid] assms(4) by simp
  with None show ?thesis by (auto simp: find_None_iff)
next
  case (Some p)
  then have p: "p < NPROC" "get_namespace_pid (ptable s p) ns = pid" by (auto simp: find_upt_Some)
  then obtain k where "k < PID_NAMESPACE_MAX_DEPTH" "pe_pid_ns (p_pids (ptable s p) k) = ns" "pe_pid (p_pids (ptable s p) k) = pid"
    using assms(3) by (auto simp: get_namespace_pid_def find_upt_Some split: option.splits)
  then have k: "\<exists>k<PID_NAMESPACE_MAX_DEPTH. p_pids (ptable s p) k = \<lparr>pe_pid_ns = ns, pe_pid = pid\<rparr>" by force
  with p have "\<exists>i<NPROC. get_namespace_pid (ptable s i) ns = pid" by blast
  moreover have "\<exists>t. kill pid s = Ret 0 t \<and> p_killed (ptable t p) \<and> p_state (ptable t p) \<noteq> SLEEPING
      \<and> (\<forall>j. j \<noteq> p \<longrightarrow> ptable t j = ptable s j)"
    using kill_run [OF assms(1,2), of pid] Some assms(4) by simp
  ultimately show ?thesis using k p(1) by (intro exI [of _ "0 :: int"]) auto
qed

definition kill_demo :: kstate where
  "kill_demo = (kstate0 (\<lambda>_ _. []))\<lparr>curproc := 5,
     ptable := (\<lambda>i. if i = 0 then proc0\<lparr>p_pids := (\<lambda>_. \<lparr>pe_pid_ns = Some 0, pe_pid = 1\<rparr>)\<rparr>
       else if i = 5 then proc0\<lparr>p_nsproxy := Some 0, p_pids := (\<lambda>_. \<lparr>pe_pid_ns = Some 7, pe_pid = 1\<rparr>)\<rparr>
       else if i = 2 then proc0\<lparr>p_state := SLEEPING, p_pids := (\<lambda>_. \<lparr>pe_pid_ns = Some 7, pe_pid = 2\<rparr>)\<rparr> else proc0),
     nstable := (\<lambda>_. \<lparr>ns_count = 1, ns_pid_ns = Some 7\<rparr>), held := []\<rparr>"

lemma kill_demo_simps [simp]:
  "held kill_demo = []" "curproc kill_demo = 5" "p_nsproxy (ptable kill_demo 5) = Some 0" "ns_pid_ns (nstable kill_demo 0) = Some 7"
  "get_namespace_pid (ptable kill_demo 2) (Some 7) = 2"
  "pe_pid_ns (p_pids (ptable kill_demo 0) i) = Some 0"
  by (simp_all add: kill_demo_def get_namespace_pid_def upt_rec)

theorem kill_confined_witness: "\<exists>t. kill 2 kill_demo = Ret 0 t \<and> (\<exists>i. p_killed (ptable t i))"
proof -
  have "2 < NPROC" by simp
  then have "\<exists>i<NPROC. get_namespace_pid (ptable kill_demo i) (Some 7) = 2" by (intro exI [of _ 2]) simp
  with kill_confined [of kill_demo 0 2 "Some 7"] show ?thesis by auto
qed

text \<open>
  Property (C25). The pid 0 escapes the namespace: \<^verbatim>\<open>get_namespace_pid\<close> gives 0 for a process that is not in the namespace, so
  \<^verbatim>\<open>kill(0)\<close> of a process inside a pid namespace kills the first process of the table that is outside it: if slot \<open>i\<close> has
  no pid in the caller's namespace and every slot before it has one, \<^verbatim>\<open>kill(0)\<close> returns 0, marks the process of slot \<open>i\<close>
  killed, wakes it if it sleeps, and changes nothing else.
\<close>

theorem kill_zero_escapes:
  assumes "Lk_ptable \<notin> set (held s)" and "p_nsproxy (ptable s (curproc s)) = Some n" and "ns = ns_pid_ns (nstable s n)"
    and "i < NPROC" and "\<forall>k<PID_NAMESPACE_MAX_DEPTH. pe_pid_ns (p_pids (ptable s i) k) \<noteq> ns"
    and "\<forall>j<i. get_namespace_pid (ptable s j) ns \<noteq> 0"
  shows "kill 0 s = Ret 0 (s\<lparr>ptable := (ptable s)(i := (ptable s i)\<lparr>p_killed := True,
     p_state := (if p_state (ptable s i) = SLEEPING then RUNNABLE else p_state (ptable s i))\<rparr>)\<rparr>)"
proof -
  have "get_namespace_pid (ptable s i) ns = 0"
    using assms(5) by (auto simp: get_namespace_pid_def find_upt_Some split: option.splits)
  then have "find (\<lambda>i. get_namespace_pid (ptable s i) ns = 0) [0..<NPROC] = Some i"
    using assms(4,6) by (simp add: find_upt_Some)
  then show ?thesis using kill_run [OF assms(1,2), of 0] assms(3) by simp
qed

text \<open>The caller in slot 0 and its sibling in slot 1 are in a namespace, a sleeping process in slot 2 is not.\<close>

definition escape_demo :: kstate where
  "escape_demo = (kstate0 (\<lambda>_ _. []))\<lparr>curproc := 0,
     ptable := (\<lambda>i. if i < 2 then proc0\<lparr>p_nsproxy := Some 0, p_pids := (\<lambda>_. \<lparr>pe_pid_ns = Some 7, pe_pid = int i + 1\<rparr>)\<rparr>
       else proc0\<lparr>p_state := SLEEPING, p_pids := (\<lambda>_. \<lparr>pe_pid_ns = Some 0, pe_pid = 1\<rparr>)\<rparr>),
     nstable := (\<lambda>_. \<lparr>ns_count = 1, ns_pid_ns = Some 7\<rparr>), held := []\<rparr>"

theorem kill_zero_escapes_witness:
  "\<exists>t. kill 0 escape_demo = Ret 0 t \<and> p_killed (ptable t 2) \<and> p_state (ptable t 2) = RUNNABLE \<and> ptable t 1 = ptable escape_demo 1"
proof -
  have g: "get_namespace_pid (ptable escape_demo j) (Some 7) \<noteq> 0" if "j < 2" for j
    using that by (simp add: escape_demo_def get_namespace_pid_def upt_rec)
  have "kill 0 escape_demo = Ret 0 (escape_demo\<lparr>ptable := (ptable escape_demo)(2 := (ptable escape_demo 2)\<lparr>p_killed := True,
     p_state := (if p_state (ptable escape_demo 2) = SLEEPING then RUNNABLE else p_state (ptable escape_demo 2))\<rparr>)\<rparr>)"
    by (rule kill_zero_escapes [of _ 0 "Some 7"]) (use g in \<open>simp_all add: escape_demo_def\<close>)
  then show ?thesis by (simp add: escape_demo_def)
qed

end
