(* ===== verification/Exec.thy ===== *)
theory Exec
  imports Proc
begin

text \<open>
  Replacing the program of a process (\<^verbatim>\<open>exec.c\<close>, \<^verbatim>\<open>loaduvm\<close> of \<^verbatim>\<open>vm.c\<close>, \<^verbatim>\<open>sys_exec\<close> of \<^verbatim>\<open>sysfile.c\<close>). The
  headers of an ELF file are read from their bytes; argument strings are byte lists without the final 0.
\<close>

subsection \<open>ELF headers\<close>

record elfhdr =
  elf_magic :: u32
  elf_entry :: u32
  elf_phoff :: u32
  elf_phnum :: u16

definition get_elfhdr :: "u8 list \<Rightarrow> elfhdr" where
  "get_elfhdr d = \<lparr>elf_magic = get32 d 0, elf_entry = get32 d 24, elf_phoff = get32 d 28, elf_phnum = get16 d 44\<rparr>"

record proghdr =
  ph_type :: u32
  ph_off :: u32
  ph_vaddr :: u32
  ph_filesz :: u32
  ph_memsz :: u32

definition get_proghdr :: "u8 list \<Rightarrow> proghdr" where
  "get_proghdr d = \<lparr>ph_type = get32 d 0, ph_off = get32 d 4, ph_vaddr = get32 d 8, ph_filesz = get32 d 16,
     ph_memsz = get32 d 20\<rparr>"

abbreviation (input) ELF_MAGIC :: u32 where "ELF_MAGIC \<equiv> 0x464C457F"
abbreviation (input) ELF_PROG_LOAD :: u32 where "ELF_PROG_LOAD \<equiv> 1"
abbreviation (input) MAXARG :: nat where "MAXARG \<equiv> 32"

subsection \<open>Loading\<close>

function loaduvm_from :: "(nat \<Rightarrow> unit kM) \<Rightarrow> u32 \<Rightarrow> u32 \<Rightarrow> nat \<Rightarrow> u32 \<Rightarrow> nat \<Rightarrow> nat \<Rightarrow> int kM" where
  "loaduvm_from lr pgdir addr ip offset sz i =
     (if i < sz then
        bind (walkpgdir pgdir (addr + of_nat i) False) (\<lambda>pte.
        bind (panic_if (pte = 0) ''loaduvm: address should exist'') (\<lambda>_.
        bind (gets (\<lambda>s. PTE_ADDR (load32 (mem s) pte))) (\<lambda>pa.
        bind (readi lr ip (offset + of_nat i) (of_nat (min (sz - i) 4096))) (\<lambda>(r, d).
        bind (mem_write (P2V pa) d) (\<lambda>_.
        if r \<noteq> int (min (sz - i) 4096) then ret (-1)
        else loaduvm_from lr pgdir addr ip offset sz (i + 4096))))))
      else ret 0)"
  by pat_completeness auto
termination
  by (relation "measure (\<lambda>(lr, pgdir, addr, ip, offset, sz, i). sz - i)") auto

declare loaduvm_from.simps [simp del]

definition loaduvm :: "(nat \<Rightarrow> unit kM) \<Rightarrow> u32 \<Rightarrow> u32 \<Rightarrow> nat \<Rightarrow> u32 \<Rightarrow> u32 \<Rightarrow> int kM" where
  "loaduvm lr pgdir addr ip offset sz =
     bind (panic_if (addr mod PGSIZE \<noteq> 0) ''loaduvm: addr must be page aligned'') (\<lambda>_.
     loaduvm_from lr pgdir addr ip offset (unat sz) 0)"

text \<open>The loop over the program headers, \<open>k\<close> of them left: the size of the image, or \<open>None\<close> for \<^verbatim>\<open>goto bad\<close>.\<close>

primrec exec_load :: "(nat \<Rightarrow> unit kM) \<Rightarrow> u32 \<Rightarrow> nat \<Rightarrow> nat \<Rightarrow> u32 \<Rightarrow> u32 \<Rightarrow> u32 option kM" where
  "exec_load lr pgdir ip 0 off sz = ret (Some sz)"
| "exec_load lr pgdir ip (Suc k) off sz =
     bind (readi lr ip off 32) (\<lambda>(r, d).
     let ph = get_proghdr d in
     if r \<noteq> 32 then ret None
     else if ph_type ph \<noteq> ELF_PROG_LOAD then exec_load lr pgdir ip k (off + 32) sz
     else if ph_memsz ph < ph_filesz ph then ret None
     else if ph_vaddr ph + ph_memsz ph < ph_vaddr ph then ret None
     else
       bind (allocuvm pgdir sz (ph_vaddr ph + ph_memsz ph)) (\<lambda>sz.
       if sz = 0 then ret None
       else if ph_vaddr ph mod PGSIZE \<noteq> 0 then ret None
       else
         bind (loaduvm lr pgdir (ph_vaddr ph) ip (ph_off ph) (ph_filesz ph)) (\<lambda>r.
         if r < 0 then ret None else exec_load lr pgdir ip k (off + 32) sz)))"

text \<open>The loop over the arguments: the stack pointer and the addresses of the strings, the part of
  \<^verbatim>\<open>ustack\<close> from index 3 on.\<close>

primrec exec_args :: "u32 \<Rightarrow> u8 list list \<Rightarrow> nat \<Rightarrow> u32 \<Rightarrow> u32 list \<Rightarrow> (u32 \<times> u32 list) option kM" where
  "exec_args pgdir [] argc sp us = ret (Some (sp, us))"
| "exec_args pgdir (a # as) argc sp us =
     (if MAXARG \<le> argc then ret None
      else
        let sp = (sp - of_nat (length a + 1)) AND NOT 3 in
        bind (copyout pgdir sp (a @ [0])) (\<lambda>r.
        if r < 0 then ret None else exec_args pgdir as (argc + 1) sp (us @ [sp])))"

definition exec_bad :: "(nat \<Rightarrow> unit kM) \<Rightarrow> (nat \<Rightarrow> unit kM) \<Rightarrow> u32 \<Rightarrow> nat option \<Rightarrow> int kM" where
  "exec_bad lr lw pgdir ip' =
     bind (when_do (pgdir \<noteq> 0) (freevm pgdir)) (\<lambda>_.
     bind (case ip' of None \<Rightarrow> ret () | Some ip \<Rightarrow> bind (iunlockput lr ip) (\<lambda>_. end_op lr lw)) (\<lambda>_.
     ret (-1)))"

definition last_elem :: "u8 list \<Rightarrow> u8 list" where
  "last_elem path = rev (takeWhile (\<lambda>c. c \<noteq> 47) (rev path))"

text \<open>The second half of \<^verbatim>\<open>exec\<close>: stack, arguments, and the switch to the new image.\<close>

definition exec_stack :: "(nat \<Rightarrow> unit kM) \<Rightarrow> (nat \<Rightarrow> unit kM) \<Rightarrow> u8 list \<Rightarrow> u8 list list \<Rightarrow> u32 \<Rightarrow> u32 \<Rightarrow> u32 \<Rightarrow> int kM" where
  "exec_stack lr lw path argv pgdir entry sz =
     bind (allocuvm pgdir (PGROUNDUP sz) (PGROUNDUP sz + 2 * PGSIZE)) (\<lambda>sz.
     if sz = 0 then exec_bad lr lw pgdir None
     else
       bind (clearpteu pgdir (sz - 2 * PGSIZE)) (\<lambda>_.
       bind (exec_args pgdir argv 0 sz []) (\<lambda>r.
       case r of
         None \<Rightarrow> exec_bad lr lw pgdir None
       | Some (sp, us) \<Rightarrow>
           let argc = length argv;
               ustack = [0xFFFFFFFF, of_nat argc, sp - of_nat ((argc + 1) * 4)] @ us @ [0];
               sp = sp - of_nat ((3 + argc + 1) * 4)
           in
           bind (copyout pgdir sp (bytes32s ustack)) (\<lambda>r.
           if r < 0 then exec_bad lr lw pgdir None
           else
             bind myproc (\<lambda>me.
             bind (gets (\<lambda>s. p_pgdir (ptable s me))) (\<lambda>oldpgdir.
             bind (upd_proc me (\<lambda>q. q\<lparr>p_name := bsplice (p_name q) 0 (safestrcpy (last_elem path @ [0]) 16),
                p_pgdir := pgdir, p_sz := sz, p_tf := (p_tf q)\<lparr>tf_eip := entry, tf_esp := sp\<rparr>\<rparr>)) (\<lambda>_.
             bind (switchuvm (Some me)) (\<lambda>_.
             bind (freevm oldpgdir) (\<lambda>_.
             ret 0)))))))))"

definition exec :: "(nat \<Rightarrow> unit kM) \<Rightarrow> (nat \<Rightarrow> unit kM) \<Rightarrow> u8 list \<Rightarrow> u8 list list \<Rightarrow> int kM" where
  "exec lr lw path argv =
     bind begin_op (\<lambda>_.
     bind (namei lr path) (\<lambda>r.
     case r of
       None \<Rightarrow> bind (end_op lr lw) (\<lambda>_. ret (-1))
     | Some ip \<Rightarrow>
         bind (ilock lr (Some ip)) (\<lambda>_.
         bind (readi lr ip 0 52) (\<lambda>(r, d).
         let elf = get_elfhdr d in
         if r \<noteq> 52 \<or> elf_magic elf \<noteq> ELF_MAGIC then exec_bad lr lw 0 (Some ip)
         else
           bind setupkvm (\<lambda>pgdir.
           if pgdir = 0 then exec_bad lr lw 0 (Some ip)
           else
             bind (exec_load lr pgdir ip (unat (elf_phnum elf)) (elf_phoff elf) 0) (\<lambda>r.
             case r of
               None \<Rightarrow> exec_bad lr lw pgdir (Some ip)
             | Some sz \<Rightarrow>
                 bind (iunlockput lr ip) (\<lambda>_.
                 bind (end_op lr lw) (\<lambda>_.
                 exec_stack lr lw path argv pgdir (elf_entry elf) sz))))))))"

subsection \<open>The system call\<close>

text \<open>The loop of \<^verbatim>\<open>sys_exec\<close> with room for \<open>k\<close> more entries of \<^verbatim>\<open>argv\<close>.\<close>

primrec fetch_argv :: "nat \<Rightarrow> u32 \<Rightarrow> u8 list list option kM" where
  "fetch_argv 0 uargv = ret None"
| "fetch_argv (Suc k) uargv =
     bind (fetchint uargv) (\<lambda>r.
     case r of
       None \<Rightarrow> ret None
     | Some uarg \<Rightarrow>
         if uarg = 0 then ret (Some [])
         else
           bind (fetchstr uarg) (\<lambda>r.
           case r of
             None \<Rightarrow> ret None
           | Some a \<Rightarrow>
               bind (fetch_argv k (uargv + 4)) (\<lambda>r.
               ret (map_option (\<lambda>as. a # as) r))))"

definition sys_exec :: "(nat \<Rightarrow> unit kM) \<Rightarrow> (nat \<Rightarrow> unit kM) \<Rightarrow> int kM" where
  "sys_exec lr lw =
     bind (argstr 0) (\<lambda>r.
     case r of
       None \<Rightarrow> ret (-1)
     | Some path \<Rightarrow>
         bind (argint 1) (\<lambda>r.
         case r of
           None \<Rightarrow> ret (-1)
         | Some uargv \<Rightarrow>
             bind (fetch_argv MAXARG uargv) (\<lambda>r.
             case r of
               None \<Rightarrow> ret (-1)
             | Some argv \<Rightarrow> exec lr lw path argv)))"

end
