(* ===== verification/Syscall.thy ===== *)
theory Syscall
  imports Exec
begin

text \<open>
  Process system calls (\<^verbatim>\<open>sysproc.c\<close>), the dispatch of system calls (\<^verbatim>\<open>syscall\<close> of \<^verbatim>\<open>syscall.c\<close>), traps
  (\<^verbatim>\<open>trap.c\<close>) and the start of the kernel (\<^verbatim>\<open>main.c\<close>). A trap gets, besides the trap frame, what the hardware
  supplies: the CPU number, the process running on the CPU (none while the scheduler idles), the
  codes waiting in the keyboard controller and the serial port, and the return addresses that
  \<^verbatim>\<open>procdump\<close> prints.
\<close>

subsection \<open>Process system calls\<close>

definition sys_fork :: "int kM" where
  "sys_fork = fork"

definition sys_exit :: "(nat \<Rightarrow> unit kM) \<Rightarrow> (nat \<Rightarrow> unit kM) \<Rightarrow> int kM" where
  "sys_exit lr lw =
     bind (argint 0) (\<lambda>r.
     case r of None \<Rightarrow> ret (-1) | Some status \<Rightarrow> exit lr lw (sint status))"

definition sys_wait :: "int kM" where
  "sys_wait = wait"

definition sys_kill :: "int kM" where
  "sys_kill =
     bind (argint 0) (\<lambda>r.
     case r of None \<Rightarrow> ret (-1) | Some pid \<Rightarrow> kill (sint pid))"

definition sys_getpid :: "int kM" where
  "sys_getpid = bind myproc (\<lambda>me. gets (\<lambda>s. p_pid (ptable s me)))"

definition sys_sbrk :: "int kM" where
  "sys_sbrk =
     bind (argint 0) (\<lambda>r.
     case r of
       None \<Rightarrow> ret (-1)
     | Some n \<Rightarrow>
         bind myproc (\<lambda>me.
         bind (gets (\<lambda>s. p_sz (ptable s me))) (\<lambda>addr.
         bind (growproc n) (\<lambda>r.
         ret (if r < 0 then -1 else sint addr)))))"

text \<open>The loop of \<^verbatim>\<open>sys_sleep\<close>, where the call goes on after a wake-up; \<^verbatim>\<open>n\<close> is compared as an unsigned number.\<close>

definition sys_sleep_loop :: "u32 \<Rightarrow> u32 \<Rightarrow> int kM" where
  "sys_sleep_loop ticks0 n =
     bind (gets ticks) (\<lambda>t.
     if t - ticks0 < n then
       bind myproc (\<lambda>me.
       bind (gets (\<lambda>s. p_killed (ptable s me))) (\<lambda>killed.
       if killed then bind (release Lk_ticks) (\<lambda>_. ret (-1))
       else sleep Ch_ticks Lk_ticks))
     else bind (release Lk_ticks) (\<lambda>_. ret 0))"

definition sys_sleep :: "int kM" where
  "sys_sleep =
     bind (argint 0) (\<lambda>r.
     case r of
       None \<Rightarrow> ret (-1)
     | Some n \<Rightarrow>
         bind (acquire Lk_ticks) (\<lambda>_.
         bind (gets ticks) (\<lambda>ticks0.
         sys_sleep_loop ticks0 n)))"

definition sys_uptime :: "int kM" where
  "sys_uptime =
     bind (acquire Lk_ticks) (\<lambda>_.
     bind (gets ticks) (\<lambda>xticks.
     bind (release Lk_ticks) (\<lambda>_.
     ret (sint xticks))))"

subsection \<open>Dispatch\<close>

definition syscalls :: "(nat \<Rightarrow> unit kM) \<Rightarrow> (nat \<Rightarrow> unit kM) \<Rightarrow> int \<Rightarrow> int kM option" where
  "syscalls lr lw num =
     (if num = 1 then Some sys_fork else if num = 2 then Some (sys_exit lr lw)
      else if num = 3 then Some sys_wait else if num = 4 then Some (sys_pipe lr lw)
      else if num = 5 then Some (sys_read lr) else if num = 6 then Some sys_kill
      else if num = 7 then Some (sys_exec lr lw) else if num = 8 then Some (sys_fstat lr)
      else if num = 9 then Some (sys_chdir lr lw) else if num = 10 then Some sys_dup
      else if num = 11 then Some sys_getpid else if num = 12 then Some sys_sbrk
      else if num = 13 then Some sys_sleep else if num = 14 then Some sys_uptime
      else if num = 15 then Some (sys_open lr lw) else if num = 16 then Some (sys_write lr lw)
      else if num = 17 then Some (sys_mknod lr lw) else if num = 18 then Some (sys_unlink lr lw)
      else if num = 19 then Some (sys_link lr lw) else if num = 20 then Some (sys_mkdir lr lw)
      else if num = 21 then Some (sys_close lr lw) else if num = 22 then Some (sys_mount lr lw)
      else if num = 23 then Some (sys_umount lr lw) else if num = 24 then Some sys_unshare
      else None)"

definition syscall :: "(nat \<Rightarrow> unit kM) \<Rightarrow> (nat \<Rightarrow> unit kM) \<Rightarrow> unit kM" where
  "syscall lr lw =
     bind myproc (\<lambda>me.
     bind (gets (\<lambda>s. sint (tf_eax (p_tf (ptable s me))))) (\<lambda>num.
     bind (case syscalls lr lw num of
             Some f \<Rightarrow> f
           | None \<Rightarrow> ret (-1)) (\<lambda>r.
     upd_proc me (\<lambda>q. q\<lparr>p_tf := (p_tf q)\<lparr>tf_eax := of_int r\<rparr>\<rparr>))))"

subsection \<open>Traps\<close>

abbreviation (input) T_SYSCALL :: u32 where "T_SYSCALL \<equiv> 64"
abbreviation (input) T_IRQ0 :: u32 where "T_IRQ0 \<equiv> 32"

definition timer_tick :: "nat \<Rightarrow> unit kM" where
  "timer_tick cpu =
     when_do (cpu = 0)
       (bind (acquire Lk_ticks) (\<lambda>_.
        bind (modify (\<lambda>s. s\<lparr>ticks := ticks s + 1\<rparr>)) (\<lambda>_.
        bind (wakeup Ch_ticks) (\<lambda>_.
        release Lk_ticks))))"

definition exit_if_killed :: "(nat \<Rightarrow> unit kM) \<Rightarrow> (nat \<Rightarrow> unit kM) \<Rightarrow> nat option \<Rightarrow> bool \<Rightarrow> unit kM" where
  "exit_if_killed lr lw me user =
     (case me of
        None \<Rightarrow> ret ()
      | Some p \<Rightarrow>
          bind (gets (\<lambda>s. p_killed (ptable s p))) (\<lambda>killed.
          if killed \<and> user then exit lr lw 0 else ret ()))"

text \<open>The \<^verbatim>\<open>switch\<close> on the trap number.\<close>

definition trap_device :: "nat \<Rightarrow> nat option \<Rightarrow> u32 list \<Rightarrow> u32 list \<Rightarrow> (nat \<Rightarrow> u32 list) \<Rightarrow> trapframe \<Rightarrow> unit kM" where
  "trap_device cpu me kbd uart pcs tf =
     (if tf_trapno tf = T_IRQ0 then timer_tick cpu
      else if tf_trapno tf = T_IRQ0 + 14 then ideintr
      else if tf_trapno tf = T_IRQ0 + 14 + 1 then ret ()
      else if tf_trapno tf = T_IRQ0 + 1 then consoleintr pcs kbd
      else if tf_trapno tf = T_IRQ0 + 4 then consoleintr pcs uart
      else if tf_trapno tf = T_IRQ0 + 7 \<or> tf_trapno tf = T_IRQ0 + 31 then ret ()
      else
        (case me of
           None \<Rightarrow> panic ''trap''
         | Some p \<Rightarrow>
             if tf_cs tf AND 3 = 0 then panic ''trap''
             else upd_proc p (\<lambda>q. q\<lparr>p_killed := True\<rparr>)))"

text \<open>A process that yields at a clock tick goes on with the last check when it runs again.\<close>

definition trap_resume :: "(nat \<Rightarrow> unit kM) \<Rightarrow> (nat \<Rightarrow> unit kM) \<Rightarrow> nat option \<Rightarrow> trapframe \<Rightarrow> unit kM" where
  "trap_resume lr lw me tf = exit_if_killed lr lw me (tf_cs tf AND 3 = 3)"

definition trap :: "(nat \<Rightarrow> unit kM) \<Rightarrow> (nat \<Rightarrow> unit kM) \<Rightarrow> nat \<Rightarrow> nat option \<Rightarrow> u32 list \<Rightarrow> u32 list \<Rightarrow> (nat \<Rightarrow> u32 list)
    \<Rightarrow> trapframe \<Rightarrow> unit kM" where
  "trap lr lw cpu me kbd uart pcs tf =
     (if tf_trapno tf = T_SYSCALL then
        bind (deref me) (\<lambda>p.
        bind (exit_if_killed lr lw (Some p) True) (\<lambda>_.
        bind (upd_proc p (\<lambda>q. q\<lparr>p_tf := tf\<rparr>)) (\<lambda>_.
        bind (syscall lr lw) (\<lambda>_.
        exit_if_killed lr lw (Some p) True))))
      else
        bind (trap_device cpu me kbd uart pcs tf) (\<lambda>_.
        bind (exit_if_killed lr lw me (tf_cs tf AND 3 = 3)) (\<lambda>_.
        bind (case me of
                None \<Rightarrow> ret ()
              | Some p \<Rightarrow>
                  bind (gets (\<lambda>s. p_state (ptable s p))) (\<lambda>st.
                  if st = RUNNING \<and> tf_trapno tf = T_IRQ0 then yield else ret ())) (\<lambda>_.
        trap_resume lr lw me tf))))"

subsection \<open>Start of the kernel\<close>

text \<open>\<^verbatim>\<open>main\<close> up to the scheduler, on one CPU; the calls that only program devices are left out.\<close>

definition main :: "(nat \<Rightarrow> unit kM) \<Rightarrow> u8 list \<Rightarrow> unit kM" where
  "main lr initcode =
     bind (gets kend) (\<lambda>e.
     bind (kinit1 e (P2V (4 * 1024 * 1024))) (\<lambda>_.
     bind kvmalloc (\<lambda>_.
     bind consoleinit (\<lambda>_.
     bind binit (\<lambda>_.
     bind (kinit2 (P2V (4 * 1024 * 1024)) (P2V PHYSTOP)) (\<lambda>_.
     bind mountinit (\<lambda>_.
     userinit lr initcode)))))))"

end
