(* ===== verification/Grep.thy ===== *)
theory Grep
  imports CString
begin

text \<open>
  The user program \<^verbatim>\<open>grep\<close> (\<^verbatim>\<open>grep.c\<close>) with the functions of the user library it calls (\<^verbatim>\<open>ulib.c\<close>). Strings are byte lists read as
  C strings, as in \<^verbatim>\<open>CString\<close>; a pointer into a string is the rest of the list.
\<close>

subsection \<open>The user library\<close>

text \<open>\<^verbatim>\<open>strcpy(s, t)\<close>: the memory at \<open>s\<close> afterwards.\<close>

function strcpy :: "u8 list \<Rightarrow> u8 list \<Rightarrow> u8 list" where
  "strcpy s t = (if peek t = 0 then 0 # tl s else peek t # strcpy (tl s) (tl t))"
  by pat_completeness auto
termination
  by (relation "measure (\<lambda>(s, t). length t)") (auto simp: peek_def split: list.splits)

function strcmp :: "u8 list \<Rightarrow> u8 list \<Rightarrow> int" where
  "strcmp p q = (if peek p \<noteq> 0 \<and> peek p = peek q then strcmp (tl p) (tl q) else uint (peek p) - uint (peek q))"
  by pat_completeness auto
termination
  by (relation "measure (\<lambda>(p, q). length p)") (auto simp: peek_def split: list.splits)

function strchr :: "u8 list \<Rightarrow> u8 \<Rightarrow> u8 list option" where
  "strchr s c = (if peek s = 0 then None else if peek s = c then Some s else strchr (tl s) c)"
  by pat_completeness auto
termination
  by (relation "measure (\<lambda>(s, c). length s)") (auto simp: peek_def split: list.splits)

declare strcpy.simps [simp del] strcmp.simps [simp del] strchr.simps [simp del]

lemma peek_nz: "peek p \<noteq> 0 \<Longrightarrow> p = peek p # tl p"
  by (cases p) auto

lemma cstr_rec: "cstr p = (if peek p = 0 then [] else peek p # cstr (tl p))"
  by (cases p) auto

lemma strcpy_cstr: "cstr (strcpy s t) = cstr t"
  by (induction s t rule: strcpy.induct) (subst strcpy.simps, auto simp: cstr_rec [of t for t])

lemma strcmp_eq: "strcmp p q = 0 \<longleftrightarrow> cstr p = cstr q"
proof (induction p q rule: strcmp.induct)
  case (1 p q)
  have "uint (peek p) - uint (peek q) = 0 \<longleftrightarrow> peek p = peek q" by (simp add: word_uint_eq_iff)
  then show ?case using 1 by (subst strcmp.simps) (auto simp: cstr_rec [of p] cstr_rec [of q])
qed

lemma strchr_split:
  "strchr s c = (if c \<in> set (cstr s) then Some (dropWhile (\<lambda>x. x \<noteq> c) s) else None)"
proof (induction s c rule: strchr.induct)
  case (1 s c)
  show ?case
  proof (cases "peek s = 0")
    case True
    then show ?thesis by (subst strchr.simps) (simp add: cstr_rec [of s])
  next
    case False
    then show ?thesis using 1 peek_nz [OF False] by (subst strchr.simps) (cases s, auto)
  qed
qed

subsection \<open>The matcher\<close>

text \<open>The characters \<open>* . $ ^\<close> are 42, 46, 36 and 94.\<close>

text \<open>\<open>here\<close> is \<^verbatim>\<open>matchhere\<close> for the rest of the pattern.\<close>

function matchstar :: "u8 \<Rightarrow> (u8 list \<Rightarrow> bool) \<Rightarrow> u8 list \<Rightarrow> bool" where
  "matchstar c here tt =
     (if here tt then True
      else if peek tt \<noteq> 0 \<and> (peek tt = c \<or> c = 46) then matchstar c here (tl tt)
      else False)"
  by pat_completeness auto
termination
  by (relation "measure (\<lambda>(c, here, tt). length tt)") (auto simp: peek_def split: list.splits)

function matchhere :: "u8 list \<Rightarrow> u8 list \<Rightarrow> bool" where
  "matchhere re tt =
     (if peek re = 0 then True
      else if peek (tl re) = 42 then matchstar (peek re) (\<lambda>x. matchhere (tl (tl re)) x) tt
      else if peek re = 36 \<and> peek (tl re) = 0 then peek tt = 0
      else if peek tt \<noteq> 0 \<and> (peek re = 46 \<or> peek re = peek tt) then matchhere (tl re) (tl tt)
      else False)"
  by pat_completeness auto
termination
  by (relation "measure (\<lambda>(re, tt). length re)") (auto simp: peek_def split: list.splits)

declare matchhere.simps [simp del] matchstar.simps [simp del]

function match_from :: "u8 list \<Rightarrow> u8 list \<Rightarrow> bool" where
  "match_from re tt = (if matchhere re tt then True else if peek tt \<noteq> 0 then match_from re (tl tt) else False)"
  by pat_completeness auto
termination
  by (relation "measure (\<lambda>(re, tt). length tt)") (auto simp: peek_def split: list.splits)

declare match_from.simps [simp del]

definition match :: "u8 list \<Rightarrow> u8 list \<Rightarrow> bool" where
  "match re tt = (if peek re = 94 then matchhere (tl re) tt else match_from re tt)"

subsection \<open>What a pattern means\<close>

datatype atom = Chr u8 | Dot

datatype pat = Emp | Eos | One atom pat | Many atom pat

definition atom_of :: "u8 \<Rightarrow> atom" where
  "atom_of c = (if c = 46 then Dot else Chr c)"

fun fits :: "atom \<Rightarrow> u8 \<Rightarrow> bool" where
  "fits (Chr c) x \<longleftrightarrow> x = c"
| "fits Dot x \<longleftrightarrow> True"

function pat_of :: "u8 list \<Rightarrow> pat" where
  "pat_of re =
     (if peek re = 0 then Emp
      else if peek (tl re) = 42 then Many (atom_of (peek re)) (pat_of (tl (tl re)))
      else if peek re = 36 \<and> peek (tl re) = 0 then Eos
      else One (atom_of (peek re)) (pat_of (tl re)))"
  by pat_completeness auto
termination
  by (relation "measure length") (auto simp: peek_def split: list.splits)

declare pat_of.simps [simp del]

lemma pat_of_Cons [simp]:
  "pat_of [] = Emp"
  "pat_of (c # r) =
     (if c = 0 then Emp
      else if peek r = 42 then Many (atom_of c) (pat_of (tl r))
      else if c = 36 \<and> peek r = 0 then Eos
      else One (atom_of c) (pat_of r))"
  by (subst pat_of.simps, simp)+

text \<open>The pattern describes a beginning of the text.\<close>

inductive matches :: "pat \<Rightarrow> u8 list \<Rightarrow> bool" where
  Emp: "matches Emp t"
| Eos: "matches Eos []"
| One: "fits a c \<Longrightarrow> matches p t \<Longrightarrow> matches (One a p) (c # t)"
| Many: "\<forall>c\<in>set u. fits a c \<Longrightarrow> matches p t \<Longrightarrow> matches (Many a p) (u @ t)"

inductive_simps matches_simps [simp]: "matches Emp t" "matches Eos t" "matches (One a p) t"

inductive_cases matches_ManyE: "matches (Many a p) t"

lemma matches_Many: "matches (Many a p) t \<longleftrightarrow> matches p t \<or> (\<exists>c u. t = c # u \<and> fits a c \<and> matches (Many a p) u)"
proof
  assume "matches (Many a p) t"
  then obtain u v where "t = u @ v" "\<forall>c\<in>set u. fits a c" "matches p v" by (rule matches_ManyE)
  then show "matches p t \<or> (\<exists>c u. t = c # u \<and> fits a c \<and> matches (Many a p) u)"
    by (cases u) (auto intro: Many)
next
  assume "matches p t \<or> (\<exists>c u. t = c # u \<and> fits a c \<and> matches (Many a p) u)"
  then show "matches (Many a p) t"
  proof (elim disjE exE conjE)
    assume "matches p t"
    then show ?thesis using Many [of "[]" a p t] by simp
  next
    fix c u assume t: "t = c # u" "fits a c" "matches (Many a p) u"
    from t(3) obtain v w where "u = v @ w" "\<forall>c\<in>set v. fits a c" "matches p w" by (rule matches_ManyE)
    then show ?thesis using Many [of "c # v" a p w] t by simp
  qed
qed

lemma matches_Many_list:
  "matches (Many a p) [] \<longleftrightarrow> matches p []"
  "matches (Many a p) (c # u) \<longleftrightarrow> matches p (c # u) \<or> fits a c \<and> matches (Many a p) u"
  by (subst matches_Many, simp)+

lemma fits_atom_of: "fits (atom_of c) x \<longleftrightarrow> c = 46 \<or> x = c"
  by (simp add: atom_of_def)

lemma matchstar_matches:
  assumes "\<And>x. here x \<longleftrightarrow> matches p (cstr x)"
  shows "matchstar c here tt \<longleftrightarrow> matches (Many (atom_of c) p) (cstr tt)"
proof (induction tt rule: length_induct)
  case (1 tt)
  have c: "cstr tt = (if peek tt = 0 then [] else peek tt # cstr (tl tt))" by (rule cstr_rec)
  have h: "here tt \<longleftrightarrow> matches p (cstr tt)" by (rule assms)
  have "length (tl tt) < length tt" if "peek tt \<noteq> 0" using that by (cases tt) auto
  then have "matchstar c here (tl tt) \<longleftrightarrow> matches (Many (atom_of c) p) (cstr (tl tt))" if "peek tt \<noteq> 0"
    using 1 that by blast
  then show ?case
    by (subst matchstar.simps, subst matches_Many) (auto simp: fits_atom_of h c)
qed

lemma matchhere_matches: "matchhere re tt \<longleftrightarrow> matches (pat_of re) (cstr tt)"
proof (induction re tt rule: matchhere.induct)
  case (1 re tt)
  have c: "cstr tt = (if peek tt = 0 then [] else peek tt # cstr (tl tt))" by (rule cstr_rec)
  show ?case
  proof (cases "peek re \<noteq> 0 \<and> peek (tl re) = 42")
    case True
    then have "matchhere (tl (tl re)) x \<longleftrightarrow> matches (pat_of (tl (tl re))) (cstr x)" for x using "1.IH"(1) by blast
    from matchstar_matches [of "\<lambda>x. matchhere (tl (tl re)) x", OF this] True show ?thesis
      by (subst matchhere.simps, subst pat_of.simps) simp
  next
    case False
    then show ?thesis using "1.IH"(2) by (subst matchhere.simps, subst pat_of.simps) (auto simp: fits_atom_of c)
  qed
qed

lemma match_from_suffix: "match_from re tt \<longleftrightarrow> (\<exists>u v. cstr tt = u @ v \<and> matches (pat_of re) v)"
proof (induction re tt rule: match_from.induct)
  case (1 re tt)
  have s: "(\<exists>u v. cstr tt = u @ v \<and> P v) \<longleftrightarrow> P (cstr tt) \<or> (peek tt \<noteq> 0 \<and> (\<exists>u v. cstr (tl tt) = u @ v \<and> P v))" for P
    unfolding cstr_rec [of tt] by (auto simp: Cons_eq_append_conv)
  show ?case using 1 unfolding s by (subst match_from.simps) (auto simp: matchhere_matches)
qed

text \<open>The line is one that the pattern describes.\<close>

definition describes :: "u8 list \<Rightarrow> u8 list \<Rightarrow> bool" where
  "describes re l \<longleftrightarrow>
     (if peek re = 94 then matches (pat_of (tl re)) l else (\<exists>u v. l = u @ v \<and> matches (pat_of re) v))"

lemma match_describes: "match re tt \<longleftrightarrow> describes re (cstr tt)"
  by (simp add: match_def describes_def matchhere_matches match_from_suffix)

subsection \<open>The program\<close>

text \<open>
  The inner loop of \<^verbatim>\<open>grep\<close>: what it writes for the bytes from \<open>p\<close> on, and where \<^verbatim>\<open>p\<close> is at the end. The byte at \<^verbatim>\<open>q\<close> is 0 during the call of \<^verbatim>\<open>match\<close>.
\<close>

function grep_lines :: "u8 list \<Rightarrow> u8 list \<Rightarrow> u8 list \<times> u8 list" where
  "grep_lines pattern p =
     (case strchr p 10 of
        None \<Rightarrow> ([], p)
      | Some q \<Rightarrow>
          let line = take (length p - length q) p;
              r = grep_lines pattern (tl q)
          in ((if match pattern line then line @ [10] else []) @ fst r, snd r))"
  by pat_completeness auto
termination
proof (relation "measure (\<lambda>(pattern, p). length p)", simp)
  fix pattern p q assume "strchr p 10 = Some q"
  then have "q = dropWhile (\<lambda>x. x \<noteq> 10) p" "10 \<in> set p"
    by (auto simp: strchr_split cstr_def split: if_splits dest: set_takeWhileD)
  then have "length q \<le> length p" "q \<noteq> []" by (auto simp: length_dropWhile_le)
  then show "((pattern, tl q), pattern, p) \<in> measure (\<lambda>(pattern, p). length p)" by (cases q) auto
qed

declare grep_lines.simps [simp del]

text \<open>
  A file descriptor from which \<^verbatim>\<open>read\<close> takes at most \<open>k\<close> bytes at a time: \<open>ns\<close> are the pieces in which the bytes arrive, an empty piece or
  none is the end of the file.
\<close>

definition read_piece :: "nat \<Rightarrow> u8 list list \<Rightarrow> u8 list \<times> u8 list list" where
  "read_piece k ns = (case ns of [] \<Rightarrow> ([], []) | n # ns \<Rightarrow> if length n \<le> k then (n, ns) else (take k n, drop k n # ns))"

text \<open>\<^verbatim>\<open>grep\<close>, with what it writes; \<open>m\<close> is what the 1024 bytes of the buffer hold from the last round.\<close>

function grep :: "u8 list \<Rightarrow> u8 list \<Rightarrow> u8 list list \<Rightarrow> u8 list" where
  "grep pattern m ns =
     (let (n, ns') = read_piece (1024 - length m - 1) ns in
      if n = [] then []
      else
        let r = grep_lines pattern (m @ n);
            rest = (if length (snd r) = length (m @ n) then [] else snd r)
        in fst r @ grep pattern rest ns')"
  by pat_completeness auto
termination
  by (relation "measure (\<lambda>(pattern, m, ns). length (concat ns))")
    (auto simp: read_piece_def split: list.splits if_splits)

declare grep.simps [simp del]

lemma grep_fits:
  assumes "n \<noteq> []" and "length (m @ n) < 1024"
  shows "grep pattern m (n # ns) =
     fst (grep_lines pattern (m @ n)) @
     grep pattern (if length (snd (grep_lines pattern (m @ n))) = length (m @ n) then [] else snd (grep_lines pattern (m @ n))) ns"
proof -
  have "length n \<le> 1023 - length m" using assms(2) by simp
  then show ?thesis using assms(1) by (subst grep.simps) (simp add: read_piece_def Let_def)
qed

lemma grep_end [simp]: "grep pattern m [] = []"
  by (subst grep.simps) (simp add: read_piece_def)

subsection \<open>What is printed\<close>

definition lines_of :: "u8 list list \<Rightarrow> u8 list" where
  "lines_of ls = concat (map (\<lambda>l. l @ [10]) ls)"

lemma lines_of_simps [simp]: "lines_of [] = []" "lines_of (l # ls) = l @ 10 # lines_of ls" "lines_of (ls @ ks) = lines_of ls @ lines_of ks"
  by (simp_all add: lines_of_def)

lemma cstr_line: "0 \<notin> set l \<Longrightarrow> cstr l = l" "0 \<notin> set l \<Longrightarrow> cstr (l @ x) = l @ cstr x"
  by (induction l) auto

lemma strchr_line:
  assumes "10 \<notin> set l" and "0 \<notin> set l"
  shows "strchr (l @ 10 # x) 10 = Some (10 # x)"
proof -
  have "dropWhile (\<lambda>y. y \<noteq> 10) (l @ 10 # x) = 10 # x" using assms(1) by (subst dropWhile_append2) auto
  then show ?thesis using assms by (simp add: strchr_split cstr_line)
qed

lemma grep_lines_whole:
  assumes "\<forall>l\<in>set ls. 10 \<notin> set l \<and> 0 \<notin> set l"
  shows "grep_lines pattern (lines_of ls) = (lines_of (filter (describes pattern) ls), [])"
  using assms
proof (induction ls)
  case Nil
  have "strchr [] 10 = None" by (simp add: strchr_split)
  then show ?case by (subst grep_lines.simps) simp
next
  case (Cons l ls)
  then have "strchr (l @ 10 # lines_of ls) 10 = Some (10 # lines_of ls)" by (intro strchr_line) auto
  moreover have "describes pattern l \<longleftrightarrow> match pattern l" using Cons.prems by (simp add: match_describes cstr_line)
  ultimately have "grep_lines pattern (l @ 10 # lines_of ls) =
      ((if describes pattern l then l @ [10] else []) @ fst (grep_lines pattern (lines_of ls)), snd (grep_lines pattern (lines_of ls)))"
    by (subst grep_lines.simps) (simp add: Let_def)
  then show ?case using Cons by simp
qed

text \<open>
  Property (C19). \<^verbatim>\<open>grep\<close> prints exactly the lines that the pattern describes, in their order, when each \<^verbatim>\<open>read\<close> delivers whole lines that fit into the buffer. A pattern that begins with \<open>^\<close> describes the
  lines that begin with what follows, another one the lines with a part that it describes; a character stands for itself, a dot for any character,
  a star for any number of what is before it, and a dollar sign at the end for the end of the line.
\<close>

theorem grep_correct:
  assumes "\<forall>ls\<in>set lss. ls \<noteq> [] \<and> length (lines_of ls) < 1024 \<and> (\<forall>l\<in>set ls. 10 \<notin> set l \<and> 0 \<notin> set l)"
  shows "grep pattern [] (map lines_of lss) = lines_of (filter (describes pattern) (concat lss))"
  using assms
proof (induction lss)
  case (Cons ls lss)
  then have "lines_of ls \<noteq> []" "length (lines_of ls) < 1024" by (auto simp: lines_of_def)
  then show ?case using Cons by (simp add: grep_fits grep_lines_whole)
qed simp

lemma matches_demo: "pat_of [97, 42, 98] = Many (Chr 97) (One (Chr 98) Emp)"
  by (simp add: atom_of_def)

theorem grep_correct_witness: "grep [94, 97, 42, 98] [] [lines_of [[97, 97, 98], [99]]] = [97, 97, 98, 10]"
proof -
  have "describes [94, 97, 42, 98] [97, 97, 98]" "\<not> describes [94, 97, 42, 98] [99]"
    by (simp_all add: describes_def matches_demo matches_Many_list del: pat_of_Cons)
  then show ?thesis using grep_correct [of "[[[97, 97, 98], [99]]]" "[94, 97, 42, 98]"] by simp
qed

text \<open>
  Property (C26). When a \<^verbatim>\<open>read\<close> ends before the end of the line and the buffer holds no newline, \<^verbatim>\<open>grep\<close> throws the buffer away: what the line began with is never
  matched, as if it had not been in the file.
\<close>

theorem grep_drops_partial_line:
  assumes "10 \<notin> set (m @ n)" and "n \<noteq> []" and "length (m @ n) < 1024"
  shows "grep pattern m (n # ns) = grep pattern [] ns"
proof -
  have "10 \<notin> set (cstr (m @ n))" using assms(1) by (auto simp: cstr_def dest: set_takeWhileD)
  then have "grep_lines pattern (m @ n) = ([], m @ n)" by (subst grep_lines.simps) (simp add: strchr_split)
  then show ?thesis using grep_fits [OF assms(2,3)] by simp
qed

theorem grep_drops_partial_line_witness: "grep [97] [] [[97], [10]] = [] \<and> grep [97] [] [[97, 10]] = [97, 10]"
proof -
  have "grep [97] [] [[10]] = []"
  proof -
    have "\<not> describes [97] []" by (simp add: describes_def)
    then have "grep_lines [97] (lines_of [[]]) = ([], [])" by (subst grep_lines_whole) simp_all
    then show ?thesis by (simp add: grep_fits)
  qed
  moreover have "grep [97] [] [[97, 10]] = [97, 10]"
  proof -
    have "describes [97] [97]" by (simp add: describes_def atom_of_def) (rule exI [of _ "[]"], simp)
    then have "grep_lines [97] (lines_of [[97]]) = ([97, 10], [])" by (subst grep_lines_whole) simp_all
    then show ?thesis by (simp add: grep_fits)
  qed
  ultimately show ?thesis using grep_drops_partial_line [of "[]" "[97]" "[97]" "[[10]]"] by simp
qed

end
