(* ===== verification/Kbd.thy ===== *)
theory Kbd
  imports Console
begin

text \<open>
  The keyboard (\<^verbatim>\<open>kbd.c\<close>, \<^verbatim>\<open>kbd.h\<close>). The static variable \<^verbatim>\<open>shift\<close> is an argument and a result of \<^verbatim>\<open>kbdgetc\<close>, and the
  values read from the two ports are its arguments. A map of 256 codes is a list for the codes without the escape prefix and a case distinction for the others.
\<close>

subsection \<open>Codes\<close>

abbreviation (input) SHIFT :: u32 where "SHIFT \<equiv> 1"
abbreviation (input) CTL :: u32 where "CTL \<equiv> 2"
abbreviation (input) ALT :: u32 where "ALT \<equiv> 4"
abbreviation (input) CAPSLOCK :: u32 where "CAPSLOCK \<equiv> 8"
abbreviation (input) NUMLOCK :: u32 where "NUMLOCK \<equiv> 16"
abbreviation (input) SCROLLLOCK :: u32 where "SCROLLLOCK \<equiv> 32"
abbreviation (input) E0ESC :: u32 where "E0ESC \<equiv> 64"

definition shiftcode :: "u8 \<Rightarrow> u32" where
  "shiftcode d =
     (if d = 0x1D \<or> d = 0x9D then CTL
      else if d = 0x2A \<or> d = 0x36 then SHIFT
      else if d = 0x38 \<or> d = 0xB8 then ALT
      else 0)"

definition togglecode :: "u8 \<Rightarrow> u32" where
  "togglecode d = (if d = 0x3A then CAPSLOCK else if d = 0x45 then NUMLOCK else if d = 0x46 then SCROLLLOCK else 0)"

text \<open>The entries of the three maps for escaped codes; Enter and the slash of the keypad differ.\<close>

definition keypad :: "u8 \<Rightarrow> u8 \<Rightarrow> u8 \<Rightarrow> u8" where
  "keypad enter slash d =
     (if d = 0x9C then enter else if d = 0xB5 then slash
      else if d = 0xC8 then 0xE2 else if d = 0xD0 then 0xE3
      else if d = 0xC9 then 0xE6 else if d = 0xD1 then 0xE7
      else if d = 0xCB then 0xE4 else if d = 0xCD then 0xE5
      else if d = 0x97 then 0xE0 else if d = 0xCF then 0xE1
      else if d = 0xD2 then 0xE8 else if d = 0xD3 then 0xE9
      else 0)"

definition normalmap :: "u8 \<Rightarrow> u8" where
  "normalmap d = (if unat d < 88 then
     [0, 27, 49, 50, 51, 52, 53, 54, 55, 56, 57, 48, 45, 61, 8, 9,
      113, 119, 101, 114, 116, 121, 117, 105, 111, 112, 91, 93, 10, 0, 97, 115,
      100, 102, 103, 104, 106, 107, 108, 59, 39, 96, 0, 92, 122, 120, 99, 118,
      98, 110, 109, 44, 46, 47, 0, 42, 0, 32, 0, 0, 0, 0, 0, 0,
      0, 0, 0, 0, 0, 0, 0, 55, 56, 57, 45, 52, 53, 54, 43, 49,
      50, 51, 48, 46, 0, 0, 0, 0] ! unat d
     else keypad 10 47 d)"

definition shiftmap :: "u8 \<Rightarrow> u8" where
  "shiftmap d = (if unat d < 88 then
     [0, 27, 33, 64, 35, 36, 37, 94, 38, 42, 40, 41, 95, 43, 8, 9,
      81, 87, 69, 82, 84, 89, 85, 73, 79, 80, 123, 125, 10, 0, 65, 83,
      68, 70, 71, 72, 74, 75, 76, 58, 34, 126, 0, 124, 90, 88, 67, 86,
      66, 78, 77, 60, 62, 63, 0, 42, 0, 32, 0, 0, 0, 0, 0, 0,
      0, 0, 0, 0, 0, 0, 0, 55, 56, 57, 45, 52, 53, 54, 43, 49,
      50, 51, 48, 46, 0, 0, 0, 0] ! unat d
     else keypad 10 47 d)"

definition ctlmap :: "u8 \<Rightarrow> u8" where
  "ctlmap d = (if unat d < 56 then
     [0, 0, 0, 0, 0, 0, 0, 0, 0, 0, 0, 0, 0, 0, 0, 0,
      17, 23, 5, 18, 20, 25, 21, 9, 15, 16, 0, 0, 13, 0, 1, 19,
      4, 6, 7, 8, 10, 11, 12, 0, 0, 0, 0, 28, 26, 24, 3, 22,
      2, 14, 13, 0, 0, 239, 0, 0] ! unat d
     else keypad 13 239 d)"

definition charcode :: "u32 \<Rightarrow> u8 \<Rightarrow> u8" where
  "charcode k = (if k = 0 then normalmap else if k = 1 then shiftmap else ctlmap)"

subsection \<open>Operations\<close>

definition kbdgetc :: "u32 \<Rightarrow> u8 \<Rightarrow> u8 \<Rightarrow> int \<times> u32" where
  "kbdgetc shift st data =
     (if st AND 1 = 0 then (-1, shift)
      else if data = 0xE0 then (0, shift OR E0ESC)
      else if data AND 0x80 \<noteq> 0 then
        (let data = (if shift AND E0ESC \<noteq> 0 then data else data AND 0x7F)
         in (0, shift AND NOT (shiftcode data OR E0ESC)))
      else
        let esc = shift AND E0ESC \<noteq> 0;
            data = (if esc then data OR 0x80 else data);
            shift = (if esc then shift AND NOT E0ESC else shift);
            shift = shift OR shiftcode data;
            shift = shift XOR togglecode data;
            c = charcode (shift AND (CTL OR SHIFT)) data;
            c = (if shift AND CAPSLOCK \<noteq> 0 then
                   if 97 \<le> c \<and> c \<le> 122 then c - 32
                   else if 65 \<le> c \<and> c \<le> 90 then c + 32
                   else c
                 else c)
        in (uint c, shift))"

text \<open>The calls of \<^verbatim>\<open>kbdgetc\<close> that \<^verbatim>\<open>consoleintr\<close> makes while bytes \<open>ds\<close> are waiting, and the value of \<^verbatim>\<open>shift\<close> at the end.\<close>

primrec kbd_chars :: "u32 \<Rightarrow> u8 list \<Rightarrow> u32 list \<times> u32" where
  "kbd_chars shift [] = ([], shift)"
| "kbd_chars shift (d # ds) =
     (let (c, shift) = kbdgetc shift 1 d; r = kbd_chars shift ds in (of_int c # fst r, snd r))"

definition kbdintr :: "(nat \<Rightarrow> u32 list) \<Rightarrow> u32 \<Rightarrow> u8 list \<Rightarrow> u32 kM" where
  "kbdintr pcs shift ds =
     bind (consoleintr pcs (fst (kbd_chars shift ds))) (\<lambda>_.
     ret (snd (kbd_chars shift ds)))"

subsection \<open>Letters\<close>

text \<open>The scan codes of the letters from a to z.\<close>

definition letter_codes :: "u8 list" where
  "letter_codes = [0x1E, 0x30, 0x2E, 0x20, 0x12, 0x21, 0x22, 0x23, 0x17, 0x24, 0x25, 0x26, 0x32,
     0x31, 0x18, 0x19, 0x10, 0x13, 0x1F, 0x14, 0x16, 0x2F, 0x11, 0x2D, 0x15, 0x2C]"

lemma letter_maps:
  assumes "i < 26"
  shows "normalmap (letter_codes ! i) = 97 + of_nat i" and "shiftmap (letter_codes ! i) = 65 + of_nat i"
    and "letter_codes ! i AND 0x80 = 0" and "letter_codes ! i \<noteq> 0xE0"
    and "shiftcode (letter_codes ! i) = 0" and "togglecode (letter_codes ! i) = 0"
proof -
  have i: "i \<in> set [0..<26]" using assms by simp
  have "\<forall>i\<in>set [0..<26]. normalmap (letter_codes ! i) = 97 + of_nat i \<and> shiftmap (letter_codes ! i) = 65 + of_nat i
    \<and> letter_codes ! i AND 0x80 = 0 \<and> letter_codes ! i \<noteq> 0xE0 \<and> shiftcode (letter_codes ! i) = 0 \<and> togglecode (letter_codes ! i) = 0"
    by code_simp
  with i show "normalmap (letter_codes ! i) = 97 + of_nat i" "shiftmap (letter_codes ! i) = 65 + of_nat i"
    "letter_codes ! i AND 0x80 = 0" "letter_codes ! i \<noteq> 0xE0" "shiftcode (letter_codes ! i) = 0" "togglecode (letter_codes ! i) = 0"
    by blast+
qed

lemma shift_bits: "(s :: u32) AND 2 = 0 \<Longrightarrow> s AND 3 = s AND 1"
proof (rule bit_word_eqI)
  fix n assume z: "s AND 2 = 0" and n: "n < LENGTH(32)"
  have m: "(3 :: u32) = mask 2" by (simp add: mask_eq_exp_minus_1)
  have "bit (s AND 2) 1 \<longleftrightarrow> bit s 1" by (simp add: bit_and_iff)
  then have "\<not> bit s 1" using z by simp
  then show "bit (s AND 3) n = bit (s AND 1) n" unfolding m by (auto simp: bit_and_iff bit_mask_iff bit_1_iff less_2_cases_iff)
qed

lemma kbdgetc_plain:
  assumes "st AND 1 \<noteq> 0" and "d AND 0x80 = 0" and "d \<noteq> 0xE0" and "shift AND E0ESC = 0" and "shiftcode d = 0" and "togglecode d = 0"
    and "charcode (shift AND 3) d = c"
  shows "kbdgetc shift st d = (uint (if shift AND CAPSLOCK \<noteq> 0 then
                   if 97 \<le> c \<and> c \<le> 122 then c - 32
                   else if 65 \<le> c \<and> c \<le> 90 then c + 32
                   else c
                 else c), shift)"
  using assms by (simp add: kbdgetc_def)

lemma letter_range: "i < 26 \<Longrightarrow> unat (97 + of_nat i :: u8) = 97 + i" "i < 26 \<Longrightarrow> unat (65 + of_nat i :: u8) = 65 + i"
  by (simp_all add: unat_word_ariths unat_of_nat take_bit_nat_eq_self)

text \<open>
  A letter key gives the capital letter exactly if one of shift and caps lock is on, and leaves the shift state.
\<close>

theorem kbd_letters:
  assumes "i < 26" and "st AND 1 \<noteq> 0" and "shift AND E0ESC = 0" and "shift AND CTL = 0"
  shows "kbdgetc shift st (letter_codes ! i) =
    (int i + (if (shift AND SHIFT \<noteq> 0) \<noteq> (shift AND CAPSLOCK \<noteq> 0) then 65 else 97), shift)"
proof -
  note L = letter_maps [OF assms(1)]
  have k: "shift AND 3 = shift AND 1" by (rule shift_bits [OF assms(4)])
  have u: "uint (97 + of_nat i :: u8) = 97 + int i" "uint (65 + of_nat i :: u8) = 65 + int i"
    using letter_range [OF assms(1)] by (simp_all only: uint_nat of_nat_add of_nat_numeral)
  have one: "shift AND 1 = 0 \<or> shift AND 1 = 1" by (cases "even shift") (simp_all add: and_one_eq mod_2_eq_odd)
  have r: "97 \<le> (97 + of_nat i :: u8)" "(97 + of_nat i :: u8) \<le> 122" "\<not> 97 \<le> (65 + of_nat i :: u8)"
    "65 \<le> (65 + of_nat i :: u8)" "(65 + of_nat i :: u8) \<le> 90"
    using letter_range [OF assms(1)] assms(1) by (simp_all add: word_le_nat_alt)
  have s: "(97 + of_nat i :: u8) - 32 = 65 + of_nat i" "(65 + of_nat i :: u8) + 32 = 97 + of_nat i" by simp_all
  show ?thesis
  proof (cases "shift AND 1 = 0")
    case True
    then have "charcode (shift AND 3) (letter_codes ! i) = 97 + of_nat i" unfolding k using L(1) by (simp add: charcode_def)
    from kbdgetc_plain [OF assms(2) L(3,4) assms(3) L(5,6) this] True r(1,2) s(1) u show ?thesis by (simp del: of_nat_add)
  next
    case False
    then have o: "shift AND 1 = 1" using one by blast
    then have "charcode (shift AND 3) (letter_codes ! i) = 65 + of_nat i" unfolding k using L(2) by (simp add: charcode_def)
    from kbdgetc_plain [OF assms(2) L(3,4) assms(3) L(5,6) this] o r(3-5) s(2) u show ?thesis by (simp del: of_nat_add)
  qed
qed

end
