(* ===== verification/Memide.thy ===== *)
theory Memide
  imports Ide
begin

text \<open>
  The driver \<^verbatim>\<open>memide.c\<close> that keeps the disk in memory and can be linked instead of \<^verbatim>\<open>ide.c\<close>. The memory disk is drive 1 of
  the machine, and \<^verbatim>\<open>disksize\<close>, its number of blocks, is an argument. The interrupt handler of this driver does nothing.
\<close>

definition mem_ideintr :: "unit kM" where
  "mem_ideintr = ret ()"

definition mem_iderw :: "nat \<Rightarrow> nat \<Rightarrow> unit kM" where
  "mem_iderw disksize b =
     bind (holdingsleep (SlBuf b)) (\<lambda>h.
     bind (panic_if (\<not> h) ''iderw: buf not locked'') (\<lambda>_.
     bind (gets (\<lambda>s. bufs s b)) (\<lambda>bf.
     bind (panic_if (b_valid bf \<and> \<not> b_dirty bf) ''iderw: nothing to do'') (\<lambda>_.
     bind (panic_if (b_dev bf \<noteq> 1) ''iderw: request not for disk 1'') (\<lambda>_.
     bind (panic_if (disksize \<le> unat (b_blockno bf)) ''iderw: block out of range'') (\<lambda>_.
     bind (if b_dirty bf then
             bind (upd_buf b (\<lambda>bf. bf\<lparr>b_dirty := False\<rparr>)) (\<lambda>_.
             modify (write_sector 1 (unat (b_blockno bf)) (b_data bf)))
           else
             bind (gets (\<lambda>s. disk s 1 (unat (b_blockno bf)))) (\<lambda>x.
             upd_buf b (\<lambda>bf. bf\<lparr>b_data := x\<rparr>))) (\<lambda>_.
     upd_buf b (\<lambda>bf. bf\<lparr>b_valid := True\<rparr>))))))))"

text \<open>
  Property (C20). The two disk drivers agree: on a locked buffer of disk 1 that is inside both disks, and with an IDE controller that is ready and
  reports no error, \<^verbatim>\<open>iderw\<close> of \<^verbatim>\<open>ide.c\<close> and of \<^verbatim>\<open>memide.c\<close> leave the same buffers and the same disk; \<^verbatim>\<open>ide.c\<close> also wakes the processes that wait for
  the buffer. Without the buffer's lock, or with nothing to do, both panic with the same message.
\<close>

theorem drivers_agree:
  assumes "ide_ready s" and "b_dev (bufs s b) = 1" and "unat (b_blockno (bufs s b)) < FSSIZE" and "unat (b_blockno (bufs s b)) < n"
  shows "(my_buf s b \<and> \<not> (b_valid (bufs s b) \<and> \<not> b_dirty (bufs s b)) \<longrightarrow>
      (\<exists>u. mem_iderw n b s = Ret () u \<and> iderw b s = Ret () (wake (Ch_buf b) u)))
    \<and> (my_buf s b \<and> b_valid (bufs s b) \<and> \<not> b_dirty (bufs s b) \<longrightarrow>
      mem_iderw n b s = Panic ''iderw: nothing to do'' \<and> iderw b s = Panic ''iderw: nothing to do'')
    \<and> (\<not> sl_locked (b_lock (bufs s b)) \<longrightarrow>
      mem_iderw n b s = Panic ''iderw: buf not locked'' \<and> iderw b s = Panic ''iderw: buf not locked'')"
proof (intro conjI impI)
  have h: "held s = []" using assms(1) by (simp add: ide_ready_def)
  show "\<exists>u. mem_iderw n b s = Ret () u \<and> iderw b s = Ret () (wake (Ch_buf b) u)"
    if "my_buf s b \<and> \<not> (b_valid (bufs s b) \<and> \<not> b_dirty (bufs s b))"
  proof (cases "b_dirty (bufs s b)")
    case True
    have x: "x\<lparr>b_dirty := False, b_valid := True\<rparr> = x\<lparr>b_valid := True, b_dirty := False\<rparr>" for x :: buf by (cases x) simp
    have "s\<lparr>disk := D, dtrace := T, bufs := (bufs s)(b := (bufs s b)\<lparr>b_dirty := False, b_valid := True\<rparr>)\<rparr> =
        s\<lparr>bufs := (bufs s)(b := (bufs s b)\<lparr>b_valid := True, b_dirty := False\<rparr>), disk := D, dtrace := T\<rparr>" for D T
      unfolding x by (rule kstate.equality) simp_all
    then show ?thesis
      using iderw_write [OF assms(1) _ True assms(3)] that h assms(2,4) True by (simp add: mem_iderw_def write_sector_def)
  next
    case False
    then show ?thesis
      using iderw_read [OF assms(1) _ _ False assms(3)] that h assms(2,4) by (simp add: mem_iderw_def dsk_def)
  qed
  assume "my_buf s b \<and> b_valid (bufs s b) \<and> \<not> b_dirty (bufs s b)"
  then show "mem_iderw n b s = Panic ''iderw: nothing to do''" "iderw b s = Panic ''iderw: nothing to do''"
    using h by (simp_all add: mem_iderw_def iderw_def)
next
  have h: "held s = []" using assms(1) by (simp add: ide_ready_def)
  assume "\<not> sl_locked (b_lock (bufs s b))"
  then show "mem_iderw n b s = Panic ''iderw: buf not locked''" "iderw b s = Panic ''iderw: buf not locked''"
    using h by (simp_all add: mem_iderw_def iderw_def)
qed

definition drive_demo :: kstate where
  "drive_demo = (kstate0 (\<lambda>d n. [of_nat n]))\<lparr>bufs := (\<lambda>_. buf0\<lparr>b_dev := 1, b_blockno := 9, b_lock := mylock (kstate0 (\<lambda>_ _. []))\<rparr>)\<rparr>"

theorem drivers_agree_witness:
  "\<exists>u. mem_iderw 1000 3 drive_demo = Ret () u \<and> iderw 3 drive_demo = Ret () (wake (Ch_buf 3) u)"
  using drivers_agree [of drive_demo 3 1000]
  by (simp add: drive_demo_def ide_ready_def my_buf_def mylock_def kstate0_def buf0_def)

end
