(* ===== verification/Spec2Isabelle.thy ===== *)
theory Spec2Isabelle
  imports Log_Crash Console_Line File_Write File_Refs Vm_Free Spinlock Pipe_Queue Sys_Mount Proc_Rules Syscall Grep Kbd Memide
begin

text \<open>
  A verification development for a teaching kernel: xv6 for the x86, extended with mounts of file system images through
  loop devices and with pid namespaces. The source is the directory \<^verbatim>\<open>src\<close>; file names below are names in it.

  \<^bold>\<open>The program and its parts.\<close> At the bottom the disk driver (\<^verbatim>\<open>ide.c\<close>, or \<^verbatim>\<open>memide.c\<close> in its place) moves blocks between sectors
  and the buffers of the cache (\<^verbatim>\<open>bio.c\<close>). The write-ahead log (\<^verbatim>\<open>log.c\<close>) groups block writes into transactions that survive a
  crash as a whole. Blocks, inodes, file contents, directories and path names (\<^verbatim>\<open>fs.c\<close>) use the cache and the log; a path can cross into
  a file system inside a file, which the mount table (\<^verbatim>\<open>sysmount.c\<close>) and the loop device (\<^verbatim>\<open>loopdev.c\<close>) provide: a block of a loop device is
  read and written through \<^verbatim>\<open>readi\<close> and \<^verbatim>\<open>writei\<close> of the file behind it. Open files (\<^verbatim>\<open>file.c\<close>), pipes (\<^verbatim>\<open>pipe.c\<close>) and the
  console (\<^verbatim>\<open>console.c\<close>, \<^verbatim>\<open>uart.c\<close>, \<^verbatim>\<open>kbd.c\<close>) are what system calls on files reach. Physical pages (\<^verbatim>\<open>kalloc.c\<close>) and page tables
  (\<^verbatim>\<open>vm.c\<close>) hold the memory of processes (\<^verbatim>\<open>proc.c\<close>, \<^verbatim>\<open>exec.c\<close>), which carry a namespace (\<^verbatim>\<open>namespace.c\<close>, \<^verbatim>\<open>pid_namespace.c\<close>).
  Traps and the dispatch of system calls (\<^verbatim>\<open>trap.c\<close>, \<^verbatim>\<open>syscall.c\<close>, \<^verbatim>\<open>sysfile.c\<close>, \<^verbatim>\<open>sysproc.c\<close>, \<^verbatim>\<open>sysmount.c\<close>, \<^verbatim>\<open>sysnamespace.c\<close>) join them.
  Spin locks and sleep locks (\<^verbatim>\<open>spinlock.c\<close>, \<^verbatim>\<open>sleeplock.c\<close>) protect all of it.

  \<^bold>\<open>How code becomes a definition.\<close> All kernel globals are the fields of one record \<open>kstate\<close> (theory \<^verbatim>\<open>Kstate\<close>), a C struct is a record, an array is a function from indices, a pointer
  to an element of a table is its index, and a pointer that may be null is an option. Machine words keep their width (\<open>u8\<close>, \<open>u16\<close>, \<open>u32\<close>); an \<^verbatim>\<open>int\<close> that only
  counts is an \<open>int\<close>. A C function is a function of the same name in a state and error monad (theory \<^verbatim>\<open>Xv6_Prelude\<close>), whose outcomes are \<open>Ret\<close> with a result and a
  state, \<open>Panic\<close> with the message of a call of \<^verbatim>\<open>panic\<close>, \<open>Sleep\<close> with the channel when the process gives up the CPU, and \<open>Fault\<close> for what C leaves undefined: a null pointer
  that is used, an index out of range, a loop that does not end. Loops are recursive functions, named after their function with \<^verbatim>\<open>_from\<close> or \<^verbatim>\<open>_loop\<close>. The functions
  of the loop device are passed as arguments \<open>lr\<close> and \<open>lw\<close> to the functions that can reach a loop device, because the code is recursive there.

  \<^bold>\<open>The theories.\<close>

  \<^item> \<^verbatim>\<open>Xv6_Prelude\<close>: the monad, its rules for total (\<open>wp\<close>) and partial (\<open>wlp\<close>) correctness, bytes and words, byte slices. \<^verbatim>\<open>Slot_Tables\<close> and \<^verbatim>\<open>Ring\<close> hold the interfaces: the locale
    \<open>slot_table\<close> for allocation of the first free slot, \<open>ref_table\<close> for reference counts, \<open>ring\<close> for bounded queues with wrapping counters. They are interpreted on the file
    table (\<^verbatim>\<open>File\<close>, \<^verbatim>\<open>File_Refs\<close>), on the pipe (\<^verbatim>\<open>Pipe_Queue\<close>) and on the console input (\<^verbatim>\<open>Console_Line\<close>).
  \<^item> \<^verbatim>\<open>Kstate\<close>: \<^verbatim>\<open>param.h\<close>, \<^verbatim>\<open>proc.h\<close>, \<^verbatim>\<open>file.h\<close>, \<^verbatim>\<open>buf.h\<close> and the other headers. \<^verbatim>\<open>Locks\<close>: locks as one CPU sees them, \<^verbatim>\<open>sleep\<close>, \<^verbatim>\<open>wakeup\<close>, sleep locks. \<^verbatim>\<open>Spinlock\<close>: \<^verbatim>\<open>acquire\<close> and \<^verbatim>\<open>release\<close> taken apart
    into atomic steps of any number of CPUs, with \<^verbatim>\<open>pushcli\<close> and \<^verbatim>\<open>popcli\<close>; mutual exclusion in every interleaving.
  \<^item> \<^verbatim>\<open>Ide\<close>, \<^verbatim>\<open>Memide\<close>: the two disk drivers and their agreement. \<^verbatim>\<open>Bio\<close>, \<^verbatim>\<open>Bio_Cache\<close>, \<^verbatim>\<open>Bio_Rules\<close>: the buffer cache on its doubly linked ring, the invariant \<open>cache_ok\<close>, the content \<open>cview\<close> of
    the disk as the kernel sees it, and rules for \<^verbatim>\<open>bread\<close>, \<^verbatim>\<open>bwrite\<close>, \<^verbatim>\<open>brelse\<close> in these terms; least recently used order.
  \<^item> \<^verbatim>\<open>Log\<close>, \<^verbatim>\<open>Log_Commit\<close>, \<^verbatim>\<open>Log_Crash\<close>, \<^verbatim>\<open>Log_Write\<close>, \<^verbatim>\<open>Transaction\<close>: \<^verbatim>\<open>log.c\<close> with both of its logs; the exact block writes of a commit and of a recovery; a crash after any number of them; admission
    of operations and absorption; the rules of an open transaction (\<open>tx\<close>).
  \<^item> \<^verbatim>\<open>Fs_Layout\<close>, \<^verbatim>\<open>Inode\<close>, \<^verbatim>\<open>Fs_Alloc\<close>, \<^verbatim>\<open>File_IO\<close>, \<^verbatim>\<open>Namex\<close>, \<^verbatim>\<open>File_Read\<close>, \<^verbatim>\<open>File_Write\<close>: the layout of the disk with its round trips, \<^verbatim>\<open>fs.c\<close>; the free map as a set; the bytes of a file
    (\<open>fbyte\<close>) through direct and indirect blocks, what \<^verbatim>\<open>readi\<close>, \<^verbatim>\<open>writei\<close> and \<^verbatim>\<open>dirlookup\<close> do in terms of them, and the inode cache without duplicates.
  \<^item> \<^verbatim>\<open>Mount\<close>, \<^verbatim>\<open>Sys_Mount\<close>, \<^verbatim>\<open>Loopdev\<close>: the mount table, its system calls and the loop device; the linked entries as an abstract list.
  \<^item> \<^verbatim>\<open>CString\<close>: \<^verbatim>\<open>string.c\<close>. \<^verbatim>\<open>Console_Out\<close>, \<^verbatim>\<open>Console\<close>, \<^verbatim>\<open>Console_Line\<close>, \<^verbatim>\<open>Kbd\<close>: formatted output, the screen, the line editor, the keyboard maps.
  \<^item> \<^verbatim>\<open>Kalloc\<close>, \<^verbatim>\<open>Vm\<close>, \<^verbatim>\<open>Vm_Rules\<close>, \<^verbatim>\<open>Vm_Free\<close>: pages as a stack of free pages; page tables as the partial function \<open>mapping\<close>; what \<^verbatim>\<open>mappages\<close> and \<^verbatim>\<open>deallocuvm\<close> do to it, that the loops over
    addresses end, and that \<^verbatim>\<open>freevm\<close> gives every page back once.
  \<^item> \<^verbatim>\<open>Pipe\<close>, \<^verbatim>\<open>Pipe_Queue\<close>, \<^verbatim>\<open>File\<close>, \<^verbatim>\<open>File_Types\<close>, \<^verbatim>\<open>File_Refs\<close>: pipes as bounded queues, every interleaving of a writer and a reader, no deadlock; types of open
    files and the making of a pipe; reference counts and the lifetime of a pipe, from its first to its last close.
  \<^item> \<^verbatim>\<open>Syscall_Args\<close>, \<^verbatim>\<open>Sysfile\<close>, \<^verbatim>\<open>Namespaces\<close>, \<^verbatim>\<open>Proc\<close>, \<^verbatim>\<open>Proc_Rules\<close>, \<^verbatim>\<open>Exec\<close>, \<^verbatim>\<open>Syscall\<close>: arguments of system calls, the system calls on files, namespaces and pids per level, processes from \<^verbatim>\<open>allocproc\<close> to the
    scheduler, fairness of the scheduler, what \<^verbatim>\<open>kill\<close> reaches, \<^verbatim>\<open>exec\<close>, the dispatch table, \<^verbatim>\<open>trap\<close> and \<^verbatim>\<open>main\<close>.
  \<^item> \<^verbatim>\<open>Grep\<close>: the user program \<^verbatim>\<open>grep.c\<close>, its matcher against the meaning of patterns, and string functions of \<^verbatim>\<open>ulib.c\<close>.

  \<^bold>\<open>What the theorems show.\<close> From a clean header, a crash during a commit leaves the file system before or after the transaction, and recovery installs the transaction and can itself be interrupted; but a commit does not erase
  its header, and a crash in the following commit corrupts the disk. A crash is a prefix of the block writes that the run of \<^verbatim>\<open>commit\<close> or \<^verbatim>\<open>recover_from_log\<close> appends to the
  trace \<open>dtrace\<close> of the disk. The cache returns the block's content and keeps its invariant; allocation of blocks implements a set; what
  \<^verbatim>\<open>writei\<close> writes inside a file \<^verbatim>\<open>readi\<close> returns; directory look-up is the first matching entry. Page table operations change exactly the pages they are asked to and leak no page. Locks exclude, pipes
  deliver, the scheduler is fair. User pointers are checked. Names of mounts, reference counts, pids per namespace behave as their abstract counterparts; two theorems show how a freed parent
  namespace, and the pid 0, break the isolation of namespaces.

  \<^bold>\<open>Bounds and fuel.\<close> Most loops are structural or end by a measure. Where the code walks a list or counts up to a value it reads from memory, the definition carries a number of rounds and is
  a \<open>Fault\<close> when they are used up: \<open>NBUF + 1\<close> for the ring of buffers, enough because the ring has \<open>NBUF\<close> elements under \<open>cache_ok\<close>; 31 for the loops over a log
  header, which has 30 entries; \<open>NMNT + 1\<close> for the mount list, enough because its entries are different slots of a table of \<open>NMNT\<close>. The theorems on these loops state that they return. A loop device
  on a loop device makes \<^verbatim>\<open>loopdev_read\<close> recursive: \<open>lr_at n\<close> allows \<open>n\<close> levels, and with one loop device one level is all that a mount can use; theorems that do not depend on it hold for every \<open>lr\<close>. In \<^verbatim>\<open>iderw\<close> the
  interrupts of the requests queued so far happen while the process waits, as many as there are requests.

  \<^bold>\<open>Not modelled.\<close> The boot sector, assembly (context switch, trap entry), interrupt controllers, processor discovery, segment and interrupt descriptors, and port programming at start-up are input and output with the
  hardware before or below the state of the kernel. Memory barriers and the debugging fields of locks are left out, and so are diagnostics that kernel functions print with \<^verbatim>\<open>cprintf\<close> on error paths. Interleaving of processes is
  modelled where a process sleeps, in the pipe and in the spin lock; elsewhere a kernel function runs to its next sleep, as it does under its locks on one CPU.
  So the invariant \<open>cache_ok\<close> describes the cache while no process waits for a buffer that another one holds: a buffer then has one reference while it is locked and none otherwise.
  \<^verbatim>\<open>myproc()\<close> is never null in this view and a lock is never a null pointer, so the panics of \<^verbatim>\<open>sleep\<close> on them have no counterpart; the flag \<^verbatim>\<open>panicked\<close> is set only by a panic,
  which ends the run. Of the user programs only \<^verbatim>\<open>grep\<close> is
  modelled; the shell, the small utilities, formatted output and \<^verbatim>\<open>malloc\<close> of the user library run above the system call interface. \<^verbatim>\<open>mkfs.c\<close> runs on the host, and the test programs are not part of the system.
\<close>

end
